(* ===== verification/Prelude.thy ===== *)
theory Prelude
  imports Main "HOL-Library.Char_ord" "HOL-Library.List_Lexorder" "HOL-Library.Multiset"
begin

section \<open>Prelude: Go values shared by the components\<close>

text \<open>
  What every component of the server uses: the types that stand for Go's strings, times and
  durations, 64-bit wrap-around, the parts of the packages \<^verbatim>\<open>strings\<close>, \<^verbatim>\<open>strconv\<close> and
  \<^verbatim>\<open>math\<close> the sources call, and the generic lemmas the component proofs share. A Go string is a
  sequence of bytes, so it is a \<^typ>\<open>string\<close>; a \<^verbatim>\<open>time.Time\<close> is a number of nanoseconds since
  the Unix epoch and a \<^verbatim>\<open>time.Duration\<close> a number of nanoseconds.
\<close>

type_synonym ident = string
type_synonym time = int
type_synonym duration = int

named_theorems go_simps \<open>unfolding rules of the Go library functions\<close>
named_theorems table_simps \<open>how the registry's operations act on its tables\<close>
named_theorems keeps_inv \<open>operations that keep a component's invariant\<close>

subsection \<open>Machine integers\<close>

text \<open>Two's complement wrap-around of Go's \<^verbatim>\<open>int64\<close> (and \<^verbatim>\<open>int\<close>) and \<^verbatim>\<open>int32\<close>.\<close>

definition wrap64 :: "int \<Rightarrow> int" where
  "wrap64 x = (x + 9223372036854775808) mod 18446744073709551616 - 9223372036854775808"

definition wrap32 :: "int \<Rightarrow> int" where
  "wrap32 x = (x + 2147483648) mod 4294967296 - 2147483648"

definition max_int64 :: int where "max_int64 = 9223372036854775807"
definition min_int64 :: int where "min_int64 = - 9223372036854775808"
definition max_int32 :: int where "max_int32 = 2147483647"
definition min_int32 :: int where "min_int32 = - 2147483648"

lemmas int_bounds = max_int64_def min_int64_def max_int32_def min_int32_def

lemma wrap64_id: "min_int64 \<le> x \<Longrightarrow> x \<le> max_int64 \<Longrightarrow> wrap64 x = x"
  by (simp add: wrap64_def int_bounds)

lemma wrap64_range: "min_int64 \<le> wrap64 x \<and> wrap64 x \<le> max_int64"
proof -
  have "0 \<le> (x + 9223372036854775808) mod 18446744073709551616"
    and "(x + 9223372036854775808) mod 18446744073709551616 < 18446744073709551616"
    by simp_all
  then show ?thesis unfolding wrap64_def int_bounds by linarith
qed

lemma wrap32_id: "min_int32 \<le> x \<Longrightarrow> x \<le> max_int32 \<Longrightarrow> wrap32 x = x"
  by (simp add: wrap32_def int_bounds)

text \<open>Go's \<^verbatim>\<open>%\<close> truncates towards zero, so its result has the sign of the dividend.\<close>

definition go_rem :: "int \<Rightarrow> int \<Rightarrow> int" where
  "go_rem a b = sgn a * (\<bar>a\<bar> mod \<bar>b\<bar>)"

subsection \<open>Durations and times\<close>

definition second :: duration where "second = 1000000000"
definition minute :: duration where "minute = 60 * second"
definition hour :: duration where "hour = 60 * minute"
definition day :: duration where "day = 24 * hour"

lemmas duration_defs = second_def minute_def hour_def day_def

text \<open>
  The zero \<^verbatim>\<open>time.Time\<close> is the first instant of the year 1; \<^verbatim>\<open>time.Truncate\<close> rounds down to a
  multiple of the duration counted from there, not from the Unix epoch.
\<close>

definition zero_time :: time where "zero_time = - (62135596800 * second)"

definition truncate_time :: "time \<Rightarrow> duration \<Rightarrow> time" where
  "truncate_time t d = t - (t - zero_time) mod d"

text \<open>\<^verbatim>\<open>t.Sub(u)\<close> saturates at the ends of the duration range.\<close>

definition sub_time :: "time \<Rightarrow> time \<Rightarrow> duration" where
  "sub_time t u = max min_int64 (min max_int64 (t - u))"

text \<open>\<^verbatim>\<open>math.Ceil(d.Seconds())\<close>: whole seconds, rounded up.\<close>

definition ceil_seconds :: "duration \<Rightarrow> int" where
  "ceil_seconds d = - ((- d) div second)"

lemma ceil_seconds_bounds: "d \<le> ceil_seconds d * second \<and> (ceil_seconds d - 1) * second < d"
proof -
  define q r where "q = (- d) div second" and "r = (- d) mod second"
  have m: "- d = q * second + r" by (simp add: q_def r_def)
  have "0 \<le> r" "r < second" by (simp_all add: r_def second_def)
  with m show ?thesis unfolding ceil_seconds_def q_def [symmetric] by (simp add: left_diff_distrib)
qed

lemma sub_time_id:
  "min_int64 \<le> t - u \<Longrightarrow> t - u \<le> max_int64 \<Longrightarrow> sub_time t u = t - u"
  by (simp add: sub_time_def)

subsection \<open>Package strings\<close>

definition has_prefix :: "string \<Rightarrow> string \<Rightarrow> bool" where
  "has_prefix s p = (take (length p) s = p)"

definition trim_prefix :: "string \<Rightarrow> string \<Rightarrow> string" where
  "trim_prefix s p = (if has_prefix s p then drop (length p) s else s)"

definition cut_prefix :: "string \<Rightarrow> string \<Rightarrow> string option" where
  "cut_prefix s p = (if has_prefix s p then Some (drop (length p) s) else None)"

text \<open>\<^verbatim>\<open>strings.Index\<close>: the first position at which the substring starts, if any.\<close>

fun str_index :: "string \<Rightarrow> string \<Rightarrow> nat option" where
  "str_index [] sub = (if sub = [] then Some 0 else None)"
| "str_index (c # cs) sub =
     (if has_prefix (c # cs) sub then Some 0 else map_option Suc (str_index cs sub))"

definition contains :: "string \<Rightarrow> string \<Rightarrow> bool" where
  "contains s sub = (str_index s sub \<noteq> None)"

text \<open>\<^verbatim>\<open>strings.LastIndex\<close>: the last such position.\<close>

fun str_last_index :: "string \<Rightarrow> string \<Rightarrow> nat option" where
  "str_last_index [] sub = (if sub = [] then Some 0 else None)"
| "str_last_index (c # cs) sub =
     (case str_last_index cs sub of
        Some i \<Rightarrow> Some (Suc i)
      | None \<Rightarrow> if has_prefix (c # cs) sub then Some 0 else None)"

text \<open>\<^verbatim>\<open>strings.Split\<close> by one character and \<^verbatim>\<open>strings.Join\<close>.\<close>

fun split_on :: "char \<Rightarrow> string \<Rightarrow> string list" where
  "split_on c [] = [[]]"
| "split_on c (x # xs) =
     (if x = c then [] # split_on c xs
      else (case split_on c xs of [] \<Rightarrow> [[x]] | w # ws \<Rightarrow> (x # w) # ws))"

fun join_with :: "string \<Rightarrow> string list \<Rightarrow> string" where
  "join_with sep [] = []"
| "join_with sep [w] = w"
| "join_with sep (w # v # ws) = w @ sep @ join_with sep (v # ws)"

definition trim_by :: "(char \<Rightarrow> bool) \<Rightarrow> string \<Rightarrow> string" where
  "trim_by P s = rev (dropWhile P (rev (dropWhile P s)))"

text \<open>The white space of \<^verbatim>\<open>strings.TrimSpace\<close>, for ASCII text.\<close>

definition is_space :: "char \<Rightarrow> bool" where
  "is_space c = (of_char c \<in> {9, 10, 11, 12, 13, 32 :: nat})"

definition trim_space :: "string \<Rightarrow> string" where
  "trim_space = trim_by is_space"

definition in_range :: "char \<Rightarrow> char \<Rightarrow> char \<Rightarrow> bool" where
  "in_range lo hi c = (of_char lo \<le> (of_char c :: nat) \<and> (of_char c :: nat) \<le> of_char hi)"

abbreviation is_digit :: "char \<Rightarrow> bool" where "is_digit \<equiv> in_range CHR ''0'' CHR ''9''"
abbreviation is_lower :: "char \<Rightarrow> bool" where "is_lower \<equiv> in_range CHR ''a'' CHR ''z''"
abbreviation is_upper :: "char \<Rightarrow> bool" where "is_upper \<equiv> in_range CHR ''A'' CHR ''Z''"

subsection \<open>Package strconv\<close>

definition digit_val :: "char \<Rightarrow> int" where
  "digit_val c = int (of_char c) - 48"

definition parse_digits :: "string \<Rightarrow> int option" where
  "parse_digits s =
     (if s \<noteq> [] \<and> list_all is_digit s then Some (foldl (\<lambda>n c. 10 * n + digit_val c) 0 s) else None)"

text \<open>
  \<^verbatim>\<open>strconv.ParseInt(s, 10, 64)\<close> and, on a 64-bit platform, \<^verbatim>\<open>strconv.Atoi\<close>: an optional sign,
  decimal digits, and a value within the range; anything else is an error.
\<close>

definition parse_int64 :: "string \<Rightarrow> int option" where
  "parse_int64 s =
     (let (neg, ds) = (case s of [] \<Rightarrow> (False, [])
                       | c # cs \<Rightarrow> if c = CHR ''-'' then (True, cs)
                                   else if c = CHR ''+'' then (False, cs) else (False, s))
      in case parse_digits ds of
           None \<Rightarrow> None
         | Some n \<Rightarrow> let v = (if neg then - n else n)
                     in if min_int64 \<le> v \<and> v \<le> max_int64 then Some v else None)"

fun digits_of :: "nat \<Rightarrow> string" where
  "digits_of n = (if n < 10 then [char_of (48 + n)] else digits_of (n div 10) @ [char_of (48 + n mod 10)])"

declare digits_of.simps [simp del]

definition itoa :: "int \<Rightarrow> string" where
  "itoa n = (if n < 0 then CHR ''-'' # digits_of (nat (- n)) else digits_of (nat n))"

subsection \<open>Shared lemmas\<close>

lemma has_prefix_append [simp]: "has_prefix (p @ s) p"
  by (simp add: has_prefix_def)

lemma has_prefix_iff: "has_prefix s p \<longleftrightarrow> (\<exists>r. s = p @ r)"
  by (metis append_take_drop_id has_prefix_append has_prefix_def)

lemma split_on_nonempty [simp]: "split_on c s \<noteq> []"
  by (induction s) (auto split: list.splits)

lemma split_on_no_sep: "w \<in> set (split_on c s) \<Longrightarrow> c \<notin> set w"
proof (induction s arbitrary: w)
  case Nil
  then show ?case by simp
next
  case (Cons x xs)
  then show ?case by (cases "split_on c xs") (auto split: if_splits)
qed

lemma split_on_append_sep: "split_on c (xs @ c # ys) = split_on c xs @ split_on c ys"
  by (induction xs) (auto split: list.splits)

lemma split_on_single: "c \<notin> set w \<Longrightarrow> split_on c w = [w]"
  by (induction w) auto

text \<open>Joining with a separator that no part holds loses nothing.\<close>

lemma split_on_join:
  "ws \<noteq> [] \<Longrightarrow> (\<forall>w \<in> set ws. c \<notin> set w) \<Longrightarrow> split_on c (join_with [c] ws) = ws"
proof (induction "[c]" ws rule: join_with.induct)
  case 1
  then show ?case by simp
next
  case (2 w)
  then show ?case by (simp add: split_on_single)
next
  case (3 w v ws)
  then show ?case by (simp add: split_on_append_sep split_on_single)
qed

lemma join_with_inj:
  assumes "vs \<noteq> []" "ws \<noteq> []" "\<forall>w \<in> set vs. c \<notin> set w" "\<forall>w \<in> set ws. c \<notin> set w"
    and "join_with [c] vs = join_with [c] ws"
  shows "vs = ws"
  using assms by (metis split_on_join)

lemma str_index_Some: "str_index s sub = Some i \<Longrightarrow> has_prefix (drop i s) sub \<and> i \<le> length s"
proof (induction s arbitrary: i)
  case Nil
  then show ?case by (auto simp: has_prefix_def split: if_splits)
next
  case (Cons c cs)
  then show ?case by (cases i) (auto split: if_splits)
qed

lemma str_index_None: "str_index s sub = None \<Longrightarrow> \<not> has_prefix (drop i s) sub"
proof (induction s arbitrary: i)
  case Nil
  then show ?case by (auto simp: has_prefix_def split: if_splits)
next
  case (Cons c cs)
  then show ?case by (cases i) (auto split: if_splits)
qed

lemma contains_iff: "contains s sub \<longleftrightarrow> (\<exists>a b. s = a @ sub @ b)"
proof
  assume "contains s sub"
  then obtain i where "str_index s sub = Some i" by (auto simp: contains_def)
  then have "has_prefix (drop i s) sub" by (simp add: str_index_Some)
  then obtain b where "drop i s = sub @ b" by (auto simp: has_prefix_iff)
  then have "s = take i s @ sub @ b" by (metis append_take_drop_id)
  then show "\<exists>a b. s = a @ sub @ b" by blast
next
  assume "\<exists>a b. s = a @ sub @ b"
  then obtain a b where s: "s = a @ sub @ b" by blast
  then have "has_prefix (drop (length a) s) sub" by simp
  then show "contains s sub" using str_index_None by (fastforce simp: contains_def)
qed

lemma foldl_keeps:
  "P a \<Longrightarrow> (\<And>x y. y \<in> set xs \<Longrightarrow> P x \<Longrightarrow> P (f x y)) \<Longrightarrow> P (foldl f a xs)"
  by (induction xs arbitrary: a) auto

end
