(* ===== verification/Json.thy ===== *)
theory Json
  imports Prelude
begin

section \<open>JSON values and how encoding/json decodes them\<close>

text \<open>
  td_api requests, answers and updates are JSON. A \<^verbatim>\<open>json.RawMessage\<close> is held as the syntax tree
  of its bytes: an object keeps its members in order and with duplicates, as the bytes do, because
  Go and the receiver of the forwarded bytes need not read them the same way. An integer literal is
  \<open>JInt\<close>, any other number literal \<open>JFloat\<close>.

  The decoder is the part of \<^verbatim>\<open>encoding/json\<close> the sources rely on: struct fields are matched
  exactly or else with case folding, a later duplicate overwrites an earlier one, \<open>null\<close> leaves a
  plain field alone and clears a pointer or a slice, and a value of the wrong type leaves the field
  as it was, decoding goes on, and the whole answers an error. A decoder therefore takes the value
  and the current contents, and returns whether it succeeded together with the new contents.
\<close>

datatype json =
    JNull
  | JBool bool
  | JInt int
  | JFloat string
  | JStr string
  | JArr "json list"
  | JObj "(string \<times> json) list"

text \<open>A \<^verbatim>\<open>json.RawMessage\<close>: no bytes, bytes that are no JSON, or the value they spell.\<close>

datatype raw = RawEmpty | RawBad | RawVal json

type_synonym 's dec = "json \<Rightarrow> 's \<Rightarrow> bool \<times> 's"
type_synonym 's field = "string \<times> 's dec"

subsection \<open>Field names\<close>

text \<open>
  Names are folded as \<^verbatim>\<open>encoding/json\<close> folds them. Only two characters beyond ASCII fold to an
  ASCII letter, U+017F to s and U+212A to k; here as their UTF-8 bytes.
\<close>

definition to_lower :: "char \<Rightarrow> char" where
  "to_lower c = (if is_upper c then char_of (of_char c + 32 :: nat) else c)"

fun fold_name :: "string \<Rightarrow> string" where
  "fold_name [] = []"
| "fold_name (c # cs) =
     (if c = CHR 0xC5 \<and> take 1 cs = [CHR 0xBF] then CHR ''s'' # fold_name (drop 1 cs)
      else if c = CHR 0xE2 \<and> take 2 cs = [CHR 0x84, CHR 0xAA] then CHR ''k'' # fold_name (drop 2 cs)
      else to_lower c # fold_name cs)"

definition find_field :: "'s field list \<Rightarrow> string \<Rightarrow> 's dec option" where
  "find_field fs k =
     (case map_of fs k of
        Some d \<Rightarrow> Some d
      | None \<Rightarrow> map_of (map (\<lambda>(n, d). (fold_name n, d)) fs) (fold_name k))"

subsection \<open>Decoders\<close>

fun dec_int :: "int \<Rightarrow> int \<Rightarrow> int dec" where
  "dec_int lo hi JNull v = (True, v)"
| "dec_int lo hi (JInt n) v = (if lo \<le> n \<and> n \<le> hi then (True, n) else (False, v))"
| "dec_int lo hi _ v = (False, v)"

abbreviation dec_int64 :: "int dec" where "dec_int64 \<equiv> dec_int min_int64 max_int64"
abbreviation dec_int32 :: "int dec" where "dec_int32 \<equiv> dec_int min_int32 max_int32"

fun dec_bool :: "bool dec" where
  "dec_bool JNull v = (True, v)"
| "dec_bool (JBool b) v = (True, b)"
| "dec_bool _ v = (False, v)"

fun dec_str :: "string dec" where
  "dec_str JNull v = (True, v)"
| "dec_str (JStr s) v = (True, s)"
| "dec_str _ v = (False, v)"

text \<open>\<^verbatim>\<open>[]json.RawMessage\<close>, \<^verbatim>\<open>json.RawMessage\<close> (which even \<open>null\<close> fills) and pointers.\<close>

fun dec_raws :: "json list dec" where
  "dec_raws JNull v = (True, [])"
| "dec_raws (JArr xs) v = (True, xs)"
| "dec_raws _ v = (False, v)"

definition dec_raw :: "raw dec" where
  "dec_raw j v = (True, RawVal j)"

definition dec_ptr :: "'a \<Rightarrow> 'a dec \<Rightarrow> 'a option dec" where
  "dec_ptr zero d j v =
     (case j of JNull \<Rightarrow> (True, None)
      | _ \<Rightarrow> (let (ok, x) = d j (case v of None \<Rightarrow> zero | Some x \<Rightarrow> x) in (ok, Some x)))"

text \<open>\<^verbatim>\<open>[]string\<close> and \<^verbatim>\<open>[]int64\<close>: element by element, each into what the slice held there.\<close>

fun dec_elems :: "'a \<Rightarrow> 'a dec \<Rightarrow> json list \<Rightarrow> 'a list \<Rightarrow> bool \<times> 'a list" where
  "dec_elems zero d [] vs = (True, [])"
| "dec_elems zero d (j # js) vs =
     (let (ok, x) = d j (case vs of [] \<Rightarrow> zero | v # _ \<Rightarrow> v);
          (ok', xs) = dec_elems zero d js (drop 1 vs)
      in (ok \<and> ok', x # xs))"

definition dec_list :: "'a \<Rightarrow> 'a dec \<Rightarrow> 'a list dec" where
  "dec_list zero d j v =
     (case j of JNull \<Rightarrow> (True, []) | JArr js \<Rightarrow> dec_elems zero d js v | _ \<Rightarrow> (False, v))"

text \<open>One struct field, given how to read and write it.\<close>

definition on_field :: "('s \<Rightarrow> 'a) \<Rightarrow> ('a \<Rightarrow> 's \<Rightarrow> 's) \<Rightarrow> 'a dec \<Rightarrow> 's dec" where
  "on_field get_f set_f d j s = (let (ok, x) = d j (get_f s) in (ok, set_f x s))"

fun dec_fields :: "'s field list \<Rightarrow> (string \<times> json) list \<Rightarrow> 's \<Rightarrow> bool \<times> 's" where
  "dec_fields fs [] s = (True, s)"
| "dec_fields fs ((k, j) # kjs) s =
     (case find_field fs k of
        None \<Rightarrow> dec_fields fs kjs s
      | Some d \<Rightarrow> (let (ok, s') = d j s; (ok', s'') = dec_fields fs kjs s' in (ok \<and> ok', s'')))"

definition dec_struct :: "'s field list \<Rightarrow> 's dec" where
  "dec_struct fs j s =
     (case j of JNull \<Rightarrow> (True, s) | JObj kjs \<Rightarrow> dec_fields fs kjs s | _ \<Rightarrow> (False, s))"

text \<open>\<^verbatim>\<open>json.Unmarshal(raw, &v)\<close>: nothing is decoded when the bytes are no JSON value.\<close>

definition unmarshal :: "'s dec \<Rightarrow> raw \<Rightarrow> 's \<Rightarrow> bool \<times> 's" where
  "unmarshal d r s = (case r of RawVal j \<Rightarrow> d j s | _ \<Rightarrow> (False, s))"

subsection \<open>Objects as maps\<close>

text \<open>
  Decoded into a \<^verbatim>\<open>map[string]json.RawMessage\<close>, an object keeps the last of its duplicate
  members; encoded again, its members come in the order of their names.
\<close>

fun last_wins :: "(string \<times> 'a) list \<Rightarrow> (string \<times> 'a) list" where
  "last_wins [] = []"
| "last_wins ((k, v) # kvs) = (if k \<in> fst ` set kvs then last_wins kvs else (k, v) # last_wins kvs)"

definition unmarshal_map :: "raw \<Rightarrow> (string \<times> json) list option" where
  "unmarshal_map r =
     (case r of RawVal (JObj kvs) \<Rightarrow> Some (last_wins kvs) | RawVal JNull \<Rightarrow> Some [] | _ \<Rightarrow> None)"

definition map_put :: "string \<Rightarrow> 'a \<Rightarrow> (string \<times> 'a) list \<Rightarrow> (string \<times> 'a) list" where
  "map_put k v kvs = (k, v) # filter (\<lambda>(k', _). k' \<noteq> k) kvs"

definition marshal_map :: "(string \<times> json) list \<Rightarrow> json" where
  "marshal_map kvs = JObj (sort_key fst kvs)"

text \<open>A member of an object, the way a reader that takes the first or the last match sees it.\<close>

fun obj_get :: "json \<Rightarrow> string \<Rightarrow> json option" where
  "obj_get (JObj kvs) k = map_of (last_wins kvs) k"
| "obj_get _ k = None"

subsection \<open>Lemmas\<close>

lemma dec_int_ok: "dec_int lo hi j v = (True, n) \<Longrightarrow> n = v \<or> (lo \<le> n \<and> n \<le> hi)"
  by (cases j) (auto split: if_splits)

lemma last_wins_keys: "fst ` set (last_wins kvs) = fst ` set kvs"
proof (induction kvs)
  case Nil
  then show ?case by simp
next
  case (Cons kv kvs)
  then show ?case by (cases kv) (simp add: insert_absorb)
qed

lemma last_wins_distinct: "distinct (map fst (last_wins kvs))"
proof (induction kvs)
  case Nil
  then show ?case by simp
next
  case (Cons kv kvs)
  then show ?case by (cases kv) (simp add: last_wins_keys)
qed

lemma map_of_last_wins: "map_of (last_wins kvs) k = map_of (rev kvs) k"
proof (induction kvs)
  case Nil
  then show ?case by simp
next
  case (Cons kv kvs)
  obtain a v where kv: "kv = (a, v)" by (cases kv)
  have "map_of (rev kvs) a = None \<longleftrightarrow> a \<notin> fst ` set kvs" by (simp add: map_of_eq_None_iff)
  with Cons show ?case by (auto simp: kv map_add_def split: option.splits)
qed

lemma last_wins_id: "distinct (map fst kvs) \<Longrightarrow> last_wins kvs = kvs"
  by (induction kvs) auto

lemma last_wins_subset: "set (last_wins kvs) \<subseteq> set kvs"
  by (induction kvs) (auto split: if_splits)

lemma map_put_distinct: "distinct (map fst kvs) \<Longrightarrow> distinct (map fst (map_put k v kvs))"
  by (auto simp: map_put_def distinct_map_filter)

lemma map_of_map_put: "map_of (map_put k v kvs) = (map_of kvs)(k \<mapsto> v)"
proof
  fix x
  show "map_of (map_put k v kvs) x = ((map_of kvs)(k \<mapsto> v)) x"
    by (induction kvs) (auto simp: map_put_def)
qed

lemma distinct_sort_key: "distinct (map f (sort_key f xs)) = distinct (map f xs)"
proof -
  have "mset (map f (sort_key f xs)) = mset (map f xs)" by simp
  then show ?thesis by (rule mset_eq_imp_distinct_iff)
qed

lemma obj_get_marshal_map:
  assumes "distinct (map fst kvs)"
  shows "obj_get (marshal_map kvs) k = map_of kvs k"
proof -
  have d: "distinct (map fst (sort_key fst kvs))" using assms by (simp only: distinct_sort_key)
  have "map_of (sort_key fst kvs) k = Some v \<longleftrightarrow> map_of kvs k = Some v" for k v
    using d assms by (simp add: map_of_eq_Some_iff)
  then have "map_of (sort_key fst kvs) = map_of kvs"
    by (metis (no_types) ext not_Some_eq)
  then show ?thesis using d by (simp add: marshal_map_def last_wins_id)
qed

lemma dec_fields_skip:
  "(\<And>k j. (k, j) \<in> set kjs \<Longrightarrow> find_field fs k = None) \<Longrightarrow> dec_fields fs kjs s = (True, s)"
proof (induction kjs)
  case Nil
  then show ?case by simp
next
  case (Cons kj kjs)
  obtain k j where kj: "kj = (k, j)" by (cases kj)
  have "find_field fs k = None" using Cons.prems [of k j] kj by simp
  moreover have "dec_fields fs kjs s = (True, s)" using Cons by (metis list.set_intros(2))
  ultimately show ?case by (simp add: kj)
qed

end
