(* ===== verification/Http.thy ===== *)
theory Http
  imports Json
begin

section \<open>Requests, routes and replies\<close>

text \<open>
  What the gateway and the worker use of \<^verbatim>\<open>net/http\<close>. A request path is the list of the segments of
  the escaped path, each unescaped: that is what \<^verbatim>\<open>ServeMux\<close> matches its patterns against, while
  \<^verbatim>\<open>r.URL.Path\<close> is the unescaped path as one text, in which a segment may itself hold slashes. (A
  path that is not clean is redirected by the mux before any handler sees it.) A JSON body is given as
  the value the decoder reads from it and the bytes that takes; an answer is its status, its headers
  and the value encoded as its body, or the forwarding of a request to a worker.
\<close>

record request =
  hr_method :: string
  hr_segs :: "string list"
  hr_headers :: "(string \<times> string) list"
  hr_query :: "(string \<times> string) list"
  hr_json :: raw
  hr_json_size :: int
  hr_length :: int

datatype reply =
    Reply int "(string \<times> string) list" json
  | Relay string request

subsection \<open>Reading a request\<close>

definition header :: "request \<Rightarrow> string \<Rightarrow> string" where
  "header r k = (case map_of (hr_headers r) k of None \<Rightarrow> '''' | Some v \<Rightarrow> v)"

definition del_header :: "string \<Rightarrow> request \<Rightarrow> request" where
  "del_header k r = r\<lparr>hr_headers := filter (\<lambda>h. fst h \<noteq> k) (hr_headers r)\<rparr>"

definition set_header :: "string \<Rightarrow> string \<Rightarrow> request \<Rightarrow> request" where
  "set_header k v r = r\<lparr>hr_headers := (k, v) # filter (\<lambda>h. fst h \<noteq> k) (hr_headers r)\<rparr>"

definition query :: "request \<Rightarrow> string \<Rightarrow> string" where
  "query r k = (case map_of (hr_query r) k of None \<Rightarrow> '''' | Some v \<Rightarrow> v)"

definition url_path :: "request \<Rightarrow> string" where
  "url_path r = CHR ''/'' # join_with ''/'' (hr_segs r)"

text \<open>\<^verbatim>\<open>strings.Split(strings.Trim(path, "/"), "/")\<close>\<close>

definition path_parts :: "string \<Rightarrow> string list" where
  "path_parts p = split_on CHR ''/'' (trim_by (\<lambda>c. c = CHR ''/'') p)"

subsection \<open>The mux\<close>

datatype segment = Lit string | Wild string

fun match_segs :: "segment list \<Rightarrow> string list \<Rightarrow> (string \<times> string) list option" where
  "match_segs [] [] = Some []"
| "match_segs (Lit l # ps) (x # xs) = (if l = x then match_segs ps xs else None)"
| "match_segs (Wild v # ps) (x # xs) = (if x = '''' then None else map_option (Cons (v, x)) (match_segs ps xs))"
| "match_segs _ _ = None"

text \<open>A pattern for GET also takes HEAD.\<close>

definition method_matches :: "string \<Rightarrow> string \<Rightarrow> bool" where
  "method_matches pat m \<longleftrightarrow> pat = m \<or> (pat = ''GET'' \<and> m = ''HEAD'')"

datatype 'h mux_result = Found 'h "(string \<times> string) list" | MethodNotAllowed | NotFound

fun mux_lookup :: "(string \<times> segment list \<times> 'h) list \<Rightarrow> request \<Rightarrow> 'h mux_result" where
  "mux_lookup [] r = NotFound"
| "mux_lookup ((m, p, h) # rs) r =
     (case match_segs p (hr_segs r) of
        None \<Rightarrow> mux_lookup rs r
      | Some vs \<Rightarrow>
          if method_matches m (hr_method r) then Found h vs
          else (case mux_lookup rs r of NotFound \<Rightarrow> MethodNotAllowed | x \<Rightarrow> x))"

definition path_value :: "(string \<times> string) list \<Rightarrow> string \<Rightarrow> string" where
  "path_value vs k = (case map_of vs k of None \<Rightarrow> '''' | Some v \<Rightarrow> v)"

text \<open>The mux's own answers are plain text.\<close>

definition plain_text :: "int \<Rightarrow> string \<Rightarrow> reply" where
  "plain_text status msg = Reply status [] (JStr msg)"

subsection \<open>Envelopes\<close>

definition ok_reply :: "json \<Rightarrow> reply" where
  "ok_reply result = Reply 200 [] (JObj [(''ok'', JBool True), (''result'', result)])"

definition gateway_error :: "int \<Rightarrow> string \<Rightarrow> reply" where
  "gateway_error status msg =
     Reply status [] (JObj [(''error'', JObj [(''message'', JStr msg), (''source'', JStr ''gateway'')]),
                            (''ok'', JBool False)])"

definition status_of :: "reply \<Rightarrow> int option" where
  "status_of x = (case x of Reply s _ _ \<Rightarrow> Some s | Relay _ _ \<Rightarrow> None)"

definition status_ok :: "string \<Rightarrow> json" where
  "status_ok s = JObj [(''status'', JStr s)]"

text \<open>Members a struct leaves out when they are empty.\<close>

definition omit_empty :: "string \<Rightarrow> string \<Rightarrow> (string \<times> json) list" where
  "omit_empty k v = (if v = '''' then [] else [(k, JStr v)])"

definition omit_nil :: "string \<Rightarrow> ('a \<Rightarrow> json) \<Rightarrow> 'a option \<Rightarrow> (string \<times> json) list" where
  "omit_nil k f v = (case v of None \<Rightarrow> [] | Some x \<Rightarrow> [(k, f x)])"

definition or_null :: "('a \<Rightarrow> json) \<Rightarrow> 'a option \<Rightarrow> json" where
  "or_null f v = (case v of None \<Rightarrow> JNull | Some x \<Rightarrow> f x)"

subsection \<open>Lemmas\<close>

lemma mux_lookup_found:
  "mux_lookup rs r = Found h vs \<Longrightarrow> \<exists>m p. (m, p, h) \<in> set rs \<and> match_segs p (hr_segs r) = Some vs \<and> method_matches m (hr_method r)"
  by (induction rs r rule: mux_lookup.induct) (auto split: option.splits if_splits mux_result.splits)

lemma match_segs_length: "match_segs p xs = Some vs \<Longrightarrow> length xs = length p"
  by (induction p xs arbitrary: vs rule: match_segs.induct) (auto split: if_splits)

lemma match_Lit: "match_segs (Lit l # ps) xs = Some vs \<longleftrightarrow> (\<exists>ys. xs = l # ys \<and> match_segs ps ys = Some vs)"
  by (cases xs) auto

lemma match_Wild:
  "match_segs (Wild v # ps) xs = Some vs \<longleftrightarrow>
     (\<exists>x ys ws. xs = x # ys \<and> x \<noteq> '''' \<and> match_segs ps ys = Some ws \<and> vs = (v, x) # ws)"
  by (cases xs) auto

lemma match_Nil: "match_segs [] xs = Some vs \<longleftrightarrow> xs = [] \<and> vs = []"
  by (cases xs) auto

lemmas match_simps = match_Lit match_Wild match_Nil

text \<open>
  The parts of a path whose first three segments are known: the third is the whole first part of what
  follows the first two, as long as it holds no slash itself.
\<close>

lemma dropWhile_append_stop: "ys \<noteq> [] \<Longrightarrow> \<not> P (hd ys) \<Longrightarrow> dropWhile P (xs @ ys) = dropWhile P xs @ ys"
  by (induction xs) (auto simp: neq_Nil_conv)

lemma trim_by_core:
  assumes "w \<noteq> []" "\<not> P (hd w)" "\<not> P (last w)"
  shows "\<exists>t u. trim_by P (w @ b) = w @ t \<and> b = t @ u"
proof -
  have "dropWhile P (w @ b) = w @ b" using assms(1,2) by (cases w) auto
  moreover have "dropWhile P (rev b @ rev w) = dropWhile P (rev b) @ rev w"
    using assms(1,3) by (intro dropWhile_append_stop) (simp_all add: hd_rev)
  ultimately have "trim_by P (w @ b) = w @ rev (dropWhile P (rev b))" by (simp add: trim_by_def)
  moreover have "b = rev (dropWhile P (rev b)) @ rev (takeWhile P (rev b))"
    by (metis rev_append rev_rev_ident takeWhile_dropWhile_id)
  ultimately show ?thesis by blast
qed

definition clean_seg :: "string \<Rightarrow> bool" where
  "clean_seg w \<longleftrightarrow> w \<noteq> [] \<and> CHR ''/'' \<notin> set w"

lemma join_segs_append:
  "xs \<noteq> [] \<Longrightarrow> join_with sep (xs @ ys) = join_with sep xs @ concat (map (\<lambda>y. sep @ y) ys)"
proof (induction sep xs rule: join_with.induct)
  case (2 sep w)
  show ?case
  proof (induction ys arbitrary: w)
    case (Cons y ys)
    then show ?case by (cases ys) auto
  qed simp
qed auto

lemma join_clean_ends:
  "xs \<noteq> [] \<Longrightarrow> list_all clean_seg xs \<Longrightarrow>
   join_with ''/'' xs \<noteq> [] \<and> hd (join_with ''/'' xs) \<noteq> CHR ''/'' \<and> last (join_with ''/'' xs) \<noteq> CHR ''/''"
proof (induction "''/''" xs rule: join_with.induct)
  case (2 w)
  then show ?case by (auto simp: clean_seg_def) (metis hd_in_set, metis last_in_set)
next
  case (3 w v ws)
  then have "w \<noteq> []" "CHR ''/'' \<notin> set w" by (auto simp: clean_seg_def)
  then show ?case using 3 by (simp add: hd_append) (metis hd_in_set)
qed simp

lemma path_parts_prefix:
  assumes "hr_segs r = xs @ rest" "xs \<noteq> []" "list_all clean_seg xs"
  shows "\<exists>ps. path_parts (url_path r) = xs @ ps \<and> (rest = [] \<longrightarrow> ps = [])"
proof -
  let ?J = "join_with ''/'' xs" and ?b = "concat (map (\<lambda>y. ''/'' @ y) rest)"
  note e = join_clean_ends [OF assms(2,3)]
  have u: "url_path r = CHR ''/'' # ?J @ ?b" using assms(1,2) by (simp add: url_path_def join_segs_append)
  have "trim_by (\<lambda>c. c = CHR ''/'') (CHR ''/'' # ?J @ ?b) = trim_by (\<lambda>c. c = CHR ''/'') (?J @ ?b)"
    by (simp add: trim_by_def)
  moreover obtain t v where t: "trim_by (\<lambda>c. c = CHR ''/'') (?J @ ?b) = ?J @ t" "?b = t @ v"
    using trim_by_core [of ?J "\<lambda>c. c = CHR ''/''" ?b] e by blast
  ultimately have p: "path_parts (url_path r) = split_on CHR ''/'' (?J @ t)" by (simp add: path_parts_def u)
  have J: "split_on CHR ''/'' ?J = xs"
    using assms(2,3) by (intro split_on_join) (auto simp: list_all_iff clean_seg_def)
  show ?thesis
  proof (cases t)
    case Nil
    then show ?thesis using p J by (intro exI [of _ "[]"]) simp
  next
    case (Cons c t')
    then obtain y ys where "rest = y # ys" using t(2) by (cases rest) auto
    then have "c = CHR ''/''" using t(2) Cons by simp
    then have "path_parts (url_path r) = xs @ split_on CHR ''/'' t'" using p J Cons by (simp add: split_on_append_sep)
    then show ?thesis using \<open>rest = y # ys\<close> by blast
  qed
qed

lemma path_parts_exact:
  "hr_segs r = xs \<Longrightarrow> xs \<noteq> [] \<Longrightarrow> list_all clean_seg xs \<Longrightarrow> path_parts (url_path r) = xs"
  using path_parts_prefix [of r xs "[]"] by auto

end
