(* ===== verification/Counters.thy ===== *)
theory Counters
  imports Prelude "HOL-Library.AList"
begin

section \<open>The registry's rate limits and their counters\<close>

text \<open>
  \<^verbatim>\<open>internal/store/limits.go\<close>: the operator's rules (table \<open>rate_limit\<close>) and the calls counted
  against them (table \<open>rate_counter\<close>, keyed by rule, bucket and window start). A table is the
  list of its rows; a statement that Postgres rejects is an \<open>Inl\<close>, and then the transaction's
  changes are gone. \<^verbatim>\<open>TakeCounters\<close> is one transaction whose upserts lock their rows, so it is one
  atomic step here.
\<close>

subsection \<open>Rules\<close>

record limit =
  l_id :: ident
  l_level :: string
  l_kind :: "string option"
  l_session :: "ident option"
  l_token :: "ident option"
  l_methods :: "string list"
  l_max :: int
  l_per :: string
  l_label :: "string option"
  l_enabled :: bool
  l_created :: time

record counter_key =
  k_limit :: ident
  k_bucket :: ident
  k_start :: time

record counter_use =
  u_key :: counter_key
  u_n :: int
  u_max :: int

record quota_db =
  rate_limit :: "limit list"
  rate_counter :: "(counter_key \<times> int) list"

datatype db_err =
    DbDown
  | ForeignKey
  | CheckViolation
  | OutOfRange
  | NoRows
  | BadUuid
  | UniqueViolation
  | ErrLimitTarget

text \<open>The CHECK constraints of the migration that creates the table.\<close>

definition limit_checks :: "limit \<Rightarrow> bool" where
  "limit_checks l \<longleftrightarrow>
     l_level l \<in> {''session'', ''token''}
     \<and> (case l_kind l of None \<Rightarrow> True | Some k \<Rightarrow> k \<in> {''user'', ''bot''})
     \<and> 0 < l_max l
     \<and> l_per l \<in> {''minute'', ''hour'', ''day'', ''week''}"

definition CreateLimit ::
  "(ident \<Rightarrow> bool) \<Rightarrow> (ident \<Rightarrow> bool) \<Rightarrow> ident \<Rightarrow> time \<Rightarrow> limit \<Rightarrow> quota_db \<Rightarrow> db_err + (limit \<times> quota_db)" where
  "CreateLimit sess_exists tok_exists newid now l db =
     (if \<not> limit_checks l then Inl CheckViolation
      else if \<not> (case l_session l of None \<Rightarrow> True | Some s \<Rightarrow> sess_exists s)
              \<or> \<not> (case l_token l of None \<Rightarrow> True | Some t \<Rightarrow> tok_exists t)
      then Inl ErrLimitTarget
      else (let row = l\<lparr>l_id := newid, l_created := now\<rparr>
            in Inr (row, db\<lparr>rate_limit := rate_limit db @ [row]\<rparr>)))"

definition GetLimit :: "ident \<Rightarrow> quota_db \<Rightarrow> limit option" where
  "GetLimit lid db = find (\<lambda>l. l_id l = lid) (rate_limit db)"

definition ListLimits :: "quota_db \<Rightarrow> limit list" where
  "ListLimits db = sort_key l_created (rate_limit db)"

definition UpdateLimit :: "limit \<Rightarrow> quota_db \<Rightarrow> db_err + (limit \<times> quota_db)" where
  "UpdateLimit l db =
     (case GetLimit (l_id l) db of
        None \<Rightarrow> Inl NoRows
      | Some old \<Rightarrow>
          (let row = old\<lparr>l_methods := l_methods l, l_max := l_max l, l_per := l_per l,
                         l_label := l_label l, l_enabled := l_enabled l\<rparr>
           in if \<not> limit_checks row then Inl CheckViolation
              else Inr (row, db\<lparr>rate_limit :=
                     map (\<lambda>r. if l_id r = l_id l then row else r) (rate_limit db)\<rparr>)))"

definition DeleteLimit :: "ident \<Rightarrow> quota_db \<Rightarrow> bool \<times> quota_db" where
  "DeleteLimit lid db =
     (list_ex (\<lambda>l. l_id l = lid) (rate_limit db),
      db\<lparr>rate_limit := filter (\<lambda>l. l_id l \<noteq> lid) (rate_limit db),
         rate_counter := filter (\<lambda>(k, _). k_limit k \<noteq> lid) (rate_counter db)\<rparr>)"

subsection \<open>Counters\<close>

text \<open>The calls counted under a key, 0 when there is no row.\<close>

definition calls_of :: "quota_db \<Rightarrow> counter_key \<Rightarrow> int" where
  "calls_of db k = (case map_of (rate_counter db) k of None \<Rightarrow> 0 | Some c \<Rightarrow> c)"

text \<open>
  One upsert of \<^verbatim>\<open>TakeCounters\<close>. The inserted row is selected only where \<open>n \<le> max\<close>; on a
  conflict the sum is compared with the maximum; the counter column is an \<open>integer\<close>, whose
  overflow is an error. The boolean is whether a row was written.
\<close>

definition take_counter :: "counter_use \<Rightarrow> quota_db \<Rightarrow> db_err + (bool \<times> quota_db)" where
  "take_counter u db =
     (if u_n u < min_int32 \<or> max_int32 < u_n u then Inl OutOfRange
      else if u_max u < u_n u then Inr (False, db)
      else (case map_of (rate_counter db) (u_key u) of
              None \<Rightarrow>
                (if list_ex (\<lambda>l. l_id l = k_limit (u_key u)) (rate_limit db)
                 then Inr (True, db\<lparr>rate_counter := AList.update (u_key u) (u_n u) (rate_counter db)\<rparr>)
                 else Inl ForeignKey)
            | Some c \<Rightarrow>
                (if c + u_n u < min_int32 \<or> max_int32 < c + u_n u then Inl OutOfRange
                 else if c + u_n u \<le> u_max u
                 then Inr (True, db\<lparr>rate_counter := AList.update (u_key u) (c + u_n u) (rate_counter db)\<rparr>)
                 else Inr (False, db))))"

fun take_loop :: "nat \<Rightarrow> counter_use list \<Rightarrow> quota_db \<Rightarrow> db_err + (int \<times> quota_db)" where
  "take_loop i [] db = Inr (- 1, db)"
| "take_loop i (u # us) db =
     (case take_counter u db of
        Inl e \<Rightarrow> Inl e
      | Inr (True, db') \<Rightarrow> take_loop (Suc i) us db'
      | Inr (False, db') \<Rightarrow> Inr (int i, db'))"

text \<open>Refused (an index) or failed, the transaction rolls back; counted (-1), it commits.\<close>

definition TakeCounters :: "counter_use list \<Rightarrow> quota_db \<Rightarrow> db_err + (int \<times> quota_db)" where
  "TakeCounters us db =
     (case take_loop 0 us db of
        Inl e \<Rightarrow> Inl e
      | Inr (i, db') \<Rightarrow> if i = - 1 then Inr (- 1, db') else Inr (i, db))"

definition give_counter :: "counter_use \<Rightarrow> quota_db \<Rightarrow> quota_db" where
  "give_counter u db =
     (case map_of (rate_counter db) (u_key u) of
        None \<Rightarrow> db
      | Some c \<Rightarrow> db\<lparr>rate_counter := AList.update (u_key u) (max (c - u_n u) 0) (rate_counter db)\<rparr>)"

definition GiveBackCounters :: "counter_use list \<Rightarrow> quota_db \<Rightarrow> quota_db" where
  "GiveBackCounters us db = foldl (\<lambda>d u. give_counter u d) db us"

text \<open>\<^verbatim>\<open>Counters\<close> reads a map from keys to counts; the keys asked for are its domain.\<close>

definition Counters_read :: "counter_key list \<Rightarrow> quota_db \<Rightarrow> (counter_key \<times> int) list" where
  "Counters_read ks db = map (\<lambda>k. (k, calls_of db k)) ks"

definition MaxCounter :: "ident \<Rightarrow> time \<Rightarrow> quota_db \<Rightarrow> int" where
  "MaxCounter lid start db =
     (case map snd (filter (\<lambda>(k, _). k_limit k = lid \<and> k_start k = start) (rate_counter db)) of
        [] \<Rightarrow> 0
      | c # cs \<Rightarrow> foldl max c cs)"

definition PurgeCounters :: "time \<Rightarrow> quota_db \<Rightarrow> nat \<times> quota_db" where
  "PurgeCounters t db =
     (length (filter (\<lambda>(k, _). k_start k < t) (rate_counter db)),
      db\<lparr>rate_counter := filter (\<lambda>(k, _). \<not> k_start k < t) (rate_counter db)\<rparr>)"

subsection \<open>What a batch of uses adds to a key\<close>

definition uses_on :: "counter_key \<Rightarrow> counter_use list \<Rightarrow> int" where
  "uses_on k us = sum_list (map u_n (filter (\<lambda>u. u_key u = k) us))"

lemma uses_on_simps [simp]:
  "uses_on k [] = 0"
  "uses_on k (u # us) = (if u_key u = k then u_n u else 0) + uses_on k us"
  by (simp_all add: uses_on_def)

lemma uses_on_append [simp]: "uses_on k (us @ vs) = uses_on k us + uses_on k vs"
  by (simp add: uses_on_def)

lemma uses_on_nonneg: "(\<forall>u \<in> set us. 0 \<le> u_n u) \<Longrightarrow> 0 \<le> uses_on k us"
  by (induction us) auto

text \<open>The table is well formed when its keys are unique and no count is negative.\<close>

definition counters_ok :: "quota_db \<Rightarrow> bool" where
  "counters_ok db \<longleftrightarrow>
     distinct (map fst (rate_counter db)) \<and> (\<forall>(k, c) \<in> set (rate_counter db). 0 \<le> c)"

lemma counters_ok_calls: "counters_ok db \<Longrightarrow> 0 \<le> calls_of db k"
  by (auto simp: counters_ok_def calls_of_def split: option.splits dest: map_of_SomeD)

lemma set_alist_update:
  "distinct (map fst al) \<Longrightarrow> set (AList.update k v al) = {(k', v') \<in> set al. k' \<noteq> k} \<union> {(k, v)}"
  by (induction al) (auto simp: rev_image_eqI)

lemma counters_ok_update:
  "counters_ok db \<Longrightarrow> 0 \<le> c \<Longrightarrow> counters_ok (db\<lparr>rate_counter := AList.update k c (rate_counter db)\<rparr>)"
  by (auto simp: counters_ok_def set_alist_update distinct_update)

lemma calls_of_update [table_simps]:
  "calls_of (db\<lparr>rate_counter := AList.update k c (rate_counter db)\<rparr>) k' = (if k' = k then c else calls_of db k')"
  by (simp add: calls_of_def update_conv')

subsection \<open>One upsert and one give-back\<close>

lemma take_counter_counted:
  assumes "take_counter u db = Inr (True, db')"
  shows "calls_of db' k = calls_of db k + (if u_key u = k then u_n u else 0)"
    and "calls_of db' (u_key u) \<le> u_max u"
  using assms
  by (auto simp: take_counter_def calls_of_update calls_of_def update_conv' split: if_splits option.splits)

lemma take_counter_refused:
  assumes "take_counter u db = Inr (False, db')" and "counters_ok db"
  shows "db' = db" and "u_max u < calls_of db (u_key u) + u_n u"
proof -
  show "db' = db" using assms by (auto simp: take_counter_def split: if_splits option.splits)
  have "0 \<le> calls_of db (u_key u)" using assms(2) by (rule counters_ok_calls)
  then show "u_max u < calls_of db (u_key u) + u_n u"
    using assms(1) by (auto simp: take_counter_def calls_of_def split: if_splits option.splits)
qed

lemma take_counter_ok [keeps_inv]:
  "take_counter u db = Inr (b, db') \<Longrightarrow> counters_ok db \<Longrightarrow> 0 \<le> u_n u \<Longrightarrow> counters_ok db'"
  using counters_ok_calls [of db "u_key u"]
  by (auto simp: take_counter_def calls_of_def intro!: counters_ok_update split: if_splits option.splits)

lemma give_counter_calls [table_simps]:
  assumes "counters_ok db" and "0 \<le> u_n u"
  shows "calls_of (give_counter u db) k = (if u_key u = k then max (calls_of db k - u_n u) 0 else calls_of db k)"
  using assms counters_ok_calls [of db k]
  by (auto simp: give_counter_def calls_of_def update_conv' split: option.splits)

lemma give_counter_ok [keeps_inv]: "counters_ok db \<Longrightarrow> counters_ok (give_counter u db)"
  by (auto simp: give_counter_def intro!: counters_ok_update split: option.splits)

subsection \<open>The whole transaction\<close>

lemma take_loop_counted:
  "take_loop i us db = Inr (- 1, db') \<Longrightarrow> calls_of db' k = calls_of db k + uses_on k us"
proof (induction us arbitrary: i db)
  case Nil
  then show ?case by simp
next
  case (Cons u us)
  then show ?case
    by (auto split: sum.splits prod.splits bool.splits dest: take_counter_counted(1) [where k = k])
qed

lemma take_loop_capped:
  assumes "take_loop i us db = Inr (- 1, db')" and "\<forall>u \<in> set us. u_max u = mx (u_key u)"
    and "\<forall>k. calls_of db k \<le> mx k"
  shows "calls_of db' k \<le> mx k"
  using assms
proof (induction us arbitrary: i db)
  case Nil
  then show ?case by simp
next
  case (Cons u us)
  from Cons.prems(1) obtain db1 where t: "take_counter u db = Inr (True, db1)"
    and r: "take_loop (Suc i) us db1 = Inr (- 1, db')"
    by (auto split: sum.splits prod.splits bool.splits)
  have "calls_of db1 k \<le> mx k" for k
    using take_counter_counted [OF t] Cons.prems(2,3) by (cases "u_key u = k") (auto simp: add.commute)
  then show ?case using Cons.IH [OF r] Cons.prems(2) by simp
qed

lemma take_loop_ok [keeps_inv]:
  "take_loop i us db = Inr (j, db') \<Longrightarrow> counters_ok db \<Longrightarrow> \<forall>u \<in> set us. 0 \<le> u_n u \<Longrightarrow> counters_ok db'"
proof (induction us arbitrary: i db)
  case Nil
  then show ?case by simp
next
  case (Cons u us)
  then show ?case
    by (auto split: sum.splits prod.splits bool.splits dest: take_counter_ok)
qed

lemma take_loop_refused:
  assumes "take_loop i us db = Inr (j, db')" and "j \<noteq> - 1" and "counters_ok db" and "\<forall>u \<in> set us. 0 \<le> u_n u"
  shows "\<exists>n < length us. j = int (i + n) \<and>
           u_max (us ! n) < calls_of db (u_key (us ! n)) + uses_on (u_key (us ! n)) (take (Suc n) us)"
  using assms
proof (induction us arbitrary: i db)
  case Nil
  then show ?case by simp
next
  case (Cons u us)
  show ?case
  proof (cases "\<exists>db1. take_counter u db = Inr (True, db1)")
    case True
    then obtain db1 where t: "take_counter u db = Inr (True, db1)" by blast
    have "take_loop (Suc i) us db1 = Inr (j, db')" and "counters_ok db1"
      using Cons.prems t by (auto dest: take_counter_ok)
    then obtain n where n: "n < length us" "j = int (Suc i + n)"
      "u_max (us ! n) < calls_of db1 (u_key (us ! n)) + uses_on (u_key (us ! n)) (take (Suc n) us)"
      using Cons.IH [of "Suc i" db1] Cons.prems by auto
    then show ?thesis
      using take_counter_counted(1) [OF t, of "u_key (us ! n)"]
      by (intro exI [of _ "Suc n"]) (auto simp: add.assoc)
  next
    case False
    then have t: "take_counter u db = Inr (False, db')" and "j = int i"
      using Cons.prems(1) by (auto split: sum.splits prod.splits bool.splits)
    then show ?thesis
      using take_counter_refused(2) [OF t Cons.prems(3)] by (intro exI [of _ 0]) simp
  qed
qed

lemma uses_on_other: "k \<notin> u_key ` set us \<Longrightarrow> uses_on k us = 0"
  by (induction us) auto

lemma uses_on_distinct:
  "distinct (map u_key us) \<Longrightarrow> n < length us \<Longrightarrow> uses_on (u_key (us ! n)) (take (Suc n) us) = u_n (us ! n)"
proof (induction us arbitrary: n)
  case Nil
  then show ?case by simp
next
  case (Cons u us)
  then show ?case
    by (cases n) (auto simp: nth_Cons' dest: nth_mem)
qed

lemma take_loop_fits:
  assumes "take_loop i us db = Inr (- 1, db')" and "distinct (map u_key us)" and "u \<in> set us"
  shows "calls_of db (u_key u) + u_n u \<le> u_max u"
  using assms
proof (induction us arbitrary: i db)
  case Nil
  then show ?case by simp
next
  case (Cons v us)
  from Cons.prems(1) obtain db1 where t: "take_counter v db = Inr (True, db1)"
    and r: "take_loop (Suc i) us db1 = Inr (- 1, db')"
    by (auto split: sum.splits prod.splits bool.splits)
  show ?case
  proof (cases "u = v")
    case True
    then show ?thesis using take_counter_counted(1) [OF t, of "u_key v"] take_counter_counted(2) [OF t] by simp
  next
    case False
    then have "u \<in> set us" and "u_key v \<noteq> u_key u" using Cons.prems(2,3) by auto
    then show ?thesis using Cons.IH [OF r] Cons.prems(2) take_counter_counted(1) [OF t, of "u_key u"] by simp
  qed
qed

text \<open>On distinct keys: a batch is refused exactly when one of its uses would overfill its counter.\<close>

lemma TakeCounters_refused_iff:
  assumes "TakeCounters us db = Inr (i, db')" and "distinct (map u_key us)" and "counters_ok db"
    and "\<forall>u \<in> set us. 0 \<le> u_n u"
  shows "i \<noteq> -1 \<longleftrightarrow> (\<exists>u \<in> set us. u_max u < calls_of db (u_key u) + u_n u)"
proof -
  obtain db1 where l: "take_loop 0 us db = Inr (i, db1)"
    using assms(1) by (auto simp: TakeCounters_def split: sum.splits prod.splits if_splits)
  show ?thesis
  proof
    assume "i \<noteq> - 1"
    from take_loop_refused [OF l this assms(3,4)] obtain n where "n < length us"
      "u_max (us ! n) < calls_of db (u_key (us ! n)) + uses_on (u_key (us ! n)) (take (Suc n) us)" by blast
    then show "\<exists>u \<in> set us. u_max u < calls_of db (u_key u) + u_n u"
      using uses_on_distinct [OF assms(2)] by (metis nth_mem)
  next
    assume "\<exists>u \<in> set us. u_max u < calls_of db (u_key u) + u_n u"
    then show "i \<noteq> - 1" using take_loop_fits [of 0 us db db1] assms(2) l by (metis not_le)
  qed
qed

lemma take_loop_total:
  assumes "distinct (map u_key us)" and "counters_ok db"
    and "\<forall>u \<in> set us. 0 \<le> u_n u \<and> calls_of db (u_key u) + u_n u \<le> max_int32
                    \<and> list_ex (\<lambda>l. l_id l = k_limit (u_key u)) (rate_limit db)"
  shows "\<exists>p. take_loop i us db = Inr p"
  using assms
proof (induction us arbitrary: i db)
  case Nil
  then show ?case by simp
next
  case (Cons u us)
  have "0 \<le> calls_of db (u_key u)" using Cons.prems(2) by (rule counters_ok_calls)
  then have "\<exists>b db1. take_counter u db = Inr (b, db1) \<and> rate_limit db1 = rate_limit db"
    using Cons.prems(3)
    by (cases "map_of (rate_counter db) (u_key u)") (auto simp: take_counter_def calls_of_def int_bounds)
  then obtain b db1 where t: "take_counter u db = Inr (b, db1)" and rl: "rate_limit db1 = rate_limit db" by blast
  show ?case
  proof (cases b)
    case True
    then have c: "calls_of db1 (u_key v) = calls_of db (u_key v)" if "v \<in> set us" for v
      using take_counter_counted(1) [of u db db1 "u_key v"] t that Cons.prems(1) by auto
    have "counters_ok db1" using take_counter_ok [OF t] Cons.prems by simp
    then show ?thesis using Cons.IH [of db1 "Suc i"] Cons.prems t True rl c by simp
  qed (simp add: t)
qed

lemma TakeCounters_total:
  assumes "distinct (map u_key us)" and "counters_ok db"
    and "\<forall>u \<in> set us. 0 \<le> u_n u \<and> calls_of db (u_key u) + u_n u \<le> max_int32
                    \<and> list_ex (\<lambda>l. l_id l = k_limit (u_key u)) (rate_limit db)"
  shows "\<exists>i db'. TakeCounters us db = Inr (i, db')"
  using take_loop_total [OF assms, of 0] by (auto simp: TakeCounters_def)

lemma take_loop_index: "take_loop i us db = Inr (j, db') \<Longrightarrow> j < 0 \<Longrightarrow> j = - 1"
  by (induction i us db rule: take_loop.induct) (auto split: sum.splits prod.splits bool.splits)

lemma TakeCounters_index: "TakeCounters us db = Inr (i, db') \<Longrightarrow> i < 0 \<Longrightarrow> i = - 1"
  by (auto simp: TakeCounters_def split: sum.splits prod.splits if_splits dest: take_loop_index)

lemma GiveBackCounters_calls:
  assumes "counters_ok db" and "\<forall>u \<in> set us. 0 \<le> u_n u"
  shows "calls_of (GiveBackCounters us db) k = max (calls_of db k - uses_on k us) 0
         \<and> counters_ok (GiveBackCounters us db)"
  using assms
proof (induction us arbitrary: db)
  case Nil
  then show ?case using counters_ok_calls [of db k] by (simp add: GiveBackCounters_def)
next
  case (Cons u us)
  have "GiveBackCounters (u # us) db = GiveBackCounters us (give_counter u db)"
    by (simp add: GiveBackCounters_def)
  moreover have "0 \<le> uses_on k us" using Cons.prems(2) by (simp add: uses_on_nonneg)
  ultimately show ?case
    using Cons.IH [of "give_counter u db"] Cons.prems by (auto simp: give_counter_ok give_counter_calls)
qed

subsection \<open>The ledger contract\<close>

text \<open>
  What the callers of the counters rely on: a batch is counted whole or not at all, never above a
  maximum, and can be given back.
\<close>

locale quota_ledger =
  fixes calls :: "'s \<Rightarrow> counter_key \<Rightarrow> int"
    and tk :: "counter_use list \<Rightarrow> 's \<Rightarrow> db_err + (int \<times> 's)"
    and gv :: "counter_use list \<Rightarrow> 's \<Rightarrow> 's"
    and ok :: "'s \<Rightarrow> bool"
  assumes counted: "tk us s = Inr (- 1, s') \<Longrightarrow> calls s' k = calls s k + uses_on k us"
    and refused: "tk us s = Inr (i, s') \<Longrightarrow> i \<noteq> - 1 \<Longrightarrow> s' = s"
    and capped: "tk us s = Inr (- 1, s') \<Longrightarrow> \<forall>u \<in> set us. u_max u = mx (u_key u) \<Longrightarrow>
                 \<forall>k. calls s k \<le> mx k \<Longrightarrow> calls s' k \<le> mx k"
    and given: "ok s \<Longrightarrow> \<forall>u \<in> set us. 0 \<le> u_n u \<Longrightarrow> calls (gv us s) k = max (calls s k - uses_on k us) 0"
    and nonneg: "ok s \<Longrightarrow> 0 \<le> calls s k"
    and ok_take: "ok s \<Longrightarrow> \<forall>u \<in> set us. 0 \<le> u_n u \<Longrightarrow> tk us s = Inr (i, s') \<Longrightarrow> ok s'"
    and ok_give: "ok s \<Longrightarrow> \<forall>u \<in> set us. 0 \<le> u_n u \<Longrightarrow> ok (gv us s)"
begin

lemma take_give_back:
  assumes "ok s" and "\<forall>u \<in> set us. 0 \<le> u_n u" and "tk us s = Inr (- 1, s')"
  shows "calls (gv us s') k = calls s k"
proof -
  have "ok s'" using assms by (blast intro: ok_take)
  then show ?thesis using given [of s' us k] counted [OF assms(3), of k] nonneg [OF assms(1), of k] assms(2)
    by simp
qed

fun run :: "(counter_use list + counter_use list) list \<Rightarrow> 's \<Rightarrow> 's" where
  "run [] s = s"
| "run (Inl us # ops) s = run ops (case tk us s of Inl e \<Rightarrow> s | Inr (i, s') \<Rightarrow> s')"
| "run (Inr us # ops) s = run ops (gv us s)"

text \<open>No interleaving of takes and give-backs takes a counter past its rule's maximum.\<close>

lemma run_capped:
  assumes "ok s" and "\<forall>k. calls s k \<le> mx k" and "\<forall>k. 0 \<le> mx k"
    and "\<forall>op \<in> set ops. \<forall>u \<in> set (case op of Inl us \<Rightarrow> us | Inr us \<Rightarrow> us). 0 \<le> u_n u \<and> u_max u = mx (u_key u)"
  shows "calls (run ops s) k \<le> mx k \<and> ok (run ops s)"
  using assms
proof (induction ops s arbitrary: k rule: run.induct)
  case (1 s)
  then show ?case by simp
next
  case (2 us ops s)
  let ?s' = "case tk us s of Inl e \<Rightarrow> s | Inr (i, s') \<Rightarrow> s'"
  have u: "\<forall>u \<in> set us. 0 \<le> u_n u" "\<forall>u \<in> set us. u_max u = mx (u_key u)" using "2.prems"(4) by auto
  have "ok ?s'" using "2.prems"(1) u by (auto split: sum.splits intro: ok_take)
  moreover have "calls ?s' k \<le> mx k" for k
  proof (cases "tk us s")
    case (Inr p)
    obtain i s' where p: "p = (i, s')" by (cases p)
    show ?thesis
    proof (cases "i = - 1")
      case True
      then have "calls s' k \<le> mx k" using capped [of us s s' mx k] Inr p u "2.prems"(2) by simp
      then show ?thesis using Inr p by simp
    next
      case False
      then have "s' = s" using refused [of us s i s'] Inr p by simp
      then show ?thesis using Inr p "2.prems"(2) by simp
    qed
  qed (use "2.prems"(2) in auto)
  ultimately show ?case using "2.IH" [of k] "2.prems" by simp
next
  case (3 us ops s)
  have u: "\<forall>u \<in> set us. 0 \<le> u_n u" using "3.prems"(4) by auto
  have "calls (gv us s) k \<le> mx k" for k
    using given [OF "3.prems"(1) u, of k] uses_on_nonneg [OF u, of k]
      spec [OF "3.prems"(2), of k] spec [OF "3.prems"(3), of k] by linarith
  moreover have "ok (gv us s)" using "3.prems"(1) u by (rule ok_give)
  ultimately show ?case using "3.IH" [of k] "3.prems" by simp
qed

end

interpretation counters: quota_ledger calls_of TakeCounters GiveBackCounters counters_ok
proof
  fix us :: "counter_use list" and s s' :: quota_db and k i mx
  show "TakeCounters us s = Inr (- 1, s') \<Longrightarrow> calls_of s' k = calls_of s k + uses_on k us"
    by (auto simp: TakeCounters_def split: sum.splits prod.splits if_splits intro: take_loop_counted)
  show "TakeCounters us s = Inr (i, s') \<Longrightarrow> i \<noteq> - 1 \<Longrightarrow> s' = s"
    by (auto simp: TakeCounters_def split: sum.splits prod.splits if_splits)
  show "TakeCounters us s = Inr (- 1, s') \<Longrightarrow> \<forall>u \<in> set us. u_max u = mx (u_key u) \<Longrightarrow>
        \<forall>k. calls_of s k \<le> mx k \<Longrightarrow> calls_of s' k \<le> mx k"
    by (auto simp: TakeCounters_def split: sum.splits prod.splits if_splits intro: take_loop_capped)
  show "counters_ok s \<Longrightarrow> \<forall>u \<in> set us. 0 \<le> u_n u \<Longrightarrow> TakeCounters us s = Inr (i, s') \<Longrightarrow> counters_ok s'"
    by (auto simp: TakeCounters_def split: sum.splits prod.splits if_splits intro: take_loop_ok)
qed (auto simp: GiveBackCounters_calls counters_ok_calls)

end
