(* ===== verification/Registry.thy ===== *)
theory Registry
  imports Counters Json
begin

section \<open>The Postgres registry: rows, tables, apps, proxies and sessions\<close>

text \<open>
  \<^verbatim>\<open>internal/store/store.go\<close> and the tables of \<^verbatim>\<open>migrations.go\<close>. The registry is a record of
  tables, a table the list of its rows in insertion order, an SQL statement a function on the record.
  The clock Postgres reads with \<^verbatim>\<open>now()\<close> is an argument, as is the id that
  \<^verbatim>\<open>gen_random_uuid()\<close> makes. \<open>is_uuid\<close> stands for the syntax Postgres takes for a uuid: comparing
  a uuid column with any other text is an error. \<open>db_up\<close> tells whether the database answers at all;
  the callers of the store look at it where the code handles a store failure.
\<close>

type_synonym bytes = string

subsection \<open>Rows\<close>

record app_row =
  app_id :: ident
  app_api_id :: int
  app_hash_enc :: bytes
  app_label :: "string option"
  app_created :: time

record proxy_row =
  px_id :: ident
  px_type :: string
  px_host :: string
  px_port :: int
  px_username :: "string option"
  px_secret_enc :: bytes
  px_label :: "string option"
  px_created :: time

record session_row =
  s_id :: ident
  s_kind :: string
  s_app :: ident
  s_proxy :: "ident option"
  s_phone :: "string option"
  s_bot_token_enc :: bytes
  s_label :: "string option"
  s_status :: string
  s_db_dir :: "string option"
  s_db_key_enc :: "bytes option"
  s_worker :: "ident option"
  s_created :: time
  s_updated :: time
  s_premium :: "bool option"
  s_frozen_at :: "time option"
  s_deletion_at :: "time option"
  s_appeal :: "string option"

record worker_row =
  w_id :: ident
  w_addr :: string
  w_seen :: time

record token_row =
  t_id :: ident
  t_name :: "string option"
  t_hash :: bytes
  t_enabled :: bool
  t_all :: bool
  t_created :: time

record sub_row =
  sub_id :: ident
  sub_session :: ident
  sub_token :: "ident option"
  sub_url :: string
  sub_secret_enc :: bytes
  sub_filters :: raw
  sub_created :: time
  sub_dropped :: int
  sub_last_delivered :: "time option"
  sub_last_error :: "(string \<times> time) option"

record delivery_row =
  d_id :: ident
  d_session :: ident
  d_sub :: ident
  d_payload :: json
  d_status :: string
  d_attempts :: int
  d_next_try :: time
  d_created :: time

record sent_row =
  m_session :: ident
  m_chat :: int
  m_temp :: int
  m_status :: string
  m_final :: "int option"
  m_error :: "json option"
  m_created :: time

record cooldown_row =
  cd_session :: ident
  cd_scope :: string
  cd_ends :: time
  cd_reason :: string

record registry =
  apps :: "app_row list"
  proxies :: "proxy_row list"
  sessions :: "session_row list"
  workers :: "worker_row list"
  tokens :: "token_row list"
  token_apps :: "(ident \<times> ident) list"
  token_sessions :: "(ident \<times> ident) list"
  subs :: "sub_row list"
  deliveries :: "delivery_row list"
  sent :: "sent_row list"
  cooldowns :: "cooldown_row list"
  quota :: quota_db
  is_uuid :: "string \<Rightarrow> bool"
  db_up :: bool

definition nullStr :: "string \<Rightarrow> string option" where
  "nullStr s = (if s = '''' then None else Some s)"

definition coalesce :: "string option \<Rightarrow> string" where
  "coalesce x = (case x of None \<Rightarrow> '''' | Some s \<Rightarrow> s)"

text \<open>A statement with a uuid parameter fails when the text is none.\<close>

definition uuid_arg :: "registry \<Rightarrow> ident \<Rightarrow> (db_err + 'a) \<Rightarrow> db_err + 'a" where
  "uuid_arg reg i x = (if is_uuid reg i then x else Inl BadUuid)"

text \<open>\<^verbatim>\<open>UPDATE session SET \<dots> WHERE id=$1\<close>: the rows it changes and how many there are.\<close>

definition session_by_id :: "ident \<Rightarrow> registry \<Rightarrow> session_row option" where
  "session_by_id sid reg = find (\<lambda>s. s_id s = sid) (sessions reg)"

definition update_session :: "ident \<Rightarrow> (session_row \<Rightarrow> session_row) \<Rightarrow> registry \<Rightarrow> registry" where
  "update_session sid f reg =
     reg\<lparr>sessions := map (\<lambda>s. if s_id s = sid then f s else s) (sessions reg)\<rparr>"

definition session_exists :: "ident \<Rightarrow> registry \<Rightarrow> bool" where
  "session_exists sid reg = list_ex (\<lambda>s. s_id s = sid) (sessions reg)"

subsection \<open>Apps and proxies\<close>

definition CreateApp :: "ident \<Rightarrow> time \<Rightarrow> int \<Rightarrow> bytes \<Rightarrow> string \<Rightarrow> registry \<Rightarrow> ident \<times> registry" where
  "CreateApp newid now apiID enc label reg =
     (newid, reg\<lparr>apps := apps reg @ [\<lparr>app_id = newid, app_api_id = apiID, app_hash_enc = enc,
                                      app_label = nullStr label, app_created = now\<rparr>]\<rparr>)"

definition GetApp :: "ident \<Rightarrow> registry \<Rightarrow> db_err + app_row" where
  "GetApp i reg =
     uuid_arg reg i (case find (\<lambda>a. app_id a = i) (apps reg) of None \<Rightarrow> Inl NoRows | Some a \<Rightarrow> Inr a)"

definition CreateProxy :: "ident \<Rightarrow> time \<Rightarrow> proxy_row \<Rightarrow> registry \<Rightarrow> db_err + (ident \<times> registry)" where
  "CreateProxy newid now p reg =
     (if px_type p \<notin> {''socks5'', ''http'', ''mtproto''} then Inl CheckViolation
      else Inr (newid, reg\<lparr>proxies := proxies reg @ [p\<lparr>px_id := newid, px_created := now\<rparr>]\<rparr>))"

definition GetProxy :: "ident \<Rightarrow> registry \<Rightarrow> db_err + proxy_row" where
  "GetProxy i reg =
     uuid_arg reg i (case find (\<lambda>p. px_id p = i) (proxies reg) of None \<Rightarrow> Inl NoRows | Some p \<Rightarrow> Inr p)"

text \<open>The listings leave the secrets out; what they show of an app and of a proxy.\<close>

definition ListApps :: "registry \<Rightarrow> (ident \<times> int \<times> string \<times> time) list" where
  "ListApps reg = map (\<lambda>a. (app_id a, app_api_id a, coalesce (app_label a), app_created a))
                      (sort_key app_created (apps reg))"

definition ListProxies :: "registry \<Rightarrow> (ident \<times> string \<times> string \<times> int \<times> string \<times> string \<times> time) list" where
  "ListProxies reg = map (\<lambda>p. (px_id p, px_type p, px_host p, px_port p, coalesce (px_username p),
                               coalesce (px_label p), px_created p))
                         (sort_key px_created (proxies reg))"

definition UpdateAppLabel :: "ident \<Rightarrow> string \<Rightarrow> registry \<Rightarrow> db_err + (bool \<times> registry)" where
  "UpdateAppLabel i label reg =
     uuid_arg reg i (Inr (list_ex (\<lambda>a. app_id a = i) (apps reg),
       reg\<lparr>apps := map (\<lambda>a. if app_id a = i then a\<lparr>app_label := nullStr label\<rparr> else a) (apps reg)\<rparr>))"

definition UpdateProxyLabel :: "ident \<Rightarrow> string \<Rightarrow> registry \<Rightarrow> db_err + (bool \<times> registry)" where
  "UpdateProxyLabel i label reg =
     uuid_arg reg i (Inr (list_ex (\<lambda>p. px_id p = i) (proxies reg),
       reg\<lparr>proxies := map (\<lambda>p. if px_id p = i then p\<lparr>px_label := nullStr label\<rparr> else p) (proxies reg)\<rparr>))"

subsection \<open>Sessions\<close>

record new_session =
  n_kind :: string
  n_app :: ident
  n_proxy :: string
  n_phone :: string
  n_bot_token_enc :: bytes
  n_db_key_enc :: bytes
  n_label :: string

definition CreateSession :: "ident \<Rightarrow> time \<Rightarrow> new_session \<Rightarrow> registry \<Rightarrow> db_err + (ident \<times> registry)" where
  "CreateSession newid now n reg =
     (if n_kind n \<notin> {''user'', ''bot''} then Inl CheckViolation
      else if \<not> is_uuid reg (n_app n) \<or> (n_proxy n \<noteq> '''' \<and> \<not> is_uuid reg (n_proxy n)) then Inl BadUuid
      else if \<not> list_ex (\<lambda>a. app_id a = n_app n) (apps reg)
              \<or> (n_proxy n \<noteq> '''' \<and> \<not> list_ex (\<lambda>p. px_id p = n_proxy n) (proxies reg)) then Inl ForeignKey
      else Inr (newid, reg\<lparr>sessions := sessions reg @
             [\<lparr>s_id = newid, s_kind = n_kind n, s_app = n_app n, s_proxy = nullStr (n_proxy n),
               s_phone = nullStr (n_phone n), s_bot_token_enc = n_bot_token_enc n,
               s_label = nullStr (n_label n), s_status = ''connecting'', s_db_dir = None,
               s_db_key_enc = Some (n_db_key_enc n), s_worker = None, s_created = now, s_updated = now,
               s_premium = None, s_frozen_at = None, s_deletion_at = None, s_appeal = None\<rparr>]\<rparr>))"

definition SetSessionDBDir :: "time \<Rightarrow> ident \<Rightarrow> string \<Rightarrow> registry \<Rightarrow> db_err + registry" where
  "SetSessionDBDir now sid dir reg =
     (if list_ex (\<lambda>s. s_id s \<noteq> sid \<and> s_db_dir s = Some dir) (sessions reg) then Inl UniqueViolation
      else Inr (update_session sid (\<lambda>s. s\<lparr>s_db_dir := Some dir, s_updated := now\<rparr>) reg))"

definition UpdateSessionStatus :: "time \<Rightarrow> ident \<Rightarrow> string \<Rightarrow> registry \<Rightarrow> registry" where
  "UpdateSessionStatus now sid st reg =
     update_session sid (\<lambda>s. s\<lparr>s_status := st, s_updated := now\<rparr>) reg"

definition waiting_states :: "string list" where
  "waiting_states = [''connecting'', ''awaiting_code'', ''awaiting_password'']"

text \<open>The newest unfinished login of a phone: \<^verbatim>\<open>ORDER BY created_at DESC LIMIT 1\<close>.\<close>

definition PendingUserLogin :: "string \<Rightarrow> registry \<Rightarrow> ident option" where
  "PendingUserLogin phone reg =
     (case sort_key (\<lambda>s. - s_created s)
             (filter (\<lambda>s. s_kind s = ''user'' \<and> s_phone s = Some phone \<and> s_status s \<in> set waiting_states)
                (sessions reg)) of
        [] \<Rightarrow> None
      | s # _ \<Rightarrow> Some (s_id s))"

definition worker_alive_at :: "time \<Rightarrow> ident option \<Rightarrow> registry \<Rightarrow> bool" where
  "worker_alive_at cutoff w reg =
     list_ex (\<lambda>r. Some (w_id r) = w \<and> cutoff \<le> w_seen r) (workers reg)"

definition stale_login :: "time \<Rightarrow> time \<Rightarrow> duration \<Rightarrow> registry \<Rightarrow> session_row \<Rightarrow> bool" where
  "stale_login now aliveCutoff grace reg s \<longleftrightarrow>
     s_status s \<in> set waiting_states \<and> s_updated s < now - grace
     \<and> \<not> worker_alive_at aliveCutoff (s_worker s) reg"

definition ExpireStaleLogins :: "time \<Rightarrow> time \<Rightarrow> duration \<Rightarrow> registry \<Rightarrow> nat \<times> registry" where
  "ExpireStaleLogins now aliveCutoff grace reg =
     (length (filter (stale_login now aliveCutoff grace reg) (sessions reg)),
      reg\<lparr>sessions := map (\<lambda>s. if stale_login now aliveCutoff grace reg s
                               then s\<lparr>s_status := ''expired'', s_updated := now\<rparr> else s) (sessions reg)\<rparr>)"

text \<open>Only the fields given are written; with none given nothing is asked of the database at all.\<close>

definition UpdateSessionMeta ::
  "time \<Rightarrow> ident \<Rightarrow> string option \<Rightarrow> string option \<Rightarrow> registry \<Rightarrow> db_err + (bool \<times> registry)" where
  "UpdateSessionMeta now sid label proxyID reg =
     (if label = None \<and> proxyID = None then Inr (True, reg)
      else if \<not> is_uuid reg sid \<or> (case proxyID of None \<Rightarrow> False | Some p \<Rightarrow> p \<noteq> '''' \<and> \<not> is_uuid reg p)
      then Inl BadUuid
      else if session_exists sid reg
              \<and> (case proxyID of None \<Rightarrow> False
                 | Some p \<Rightarrow> p \<noteq> '''' \<and> \<not> list_ex (\<lambda>x. px_id x = p) (proxies reg)) then Inl ForeignKey
      else Inr (session_exists sid reg,
                update_session sid
                  (\<lambda>s. s\<lparr>s_label := (case label of None \<Rightarrow> s_label s | Some l \<Rightarrow> nullStr l),
                         s_proxy := (case proxyID of None \<Rightarrow> s_proxy s | Some p \<Rightarrow> nullStr p),
                         s_updated := now\<rparr>) reg))"

text \<open>
  Removing a session removes, by ON DELETE CASCADE, its subscriptions and their deliveries, its own
  deliveries, sends and cooldowns, its grants, and its rate limits with their counters.
\<close>

definition delete_rules :: "(limit \<Rightarrow> bool) \<Rightarrow> quota_db \<Rightarrow> quota_db" where
  "delete_rules P db =
     db\<lparr>rate_limit := filter (\<lambda>l. \<not> P l) (rate_limit db),
        rate_counter := filter (\<lambda>(k, _). \<not> list_ex (\<lambda>l. P l \<and> l_id l = k_limit k) (rate_limit db))
                          (rate_counter db)\<rparr>"

definition delete_subs :: "(sub_row \<Rightarrow> bool) \<Rightarrow> registry \<Rightarrow> registry" where
  "delete_subs P reg =
     reg\<lparr>subs := filter (\<lambda>x. \<not> P x) (subs reg),
         deliveries := filter (\<lambda>d. \<not> list_ex (\<lambda>x. P x \<and> sub_id x = d_sub d) (subs reg)) (deliveries reg)\<rparr>"

definition DeleteSession :: "ident \<Rightarrow> registry \<Rightarrow> db_err + (string option \<times> registry)" where
  "DeleteSession sid reg =
     uuid_arg reg sid
       (case session_by_id sid reg of
          None \<Rightarrow> Inr (None, reg)
        | Some row \<Rightarrow>
            (let r1 = delete_subs (\<lambda>x. sub_session x = sid) reg
             in Inr (Some (coalesce (s_db_dir row)),
                     r1\<lparr>sessions := filter (\<lambda>s. s_id s \<noteq> sid) (sessions r1),
                        deliveries := filter (\<lambda>d. d_session d \<noteq> sid) (deliveries r1),
                        sent := filter (\<lambda>m. m_session m \<noteq> sid) (sent r1),
                        cooldowns := filter (\<lambda>c. cd_session c \<noteq> sid) (cooldowns r1),
                        token_sessions := filter (\<lambda>(_, s). s \<noteq> sid) (token_sessions r1),
                        quota := delete_rules (\<lambda>l. l_session l = Some sid) (quota r1)\<rparr>)))"

subsection \<open>Lemmas\<close>

lemma update_session_ids [simp]:
  "(\<And>s. s_id (f s) = s_id s) \<Longrightarrow> map s_id (sessions (update_session sid f reg)) = map s_id (sessions reg)"
  by (simp add: update_session_def)

lemma update_session_frame [simp]:
  "workers (update_session sid f reg) = workers reg"
  "cooldowns (update_session sid f reg) = cooldowns reg"
  "quota (update_session sid f reg) = quota reg"
  "tokens (update_session sid f reg) = tokens reg"
  "is_uuid (update_session sid f reg) = is_uuid reg"
  "db_up (update_session sid f reg) = db_up reg"
  by (simp_all add: update_session_def)

lemma find_map_update:
  assumes "\<And>x. key (f x) = key x"
  shows "find (\<lambda>x. key x = k) (map (\<lambda>x. if key x = i then f x else x) xs)
         = map_option (\<lambda>x. if key x = i then f x else x) (find (\<lambda>x. key x = k) xs)"
  using assms by (induction xs) auto

lemma session_by_id_update [table_simps]:
  "(\<And>s. s_id (f s) = s_id s) \<Longrightarrow>
   session_by_id k (update_session sid f reg) = (if k = sid then map_option f else id) (session_by_id k reg)"
proof -
  assume f: "\<And>s. s_id (f s) = s_id s"
  have "find (\<lambda>s. s_id s = k) xs = Some s \<Longrightarrow> s_id s = k" for xs s
    by (auto simp: find_Some_iff)
  then show ?thesis
    by (cases "find (\<lambda>s. s_id s = k) (sessions reg)")
       (auto simp: session_by_id_def update_session_def find_map_update [of s_id f, OF f])
qed

lemma session_by_id_SomeD: "session_by_id sid reg = Some s \<Longrightarrow> s \<in> set (sessions reg) \<and> s_id s = sid"
  by (auto simp: session_by_id_def find_Some_iff)

lemma session_exists_iff: "session_exists sid reg \<longleftrightarrow> session_by_id sid reg \<noteq> None"
  by (auto simp: session_exists_def session_by_id_def find_None_iff list_ex_iff)

subsection \<open>A registry to evaluate on\<close>

definition empty_registry :: registry where
  "empty_registry = \<lparr>apps = [], proxies = [], sessions = [], workers = [], tokens = [], token_apps = [],
     token_sessions = [], subs = [], deliveries = [], sent = [], cooldowns = [],
     quota = \<lparr>rate_limit = [], rate_counter = []\<rparr>, is_uuid = (\<lambda>_. True), db_up = True\<rparr>"

definition sample_session :: "ident \<Rightarrow> string \<Rightarrow> string \<Rightarrow> ident option \<Rightarrow> session_row" where
  "sample_session sid kind st w =
     \<lparr>s_id = sid, s_kind = kind, s_app = ''a1'', s_proxy = None, s_phone = None, s_bot_token_enc = '''',
      s_label = None, s_status = st, s_db_dir = Some ''/data'', s_db_key_enc = Some ''k'', s_worker = w,
      s_created = 0, s_updated = 0, s_premium = None, s_frozen_at = None, s_deletion_at = None,
      s_appeal = None\<rparr>"

end
