(* ===== verification/Accounts.thy ===== *)
theory Accounts
  imports Registry
begin

section \<open>What the registry keeps about an account: cooldowns and flags\<close>

text \<open>
  The last part of \<^verbatim>\<open>internal/store/store.go\<close>: cooldowns (table \<open>cooldown\<close>, unique per session and
  scope), the Premium flag and the freeze of an account.
\<close>

definition SpamLimitScope :: string where "SpamLimitScope = ''spam_limit''"

record cooldown =
  c_scope :: string
  c_until :: time
  c_reason :: string

record limits =
  lm_premium :: "bool option"
  lm_frozen :: bool
  lm_since :: "time option"
  lm_deletion :: "time option"
  lm_appeal :: string
  lm_spam :: bool
  lm_cooldowns :: "cooldown list"

definition cooldown_of_row :: "cooldown_row \<Rightarrow> cooldown" where
  "cooldown_of_row r = \<lparr>c_scope = cd_scope r, c_until = cd_ends r, c_reason = cd_reason r\<rparr>"

definition SessionLimits :: "time \<Rightarrow> ident \<Rightarrow> registry \<Rightarrow> db_err + limits option" where
  "SessionLimits now sid reg =
     uuid_arg reg sid
       (case session_by_id sid reg of
          None \<Rightarrow> Inr None
        | Some s \<Rightarrow>
            (let cds = map cooldown_of_row
                         (sort_key cd_ends (filter (\<lambda>c. cd_session c = sid \<and> now < cd_ends c) (cooldowns reg)))
             in Inr (Some \<lparr>lm_premium = s_premium s, lm_frozen = (s_frozen_at s \<noteq> None),
                           lm_since = s_frozen_at s, lm_deletion = s_deletion_at s,
                           lm_appeal = coalesce (s_appeal s),
                           lm_spam = list_ex (\<lambda>c. c_scope c = SpamLimitScope) cds,
                           lm_cooldowns = cds\<rparr>)))"

text \<open>The row of a scope, and the upsert that keeps the later end.\<close>

definition cooldown_row_of :: "ident \<Rightarrow> string \<Rightarrow> registry \<Rightarrow> cooldown_row option" where
  "cooldown_row_of sid scope reg = find (\<lambda>r. cd_session r = sid \<and> cd_scope r = scope) (cooldowns reg)"

definition SetCooldown :: "ident \<Rightarrow> cooldown \<Rightarrow> registry \<Rightarrow> db_err + registry" where
  "SetCooldown sid c reg =
     (if \<not> session_exists sid reg then Inl ForeignKey
      else (case cooldown_row_of sid (c_scope c) reg of
              None \<Rightarrow>
                Inr (reg\<lparr>cooldowns := cooldowns reg @
                       [\<lparr>cd_session = sid, cd_scope = c_scope c, cd_ends = c_until c, cd_reason = c_reason c\<rparr>]\<rparr>)
            | Some _ \<Rightarrow>
                Inr (reg\<lparr>cooldowns :=
                       map (\<lambda>r. if cd_session r = sid \<and> cd_scope r = c_scope c \<and> cd_ends r < c_until c
                                then r\<lparr>cd_ends := c_until c, cd_reason := c_reason c\<rparr> else r)
                         (cooldowns reg)\<rparr>)))"

definition PurgeCooldowns :: "time \<Rightarrow> registry \<Rightarrow> nat \<times> registry" where
  "PurgeCooldowns before reg =
     (length (filter (\<lambda>r. cd_ends r < before) (cooldowns reg)),
      reg\<lparr>cooldowns := filter (\<lambda>r. \<not> cd_ends r < before) (cooldowns reg)\<rparr>)"

definition DeleteCooldown :: "ident \<Rightarrow> string \<Rightarrow> registry \<Rightarrow> bool \<times> registry" where
  "DeleteCooldown sid scope reg =
     (list_ex (\<lambda>r. cd_session r = sid \<and> cd_scope r = scope) (cooldowns reg),
      reg\<lparr>cooldowns := filter (\<lambda>r. \<not> (cd_session r = sid \<and> cd_scope r = scope)) (cooldowns reg)\<rparr>)"

definition SetSessionPremium :: "ident \<Rightarrow> bool \<Rightarrow> registry \<Rightarrow> registry" where
  "SetSessionPremium sid premium = update_session sid (\<lambda>s. s\<lparr>s_premium := Some premium\<rparr>)"

definition SetSessionFrozen :: "time \<Rightarrow> ident \<Rightarrow> bool \<Rightarrow> registry \<Rightarrow> registry" where
  "SetSessionFrozen now sid frozen =
     update_session sid
       (\<lambda>s. if frozen
            then s\<lparr>s_frozen_at := Some (case s_frozen_at s of None \<Rightarrow> now | Some t \<Rightarrow> t)\<rparr>
            else s\<lparr>s_frozen_at := None, s_deletion_at := None, s_appeal := None\<rparr>)"

definition SetSessionFreeze :: "ident \<Rightarrow> time \<Rightarrow> time \<Rightarrow> string \<Rightarrow> registry \<Rightarrow> registry" where
  "SetSessionFreeze sid since deletion appeal =
     update_session sid
       (\<lambda>s. s\<lparr>s_frozen_at := Some since,
              s_deletion_at := (if deletion = zero_time then None else Some deletion),
              s_appeal := nullStr appeal\<rparr>)"

subsection \<open>The contract of a keeper of cooldowns\<close>

text \<open>
  Cooldowns are kept twice, in the memory of the worker that holds the session and in the registry.
  Both promise the same: a cooldown is recorded unless one that ends no earlier already runs on its
  scope. What follows for any sequence of cooldowns is proved once.
\<close>

locale cooldown_keeper =
  fixes look :: "'s \<Rightarrow> string \<Rightarrow> (time \<times> string) option"
    and put :: "cooldown \<Rightarrow> 's \<Rightarrow> 's"
    and ok :: "'s \<Rightarrow> bool"
  assumes look_put: "ok s \<Longrightarrow> look (put c s) scope =
      (if scope = c_scope c \<and> (case look s scope of None \<Rightarrow> True | Some (t, _) \<Rightarrow> t < c_until c)
       then Some (c_until c, c_reason c) else look s scope)"
    and ok_put: "ok s \<Longrightarrow> ok (put c s)"
begin

lemma put_keeps_later: "ok s \<Longrightarrow> look s scope = Some (t, r) \<Longrightarrow> \<exists>t' r'. look (put c s) scope = Some (t', r') \<and> t \<le> t'"
  by (auto simp: look_put)

lemma puts_keep_later:
  "ok s \<Longrightarrow> look s scope = Some (t, r) \<Longrightarrow> \<exists>t' r'. look (foldl (\<lambda>s c. put c s) s cs) scope = Some (t', r') \<and> t \<le> t'"
proof (induction cs arbitrary: s t r)
  case Nil
  then show ?case by simp
next
  case (Cons c cs)
  then obtain t' r' where "look (put c s) scope = Some (t', r')" "t \<le> t'"
    using put_keeps_later by blast
  with Cons.IH [of "put c s" t' r'] Cons.prems(1) ok_put show ?case by fastforce
qed

lemma puts_ok: "ok s \<Longrightarrow> ok (foldl (\<lambda>s c. put c s) s cs)"
  by (induction cs arbitrary: s) (auto intro: ok_put)

text \<open>After any sequence, a scope's end is the latest of the ends recorded on it.\<close>

definition latest :: "(time \<times> string) option \<Rightarrow> time list \<Rightarrow> time option" where
  "latest o0 ts = foldl (\<lambda>o1 t. case o1 of None \<Rightarrow> Some t | Some u \<Rightarrow> Some (max u t)) (map_option fst o0) ts"

lemma puts_latest:
  assumes "ok s"
  shows "map_option fst (look (foldl (\<lambda>s c. put c s) s cs) scope)
         = latest (look s scope) (map c_until (filter (\<lambda>c. c_scope c = scope) cs))"
  using assms
proof (induction cs arbitrary: s)
  case Nil
  then show ?case by (simp add: latest_def)
next
  case (Cons c cs)
  have "map_option fst (look (put c s) scope)
        = (if c_scope c = scope
           then (case map_option fst (look s scope) of None \<Rightarrow> Some (c_until c) | Some u \<Rightarrow> Some (max u (c_until c)))
           else map_option fst (look s scope))"
    using Cons.prems by (auto simp: look_put max_def split: option.splits)
  then show ?case using Cons.IH [OF ok_put [OF Cons.prems]] by (auto simp: latest_def)
qed

lemma fold_max_perm:
  fixes ts us :: "time list"
  assumes "mset ts = mset us"
  shows "foldl (\<lambda>o1 t. case o1 of None \<Rightarrow> Some t | Some u \<Rightarrow> Some (max u t)) o0 ts
       = foldl (\<lambda>o1 t. case o1 of None \<Rightarrow> Some t | Some u \<Rightarrow> Some (max u t)) o0 us"
proof -
  let ?f = "\<lambda>t o1. case o1 of None \<Rightarrow> Some t | Some u \<Rightarrow> Some (max u t :: time)"
  have "fold ?f ts = fold ?f us"
    by (rule fold_multiset_equiv [OF _ assms])
       (auto simp: fun_eq_iff max.assoc max.commute max.left_commute split: option.splits)
  then show ?thesis by (simp add: foldl_conv_fold)
qed

text \<open>So the order in which cooldowns are recorded does not change when they end.\<close>

lemma puts_perm:
  assumes "ok s" and "mset cs = mset cs'"
  shows "map_option fst (look (foldl (\<lambda>s c. put c s) s cs) scope)
         = map_option fst (look (foldl (\<lambda>s c. put c s) s cs') scope)"
proof -
  have "mset (map c_until (filter (\<lambda>c. c_scope c = scope) cs))
        = mset (map c_until (filter (\<lambda>c. c_scope c = scope) cs'))"
    using assms(2) by simp
  then show ?thesis using assms(1) by (simp add: puts_latest latest_def fold_max_perm)
qed

end

subsection \<open>The registry keeps cooldowns\<close>

definition reg_look :: "ident \<Rightarrow> registry \<Rightarrow> string \<Rightarrow> (time \<times> string) option" where
  "reg_look sid reg scope = map_option (\<lambda>r. (cd_ends r, cd_reason r)) (cooldown_row_of sid scope reg)"

text \<open>The write as its caller makes it: a failure is logged and the registry stays as it was.\<close>

definition reg_put :: "ident \<Rightarrow> cooldown \<Rightarrow> registry \<Rightarrow> registry" where
  "reg_put sid c reg = (case SetCooldown sid c reg of Inl e \<Rightarrow> reg | Inr reg' \<Rightarrow> reg')"

lemma find_map_cond:
  assumes "\<And>x. P (f x) = P x"
  shows "find P (map (\<lambda>x. if Q x then f x else x) xs) = map_option (\<lambda>x. if Q x then f x else x) (find P xs)"
  using assms by (induction xs) auto

lemma find_append: "find P (xs @ ys) = (case find P xs of None \<Rightarrow> find P ys | Some x \<Rightarrow> Some x)"
  by (induction xs) auto

lemma reg_look_put:
  assumes "session_exists sid reg"
  shows "reg_look sid (reg_put sid c reg) scope =
      (if scope = c_scope c \<and> (case reg_look sid reg scope of None \<Rightarrow> True | Some (t, _) \<Rightarrow> t < c_until c)
       then Some (c_until c, c_reason c) else reg_look sid reg scope)"
proof (cases "cooldown_row_of sid (c_scope c) reg")
  case None
  then show ?thesis using assms
    by (auto simp: reg_look_def reg_put_def SetCooldown_def cooldown_row_of_def find_append split: option.splits)
next
  case (Some row)
  let ?P = "\<lambda>r. cd_session r = sid \<and> cd_scope r = scope"
  let ?Q = "\<lambda>r. cd_session r = sid \<and> cd_scope r = c_scope c \<and> cd_ends r < c_until c"
  let ?f = "\<lambda>r. r\<lparr>cd_ends := c_until c, cd_reason := c_reason c\<rparr>"
  have "find ?P (map (\<lambda>r. if ?Q r then ?f r else r) (cooldowns reg))
        = map_option (\<lambda>r. if ?Q r then ?f r else r) (find ?P (cooldowns reg))"
    by (rule find_map_cond) simp
  then have row: "cooldown_row_of sid scope (reg_put sid c reg)
        = map_option (\<lambda>r. if ?Q r then ?f r else r) (cooldown_row_of sid scope reg)"
    using assms Some by (simp add: reg_put_def SetCooldown_def cooldown_row_of_def)
  have P: "cooldown_row_of sid scope reg = Some r \<Longrightarrow> ?P r" for r
    by (auto simp: cooldown_row_of_def find_Some_iff)
  show ?thesis
  proof (cases "cooldown_row_of sid scope reg")
    case None
    then show ?thesis using Some by (auto simp: reg_look_def row)
  next
    case (Some r)
    then show ?thesis using P [OF Some] by (simp add: reg_look_def row)
  qed
qed

lemma reg_put_exists: "session_exists sid (reg_put sid' c reg) = session_exists sid reg"
  by (auto simp: reg_put_def SetCooldown_def session_exists_def split: option.splits)

interpretation reg_cooldowns: cooldown_keeper "reg_look sid" "reg_put sid" "session_exists sid" for sid
  by unfold_locales (auto simp: reg_look_put reg_put_exists)

end
