(* ===== verification/Tokens.thy ===== *)
theory Tokens
  imports Accounts
begin

section \<open>Scoped tokens, what they grant, and the session listings\<close>

text \<open>
  The parts of \<^verbatim>\<open>internal/store/store.go\<close> about scoped API tokens: their grants, the predicate
  the gateway asks before it lets a token at a session, and the session listing narrowed to a
  token's grants, which the sources ask to keep in step with that predicate. The last is proved
  here: the listing shows exactly the sessions the predicate covers.
\<close>

subsection \<open>Listing sessions and workers\<close>

record SessionInfo =
  si_id :: ident
  si_kind :: string
  si_status :: string
  si_phone :: string
  si_label :: string
  si_worker :: ident
  si_last_seen :: "time option"
  si_created :: time
  si_app :: ident
  si_app_label :: string
  si_proxy_id :: ident
  si_proxy :: string
  si_premium :: "bool option"
  si_frozen :: bool
  si_spam :: bool

text \<open>
  One row of the shared projection. A session's \<open>last_seen_at\<close> is a column no statement writes, so
  it is null; the joins keep a session whose app or proxy is missing.
\<close>

definition session_info :: "time \<Rightarrow> registry \<Rightarrow> session_row \<Rightarrow> SessionInfo" where
  "session_info now reg s =
     \<lparr>si_id = s_id s, si_kind = s_kind s, si_status = s_status s, si_phone = coalesce (s_phone s),
      si_label = coalesce (s_label s), si_worker = coalesce (s_worker s), si_last_seen = None,
      si_created = s_created s, si_app = s_app s,
      si_app_label = (case find (\<lambda>a. app_id a = s_app s) (apps reg) of
                        None \<Rightarrow> '''' | Some a \<Rightarrow> coalesce (app_label a)),
      si_proxy_id = coalesce (s_proxy s),
      si_proxy = (case find (\<lambda>p. Some (px_id p) = s_proxy s) (proxies reg) of
                    None \<Rightarrow> '''' | Some p \<Rightarrow> px_type p @ '' '' @ px_host p @ '':'' @ itoa (px_port p)),
      si_premium = s_premium s, si_frozen = (s_frozen_at s \<noteq> None),
      si_spam = list_ex (\<lambda>c. cd_session c = s_id s \<and> cd_scope c = SpamLimitScope \<and> now < cd_ends c)
                  (cooldowns reg)\<rparr>"

definition querySessions :: "time \<Rightarrow> (session_row \<Rightarrow> bool) \<Rightarrow> registry \<Rightarrow> SessionInfo list" where
  "querySessions now P reg =
     map (session_info now reg) (sort_key s_created (filter P (sessions reg)))"

definition ListSessions :: "time \<Rightarrow> registry \<Rightarrow> SessionInfo list" where
  "ListSessions now reg = querySessions now (\<lambda>_. True) reg"

record WorkerInfo =
  wi_id :: ident
  wi_addr :: string
  wi_seen :: time
  wi_alive :: bool
  wi_sessions :: nat

definition owned_authorized :: "ident \<Rightarrow> registry \<Rightarrow> session_row list" where
  "owned_authorized w reg =
     filter (\<lambda>s. s_worker s = Some w \<and> s_status s = ''authorized'') (sessions reg)"

definition ListWorkers :: "time \<Rightarrow> registry \<Rightarrow> WorkerInfo list" where
  "ListWorkers cutoff reg =
     map (\<lambda>w. \<lparr>wi_id = w_id w, wi_addr = w_addr w, wi_seen = w_seen w, wi_alive = (cutoff < w_seen w),
               wi_sessions = length (owned_authorized (w_id w) reg)\<rparr>)
       (sort_key w_id (workers reg))"

subsection \<open>What a token grants\<close>

text \<open>
  The scope of an enabled token: all sessions, a grant of the session, or a grant of its app. The
  predicate for one session id finds the app through the session's row, so only an unlimited token
  and an explicit grant cover an id that no row has.
\<close>

definition grants_row :: "registry \<Rightarrow> token_row \<Rightarrow> session_row \<Rightarrow> bool" where
  "grants_row reg t s \<longleftrightarrow>
     t_all t \<or> (t_id t, s_id s) \<in> set (token_sessions reg) \<or> (t_id t, s_app s) \<in> set (token_apps reg)"

definition ListSessionsForToken :: "time \<Rightarrow> ident \<Rightarrow> registry \<Rightarrow> db_err + SessionInfo list" where
  "ListSessionsForToken now tok reg =
     uuid_arg reg tok (Inr (querySessions now
       (\<lambda>s. list_ex (\<lambda>t. t_id t = tok \<and> t_enabled t \<and> grants_row reg t s) (tokens reg)) reg))"

definition TokenGrantsSession :: "ident \<Rightarrow> ident \<Rightarrow> registry \<Rightarrow> db_err + bool" where
  "TokenGrantsSession tok sid reg =
     uuid_arg reg tok (uuid_arg reg sid (Inr
       (list_ex (\<lambda>t. t_id t = tok \<and> t_enabled t
          \<and> (t_all t
             \<or> (t_id t, sid) \<in> set (token_sessions reg)
             \<or> list_ex (\<lambda>s. s_id s = sid \<and> (t_id t, s_app s) \<in> set (token_apps reg)) (sessions reg)))
        (tokens reg))))"

definition ResolveToken :: "bytes \<Rightarrow> registry \<Rightarrow> (ident \<times> bool) option" where
  "ResolveToken h reg = map_option (\<lambda>t. (t_id t, t_enabled t)) (find (\<lambda>t. t_hash t = h) (tokens reg))"

subsection \<open>Managing tokens\<close>

record TokenInfo =
  ti_id :: ident
  ti_name :: string
  ti_enabled :: bool
  ti_all :: bool
  ti_apps :: "ident list"
  ti_sessions :: "ident list"
  ti_created :: time

definition grants_of :: "ident \<Rightarrow> (ident \<times> ident) list \<Rightarrow> ident list" where
  "grants_of tok gs = map snd (filter (\<lambda>g. fst g = tok) gs)"

definition ListTokens :: "registry \<Rightarrow> TokenInfo list" where
  "ListTokens reg =
     map (\<lambda>t. \<lparr>ti_id = t_id t, ti_name = coalesce (t_name t), ti_enabled = t_enabled t, ti_all = t_all t,
               ti_apps = grants_of (t_id t) (token_apps reg),
               ti_sessions = grants_of (t_id t) (token_sessions reg), ti_created = t_created t\<rparr>)
       (sort_key t_created (tokens reg))"

text \<open>
  The insertion loops over the grant lists: \<open>ON CONFLICT DO NOTHING\<close> for a pair that is there, an
  error, which rolls the transaction back, for a malformed id or one of no row.
\<close>

fun insert_grants ::
  "(ident \<Rightarrow> bool) \<Rightarrow> (ident \<Rightarrow> bool) \<Rightarrow> ident \<Rightarrow> ident list \<Rightarrow> (ident \<times> ident) list
   \<Rightarrow> db_err + (ident \<times> ident) list" where
  "insert_grants syntax_ok here tok [] gs = Inr gs"
| "insert_grants syntax_ok here tok (i # is) gs =
     (if \<not> syntax_ok i then Inl BadUuid
      else if (tok, i) \<in> set gs then insert_grants syntax_ok here tok is gs
      else if \<not> here i then Inl ForeignKey
      else insert_grants syntax_ok here tok is (gs @ [(tok, i)]))"

definition app_exists :: "registry \<Rightarrow> ident \<Rightarrow> bool" where
  "app_exists reg i = list_ex (\<lambda>a. app_id a = i) (apps reg)"

definition set_app_grants :: "ident \<Rightarrow> ident list \<Rightarrow> registry \<Rightarrow> db_err + registry" where
  "set_app_grants tok is reg =
     (case insert_grants (is_uuid reg) (app_exists reg) tok is
             (filter (\<lambda>g. fst g \<noteq> tok) (token_apps reg)) of
        Inl e \<Rightarrow> Inl e
      | Inr gs \<Rightarrow> Inr (reg\<lparr>token_apps := gs\<rparr>))"

definition set_session_grants :: "ident \<Rightarrow> ident list \<Rightarrow> registry \<Rightarrow> db_err + registry" where
  "set_session_grants tok is reg =
     (case insert_grants (is_uuid reg) (\<lambda>i. session_exists i reg) tok is
             (filter (\<lambda>g. fst g \<noteq> tok) (token_sessions reg)) of
        Inl e \<Rightarrow> Inl e
      | Inr gs \<Rightarrow> Inr (reg\<lparr>token_sessions := gs\<rparr>))"

definition replaceTokenGrants :: "ident \<Rightarrow> ident list \<Rightarrow> ident list \<Rightarrow> registry \<Rightarrow> db_err + registry" where
  "replaceTokenGrants tok appIDs sessionIDs reg =
     (case set_app_grants tok appIDs reg of
        Inl e \<Rightarrow> Inl e
      | Inr r \<Rightarrow> set_session_grants tok sessionIDs r)"

definition CreateToken ::
  "ident \<Rightarrow> time \<Rightarrow> string \<Rightarrow> bytes \<Rightarrow> bool \<Rightarrow> bool \<Rightarrow> ident list \<Rightarrow> ident list \<Rightarrow> registry
   \<Rightarrow> db_err + (ident \<times> registry)" where
  "CreateToken newid now nm h enabled alls appIDs sessionIDs reg =
     (if list_ex (\<lambda>t. t_hash t = h) (tokens reg) then Inl UniqueViolation
      else (case replaceTokenGrants newid appIDs sessionIDs
                   (reg\<lparr>tokens := tokens reg @ [\<lparr>t_id = newid, t_name = nullStr nm, t_hash = h,
                          t_enabled = enabled, t_all = alls, t_created = now\<rparr>]\<rparr>) of
              Inl e \<Rightarrow> Inl e
            | Inr r \<Rightarrow> Inr (newid, r)))"

record TokenPatch =
  tp_name :: "string option"
  tp_enabled :: "bool option"
  tp_all :: "bool option"
  tp_apps :: "ident list option"
  tp_sessions :: "ident list option"

definition patch_token :: "TokenPatch \<Rightarrow> token_row \<Rightarrow> token_row" where
  "patch_token p t =
     t\<lparr>t_name := (case tp_name p of None \<Rightarrow> t_name t | Some x \<Rightarrow> nullStr x),
       t_enabled := (case tp_enabled p of None \<Rightarrow> t_enabled t | Some b \<Rightarrow> b),
       t_all := (case tp_all p of None \<Rightarrow> t_all t | Some b \<Rightarrow> b)\<rparr>"

definition patchTokenGrants ::
  "ident \<Rightarrow> ident list option \<Rightarrow> ident list option \<Rightarrow> registry \<Rightarrow> db_err + registry" where
  "patchTokenGrants tok appIDs sessionIDs reg =
     (case (case appIDs of None \<Rightarrow> Inr reg | Some is \<Rightarrow> set_app_grants tok is reg) of
        Inl e \<Rightarrow> Inl e
      | Inr r \<Rightarrow> (case sessionIDs of None \<Rightarrow> Inr r | Some is \<Rightarrow> set_session_grants tok is r))"

definition UpdateToken :: "ident \<Rightarrow> TokenPatch \<Rightarrow> registry \<Rightarrow> db_err + (bool \<times> registry)" where
  "UpdateToken tok p reg =
     uuid_arg reg tok
       (if \<not> list_ex (\<lambda>t. t_id t = tok) (tokens reg) then Inr (False, reg)
        else (case patchTokenGrants tok (tp_apps p) (tp_sessions p)
                     (reg\<lparr>tokens := map (\<lambda>t. if t_id t = tok then patch_token p t else t) (tokens reg)\<rparr>) of
                Inl e \<Rightarrow> Inl e
              | Inr r \<Rightarrow> Inr (True, r)))"

text \<open>By ON DELETE CASCADE a token takes its grants, subscriptions and rate limits with it.\<close>

definition DeleteToken :: "ident \<Rightarrow> registry \<Rightarrow> db_err + (bool \<times> registry)" where
  "DeleteToken tok reg =
     uuid_arg reg tok
       (let r1 = delete_subs (\<lambda>x. sub_token x = Some tok) reg
        in Inr (list_ex (\<lambda>t. t_id t = tok) (tokens reg),
                r1\<lparr>tokens := filter (\<lambda>t. t_id t \<noteq> tok) (tokens r1),
                   token_apps := filter (\<lambda>g. fst g \<noteq> tok) (token_apps r1),
                   token_sessions := filter (\<lambda>g. fst g \<noteq> tok) (token_sessions r1),
                   quota := delete_rules (\<lambda>l. l_token l = Some tok) (quota r1)\<rparr>))"

subsection \<open>Lemmas\<close>

lemma uuid_arg_Inr [simp]: "uuid_arg reg i x = Inr v \<longleftrightarrow> is_uuid reg i \<and> x = Inr v"
  by (simp add: uuid_arg_def)

lemma querySessions_ids: "si_id ` set (querySessions now P reg) = s_id ` {s \<in> set (sessions reg). P s}"
  by (simp add: querySessions_def session_info_def image_image)

lemma insert_grants_set:
  "insert_grants syntax_ok here tok is gs = Inr gs' \<Longrightarrow> set gs' = set gs \<union> Pair tok ` set is"
  by (induction syntax_ok here tok "is" gs rule: insert_grants.induct) (auto split: if_splits)

lemma insert_grants_new:
  "insert_grants syntax_ok here tok is gs = Inr gs' \<Longrightarrow> g \<in> set gs' \<Longrightarrow> g \<in> set gs \<or> (fst g = tok \<and> here (snd g) \<and> syntax_ok (snd g))"
  by (induction syntax_ok here tok "is" gs rule: insert_grants.induct) (auto split: if_splits)

lemma set_app_grants_frame:
  assumes "set_app_grants tok is reg = Inr r"
  shows "tokens r = tokens reg" "token_sessions r = token_sessions reg" "sessions r = sessions reg"
    "is_uuid r = is_uuid reg" "apps r = apps reg"
    "set (token_apps r) = {g \<in> set (token_apps reg). fst g \<noteq> tok} \<union> Pair tok ` set is"
  using assms by (auto simp: set_app_grants_def dest!: insert_grants_set split: sum.splits)

lemma set_session_grants_frame:
  assumes "set_session_grants tok is reg = Inr r"
  shows "tokens r = tokens reg" "token_apps r = token_apps reg" "sessions r = sessions reg"
    "is_uuid r = is_uuid reg" "apps r = apps reg"
    "set (token_sessions r) = {g \<in> set (token_sessions reg). fst g \<noteq> tok} \<union> Pair tok ` set is"
  using assms by (auto simp: set_session_grants_def dest!: insert_grants_set split: sum.splits)

lemma TokenGrantsSession_True:
  "TokenGrantsSession tok sid reg = Inr True \<longleftrightarrow>
     is_uuid reg tok \<and> is_uuid reg sid
     \<and> (\<exists>t \<in> set (tokens reg). t_id t = tok \<and> t_enabled t
          \<and> (t_all t \<or> (tok, sid) \<in> set (token_sessions reg)
             \<or> (\<exists>s \<in> set (sessions reg). s_id s = sid \<and> (tok, s_app s) \<in> set (token_apps reg))))"
  by (auto simp: TokenGrantsSession_def list_ex_iff)

text \<open>A patch with a list of grants leaves the token with exactly these, and every other token as it was.\<close>

lemma UpdateToken_grants:
  assumes "UpdateToken tok p reg = Inr (True, r)"
  shows "set (token_apps r) = (case tp_apps p of None \<Rightarrow> set (token_apps reg)
           | Some is \<Rightarrow> {g \<in> set (token_apps reg). fst g \<noteq> tok} \<union> Pair tok ` set is)"
    and "set (token_sessions r) = (case tp_sessions p of None \<Rightarrow> set (token_sessions reg)
           | Some is \<Rightarrow> {g \<in> set (token_sessions reg). fst g \<noteq> tok} \<union> Pair tok ` set is)"
    and "tokens r = map (\<lambda>t. if t_id t = tok then patch_token p t else t) (tokens reg)"
    and "sessions r = sessions reg" and "is_uuid r = is_uuid reg"
proof -
  obtain r1 where a: "(case tp_apps p of None \<Rightarrow> Inr (reg\<lparr>tokens := map (\<lambda>t. if t_id t = tok then patch_token p t else t) (tokens reg)\<rparr>)
        | Some is \<Rightarrow> set_app_grants tok is (reg\<lparr>tokens := map (\<lambda>t. if t_id t = tok then patch_token p t else t) (tokens reg)\<rparr>)) = Inr r1"
    and b: "(case tp_sessions p of None \<Rightarrow> Inr r1 | Some is \<Rightarrow> set_session_grants tok is r1) = Inr r"
    using assms by (auto simp: UpdateToken_def patchTokenGrants_def split: if_splits sum.splits)
  have a': "set (token_apps r1) = (case tp_apps p of None \<Rightarrow> set (token_apps reg)
           | Some is \<Rightarrow> {g \<in> set (token_apps reg). fst g \<noteq> tok} \<union> Pair tok ` set is)
      \<and> token_sessions r1 = token_sessions reg \<and> sessions r1 = sessions reg \<and> is_uuid r1 = is_uuid reg
      \<and> tokens r1 = map (\<lambda>t. if t_id t = tok then patch_token p t else t) (tokens reg)"
  proof (cases "tp_apps p")
    case None
    with a show ?thesis by auto
  next
    case (Some ids)
    with a have s: "set_app_grants tok ids (reg\<lparr>tokens := map (\<lambda>t. if t_id t = tok then patch_token p t else t) (tokens reg)\<rparr>) = Inr r1"
      by simp
    show ?thesis using set_app_grants_frame [OF s] Some by simp
  qed
  have b': "token_apps r = token_apps r1 \<and> sessions r = sessions r1 \<and> is_uuid r = is_uuid r1 \<and> tokens r = tokens r1
      \<and> set (token_sessions r) = (case tp_sessions p of None \<Rightarrow> set (token_sessions r1)
           | Some is \<Rightarrow> {g \<in> set (token_sessions r1). fst g \<noteq> tok} \<union> Pair tok ` set is)"
  proof (cases "tp_sessions p")
    case None
    with b show ?thesis by auto
  next
    case (Some ids)
    with b have s: "set_session_grants tok ids r1 = Inr r" by simp
    show ?thesis using set_session_grants_frame [OF s] Some by simp
  qed
  show "set (token_apps r) = (case tp_apps p of None \<Rightarrow> set (token_apps reg)
           | Some is \<Rightarrow> {g \<in> set (token_apps reg). fst g \<noteq> tok} \<union> Pair tok ` set is)"
    and "set (token_sessions r) = (case tp_sessions p of None \<Rightarrow> set (token_sessions reg)
           | Some is \<Rightarrow> {g \<in> set (token_sessions reg). fst g \<noteq> tok} \<union> Pair tok ` set is)"
    and "tokens r = map (\<lambda>t. if t_id t = tok then patch_token p t else t) (tokens reg)"
    and "sessions r = sessions reg" and "is_uuid r = is_uuid reg"
    using a' b' by (simp_all split: option.splits)
qed

lemma patch_token_id [simp]: "t_id (patch_token p t) = t_id t"
  by (simp add: patch_token_def)

text \<open>A disabled token covers nothing.\<close>

lemma disabled_token_grants_nothing:
  assumes "UpdateToken tok p reg = Inr (True, r)" and "tp_enabled p = Some False"
  shows "TokenGrantsSession tok sid r \<noteq> Inr True"
proof -
  have "\<not> t_enabled t" if tin: "t \<in> set (tokens r)" and tid: "t_id t = tok" for t
  proof -
    obtain t0 where t: "t = (if t_id t0 = tok then patch_token p t0 else t0)"
      using tin unfolding UpdateToken_grants(3) [OF assms(1)] set_map by blast
    with tid have "t = patch_token p t0" by (cases "t_id t0 = tok") simp_all
    then show ?thesis using assms(2) by (simp add: patch_token_def)
  qed
  then show ?thesis by (auto simp: TokenGrantsSession_True)
qed

subsection \<open>Properties\<close>

text \<open>C26: the session listing of a scoped token shows exactly the sessions of the registry that the
  predicate \<^verbatim>\<open>TokenGrantsSession\<close> lets it address: the two queries, which the source asks to keep in
  step, agree on every session, for enabled, disabled and unknown tokens alike.\<close>

theorem granted_sessions_are_listed:
  assumes "is_uuid reg tok" "is_uuid reg sid"
  shows "(\<exists>infos. ListSessionsForToken now tok reg = Inr infos \<and> sid \<in> si_id ` set infos)
         \<longleftrightarrow> TokenGrantsSession tok sid reg = Inr True \<and> session_exists sid reg"
proof -
  have "(\<exists>infos. ListSessionsForToken now tok reg = Inr infos \<and> sid \<in> si_id ` set infos)
        \<longleftrightarrow> (\<exists>s \<in> set (sessions reg). s_id s = sid
             \<and> (\<exists>t \<in> set (tokens reg). t_id t = tok \<and> t_enabled t \<and> grants_row reg t s))"
    using assms by (auto simp: ListSessionsForToken_def querySessions_ids list_ex_iff)
  also have "\<dots> \<longleftrightarrow> TokenGrantsSession tok sid reg = Inr True \<and> session_exists sid reg"
    using assms by (auto simp: TokenGrantsSession_True session_exists_def list_ex_iff grants_row_def)
  finally show ?thesis .
qed

definition sample_token :: "ident \<Rightarrow> bool \<Rightarrow> token_row" where
  "sample_token i alls = \<lparr>t_id = i, t_name = None, t_hash = i, t_enabled = True, t_all = alls, t_created = 0\<rparr>"

definition sample_grants :: registry where
  "sample_grants = empty_registry\<lparr>
     sessions := [sample_session ''u1'' ''user'' ''authorized'' None, sample_session ''b1'' ''bot'' ''authorized'' None],
     tokens := [sample_token ''t1'' False], token_sessions := [(''t1'', ''u1'')]\<rparr>"

theorem granted_sessions_are_listed_witness:
  "is_uuid sample_grants ''t1'' \<and> is_uuid sample_grants ''u1''
   \<and> (\<exists>infos. ListSessionsForToken 0 ''t1'' sample_grants = Inr infos \<and> ''u1'' \<in> si_id ` set infos)"
proof -
  have u: "is_uuid sample_grants ''t1''" "is_uuid sample_grants ''u1''"
    by (simp_all add: sample_grants_def empty_registry_def)
  have "TokenGrantsSession ''t1'' ''u1'' sample_grants = Inr True \<and> session_exists ''u1'' sample_grants"
    by (simp add: sample_grants_def empty_registry_def TokenGrantsSession_def uuid_arg_def sample_token_def
        sample_session_def session_exists_def)
  then show ?thesis using u granted_sessions_are_listed [OF u, of 0] by simp
qed

end
