(* ===== verification/Subscriptions.thy ===== *)
theory Subscriptions
  imports Tokens
begin

section \<open>Update subscriptions and the routing of updates\<close>

text \<open>
  The subscriptions of \<^verbatim>\<open>internal/store/store.go\<close> and \<^verbatim>\<open>internal/session/subs.go\<close>: their rows, the
  snapshot a worker makes of a session's subscriptions, the receiver's pre-check and the routing of an
  update to the subscriptions whose stored filter admits it.
\<close>

subsection \<open>Rows\<close>

definition CreateSubscription ::
  "ident \<Rightarrow> time \<Rightarrow> ident \<Rightarrow> string \<Rightarrow> string \<Rightarrow> bytes \<Rightarrow> raw \<Rightarrow> registry \<Rightarrow> db_err + (ident \<times> registry)" where
  "CreateSubscription newid now sid tok url secretEnc filters reg =
     (if \<not> is_uuid reg sid \<or> (tok \<noteq> '''' \<and> \<not> is_uuid reg tok) then Inl BadUuid
      else if \<not> session_exists sid reg \<or> (tok \<noteq> '''' \<and> \<not> list_ex (\<lambda>t. t_id t = tok) (tokens reg))
      then Inl ForeignKey
      else Inr (newid, reg\<lparr>subs := subs reg @
             [\<lparr>sub_id = newid, sub_session = sid, sub_token = nullStr tok, sub_url = url,
               sub_secret_enc = secretEnc, sub_filters = filters, sub_created = now, sub_dropped = 0,
               sub_last_delivered = None, sub_last_error = None\<rparr>]\<rparr>))"

record Subscription =
  sv_id :: ident
  sv_session :: ident
  sv_token :: "ident option"
  sv_url :: string
  sv_filters :: raw
  sv_created :: time
  sv_last_delivered :: "time option"
  sv_last_error :: "(string \<times> time) option"
  sv_pending :: nat
  sv_failed :: nat
  sv_dropped :: int

definition deliveries_in :: "string \<Rightarrow> ident \<Rightarrow> registry \<Rightarrow> nat" where
  "deliveries_in st i reg = length (filter (\<lambda>d. d_sub d = i \<and> d_status d = st) (deliveries reg))"

definition subscription_view :: "registry \<Rightarrow> sub_row \<Rightarrow> Subscription" where
  "subscription_view reg x =
     \<lparr>sv_id = sub_id x, sv_session = sub_session x, sv_token = sub_token x, sv_url = sub_url x,
      sv_filters = sub_filters x, sv_created = sub_created x, sv_last_delivered = sub_last_delivered x,
      sv_last_error = sub_last_error x, sv_pending = deliveries_in ''pending'' (sub_id x) reg,
      sv_failed = deliveries_in ''failed'' (sub_id x) reg, sv_dropped = sub_dropped x\<rparr>"

text \<open>An empty token or subscription id selects all; a token that is none matches its own rows only.\<close>

definition owned_by :: "string \<Rightarrow> sub_row \<Rightarrow> bool" where
  "owned_by tok x \<longleftrightarrow> tok = '''' \<or> sub_token x = Some tok"

definition ListSubscriptions :: "ident \<Rightarrow> string \<Rightarrow> string \<Rightarrow> registry \<Rightarrow> db_err + Subscription list" where
  "ListSubscriptions sid tok sub reg =
     uuid_arg reg sid (Inr (map (subscription_view reg)
       (sort_key sub_created
         (filter (\<lambda>x. sub_session x = sid \<and> owned_by tok x \<and> (sub = '''' \<or> sub_id x = sub)) (subs reg)))))"

definition DeleteSubscription :: "ident \<Rightarrow> string \<Rightarrow> string \<Rightarrow> registry \<Rightarrow> db_err + (bool \<times> registry)" where
  "DeleteSubscription sid tok sub reg =
     uuid_arg reg sid
       (Inr (list_ex (\<lambda>x. sub_session x = sid \<and> sub_id x = sub \<and> owned_by tok x) (subs reg),
             delete_subs (\<lambda>x. sub_session x = sid \<and> sub_id x = sub \<and> owned_by tok x) reg))"

record SubscriptionFilter =
  sf_id :: ident
  sf_session :: ident
  sf_filters :: raw

definition SubscriptionFilters :: "ident list \<Rightarrow> registry \<Rightarrow> db_err + SubscriptionFilter list" where
  "SubscriptionFilters ids reg =
     (if ids = [] then Inr []
      else if \<not> list_all (is_uuid reg) ids then Inl BadUuid
      else Inr (map (\<lambda>x. \<lparr>sf_id = sub_id x, sf_session = sub_session x, sf_filters = sub_filters x\<rparr>)
             (sort_key sub_created (filter (\<lambda>x. sub_session x \<in> set ids) (subs reg)))))"

definition AddDropped :: "ident \<Rightarrow> int \<Rightarrow> registry \<Rightarrow> db_err + registry" where
  "AddDropped sid n reg =
     uuid_arg reg sid
       (if list_ex (\<lambda>x. sub_session x = sid \<and> max_int64 < sub_dropped x + n) (subs reg) then Inl OutOfRange
        else Inr (reg\<lparr>subs := map (\<lambda>x. if sub_session x = sid then x\<lparr>sub_dropped := sub_dropped x + n\<rparr> else x)
                               (subs reg)\<rparr>))"

subsection \<open>Snapshots\<close>

record FilterSpec =
  fs_types :: "string list"
  fs_chats :: "int list"

definition filter_fields :: "FilterSpec field list" where
  "filter_fields =
     [(''types'', on_field fs_types (\<lambda>x s. s\<lparr>fs_types := x\<rparr>) (dec_list '''' dec_str)),
      (''chats'', on_field fs_chats (\<lambda>x s. s\<lparr>fs_chats := x\<rparr>) (dec_list 0 dec_int64))]"

definition no_filter :: FilterSpec where
  "no_filter = \<lparr>fs_types = [], fs_chats = []\<rparr>"

text \<open>A stored filter as read back; no bytes at all are no restriction, unreadable bytes an error.\<close>

definition read_filter :: "raw \<Rightarrow> FilterSpec option" where
  "read_filter r =
     (case r of RawEmpty \<Rightarrow> Some no_filter
      | _ \<Rightarrow> (case unmarshal (dec_struct filter_fields) r no_filter of
               (ok, spec) \<Rightarrow> if ok then Some spec else None))"

text \<open>\<^verbatim>\<open>json.Marshal\<close> of a filter leaves empty lists out.\<close>

definition marshal_filter :: "FilterSpec \<Rightarrow> json" where
  "marshal_filter s = JObj
     ((if fs_types s = [] then [] else [(''types'', JArr (map JStr (fs_types s)))])
      @ (if fs_chats s = [] then [] else [(''chats'', JArr (map JInt (fs_chats s)))]))"

record subscription =
  sb_id :: ident
  sb_types :: "string list option"
  sb_chats :: "int list option"

record subSnapshot =
  sn_subs :: "subscription list"
  sn_anyType :: bool
  sn_types :: "string list"

fun snapshot_loop :: "SubscriptionFilter list \<Rightarrow> subSnapshot \<Rightarrow> subSnapshot" where
  "snapshot_loop [] sn = sn"
| "snapshot_loop (f # fs) sn =
     (case read_filter (sf_filters f) of
        None \<Rightarrow> snapshot_loop fs sn
      | Some spec \<Rightarrow>
          snapshot_loop fs
            (sn\<lparr>sn_subs := sn_subs sn @
                  [\<lparr>sb_id = sf_id f,
                    sb_types = (if fs_types spec = [] then None else Some (fs_types spec)),
                    sb_chats = (if fs_chats spec = [] then None else Some (fs_chats spec))\<rparr>],
                sn_anyType := (sn_anyType sn \<or> fs_types spec = []),
                sn_types := sn_types sn @ fs_types spec\<rparr>))"

definition newSnapshot :: "SubscriptionFilter list \<Rightarrow> subSnapshot option" where
  "newSnapshot fs =
     (if fs = [] then None
      else (let sn = snapshot_loop fs \<lparr>sn_subs = [], sn_anyType = False, sn_types = []\<rparr>
            in if sn_subs sn = [] then None else Some sn))"

definition wants :: "subSnapshot option \<Rightarrow> string \<Rightarrow> bool" where
  "wants s ctor = (case s of None \<Rightarrow> False | Some sn \<Rightarrow> sn_anyType sn \<or> ctor \<in> set (sn_types sn))"

subsection \<open>Routing\<close>

record chat_update =
  cu_chat :: "int option"
  cu_message :: "int option"

definition chat_update_fields :: "chat_update field list" where
  "chat_update_fields =
     [(''chat_id'', on_field cu_chat (\<lambda>x u. u\<lparr>cu_chat := x\<rparr>) (dec_ptr 0 dec_int64)),
      (''message'', on_field cu_message (\<lambda>x u. u\<lparr>cu_message := x\<rparr>)
         (dec_ptr 0 (dec_struct [(''chat_id'', on_field (\<lambda>x. x) (\<lambda>x _. x) dec_int64)])))]"

definition updateChat :: "json \<Rightarrow> int option" where
  "updateChat payload =
     (case unmarshal (dec_struct chat_update_fields) (RawVal payload) \<lparr>cu_chat = None, cu_message = None\<rparr> of
        (ok, u) \<Rightarrow>
          if \<not> ok then None
          else (case cu_chat u of Some c \<Rightarrow> Some c | None \<Rightarrow> cu_message u))"

text \<open>The loop of \<^verbatim>\<open>route\<close> looks the chat up once, when the first filter asks for it.\<close>

fun route_loop :: "string \<Rightarrow> json \<Rightarrow> int option option \<Rightarrow> subscription list \<Rightarrow> ident list" where
  "route_loop ctor payload looked [] = []"
| "route_loop ctor payload looked (x # xs) =
     (if (case sb_types x of None \<Rightarrow> False | Some ts \<Rightarrow> ctor \<notin> set ts)
      then route_loop ctor payload looked xs
      else (case sb_chats x of
              None \<Rightarrow> sb_id x # route_loop ctor payload looked xs
            | Some cs \<Rightarrow>
                (let chat = (case looked of None \<Rightarrow> updateChat payload | Some c \<Rightarrow> c)
                 in (if (case chat of None \<Rightarrow> True | Some c \<Rightarrow> c \<notin> set cs)
                     then route_loop ctor payload (Some chat) xs
                     else sb_id x # route_loop ctor payload (Some chat) xs))))"

definition route :: "subSnapshot \<Rightarrow> string \<Rightarrow> json \<Rightarrow> ident list" where
  "route sn ctor payload = route_loop ctor payload None (sn_subs sn)"

subsection \<open>What a filter admits\<close>

text \<open>
  The specification: both lists are allow lists, an empty one is no restriction, and a list of chats
  excludes updates that concern no chat. A filter that cannot be read admits nothing.
\<close>

definition admits :: "FilterSpec \<Rightarrow> string \<Rightarrow> int option \<Rightarrow> bool" where
  "admits s ctor chat \<longleftrightarrow>
     (fs_types s = [] \<or> ctor \<in> set (fs_types s))
     \<and> (fs_chats s = [] \<or> (\<exists>c \<in> set (fs_chats s). chat = Some c))"

definition filter_admits :: "raw \<Rightarrow> string \<Rightarrow> json \<Rightarrow> bool" where
  "filter_admits r ctor payload =
     (case read_filter r of None \<Rightarrow> False | Some s \<Rightarrow> admits s ctor (updateChat payload))"

definition compiled :: "SubscriptionFilter \<Rightarrow> subscription list" where
  "compiled f =
     (case read_filter (sf_filters f) of
        None \<Rightarrow> []
      | Some spec \<Rightarrow> [\<lparr>sb_id = sf_id f, sb_types = (if fs_types spec = [] then None else Some (fs_types spec)),
                       sb_chats = (if fs_chats spec = [] then None else Some (fs_chats spec))\<rparr>])"

lemma snapshot_loop_subs: "sn_subs (snapshot_loop fs sn) = sn_subs sn @ concat (map compiled fs)"
  by (induction fs sn rule: snapshot_loop.induct) (auto simp: compiled_def split: option.splits)

lemma snapshot_loop_wants:
  "sn_anyType (snapshot_loop fs sn) \<or> ctor \<in> set (sn_types (snapshot_loop fs sn))
   \<longleftrightarrow> sn_anyType sn \<or> ctor \<in> set (sn_types sn)
       \<or> (\<exists>f \<in> set fs. \<exists>s. read_filter (sf_filters f) = Some s \<and> (fs_types s = [] \<or> ctor \<in> set (fs_types s)))"
  by (induction fs sn rule: snapshot_loop.induct) (auto split: option.splits)

lemma route_loop_filter:
  "looked = None \<or> looked = Some (updateChat payload) \<Longrightarrow>
   route_loop ctor payload looked xs =
     map sb_id (filter (\<lambda>x. (case sb_types x of None \<Rightarrow> True | Some ts \<Rightarrow> ctor \<in> set ts)
        \<and> (case sb_chats x of None \<Rightarrow> True | Some cs \<Rightarrow> (\<exists>c \<in> set cs. updateChat payload = Some c))) xs)"
proof (induction xs arbitrary: looked)
  case Nil
  then show ?case by simp
next
  case (Cons x xs)
  have l: "(case looked of None \<Rightarrow> updateChat payload | Some c \<Rightarrow> c) = updateChat payload"
    using Cons.prems by auto
  show ?case
    using Cons.IH [OF Cons.prems] Cons.IH [of "Some (updateChat payload)"]
    by (auto simp: Let_def l split: option.split)
qed

lemma route_compiled:
  "map sb_id (filter (\<lambda>x. (case sb_types x of None \<Rightarrow> True | Some ts \<Rightarrow> ctor \<in> set ts)
      \<and> (case sb_chats x of None \<Rightarrow> True | Some cs \<Rightarrow> (\<exists>c \<in> set cs. updateChat payload = Some c))) (compiled f))
   = (if filter_admits (sf_filters f) ctor payload then [sf_id f] else [])"
  by (auto simp: compiled_def filter_admits_def admits_def split: option.splits)

lemma route_snapshot:
  "route (snapshot_loop fs \<lparr>sn_subs = [], sn_anyType = False, sn_types = []\<rparr>) ctor payload
   = map sf_id (filter (\<lambda>f. filter_admits (sf_filters f) ctor payload) fs)"
proof -
  let ?P = "\<lambda>x. (case sb_types x of None \<Rightarrow> True | Some ts \<Rightarrow> ctor \<in> set ts)
      \<and> (case sb_chats x of None \<Rightarrow> True | Some cs \<Rightarrow> (\<exists>c \<in> set cs. updateChat payload = Some c))"
  have "map sb_id (filter ?P (concat (map compiled fs)))
      = map sf_id (filter (\<lambda>f. filter_admits (sf_filters f) ctor payload) fs)"
    using route_compiled [of ctor payload] by (induction fs) auto
  then show ?thesis by (simp add: route_def route_loop_filter snapshot_loop_subs)
qed

text \<open>What the receiver and the outbox writer make of an update: the rows that will be queued for it.\<close>

definition routed :: "subSnapshot option \<Rightarrow> string \<Rightarrow> json \<Rightarrow> ident list" where
  "routed s ctor payload = (if wants s ctor then (case s of None \<Rightarrow> [] | Some sn \<Rightarrow> route sn ctor payload) else [])"

lemma filter_of_wanted:
  assumes "\<not> wants (newSnapshot fs) ctor"
  shows "filter (\<lambda>f. filter_admits (sf_filters f) ctor payload) fs = []"
proof -
  let ?sn = "snapshot_loop fs \<lparr>sn_subs = [], sn_anyType = False, sn_types = []\<rparr>"
  have "\<not> filter_admits (sf_filters f) ctor payload" if "f \<in> set fs" for f
  proof
    assume a: "filter_admits (sf_filters f) ctor payload"
    then obtain s where s: "read_filter (sf_filters f) = Some s" "fs_types s = [] \<or> ctor \<in> set (fs_types s)"
      by (auto simp: filter_admits_def admits_def split: option.splits)
    have "compiled f \<noteq> []" using s(1) by (simp add: compiled_def)
    then have "sn_subs ?sn \<noteq> []" using that by (auto simp: snapshot_loop_subs)
    then have "newSnapshot fs = Some ?sn" using that by (auto simp: newSnapshot_def Let_def)
    moreover have "sn_anyType ?sn \<or> ctor \<in> set (sn_types ?sn)"
      using that s snapshot_loop_wants [of fs _ ctor] by blast
    ultimately show False using assms by (simp add: wants_def)
  qed
  then show ?thesis by (simp add: filter_empty_conv)
qed

text \<open>A filter stored by the API is read back as it was given.\<close>

lemma dec_elems_strings: "dec_elems '''' dec_str (map JStr ts) [] = (True, ts)"
  by (induction ts) auto

lemma dec_elems_ints:
  "list_all (\<lambda>c. min_int64 \<le> c \<and> c \<le> max_int64) cs \<Longrightarrow> dec_elems 0 dec_int64 (map JInt cs) [] = (True, cs)"
  by (induction cs) auto

lemma stored_filter_reads_back:
  assumes "list_all (\<lambda>c. min_int64 \<le> c \<and> c \<le> max_int64) (fs_chats s)"
  shows "read_filter (RawVal (marshal_filter s)) = Some s"
proof -
  have f: "find_field filter_fields ''types'' = Some (on_field fs_types (\<lambda>x s. s\<lparr>fs_types := x\<rparr>) (dec_list '''' dec_str))"
    "find_field filter_fields ''chats'' = Some (on_field fs_chats (\<lambda>x s. s\<lparr>fs_chats := x\<rparr>) (dec_list 0 dec_int64))"
    by (simp_all add: filter_fields_def find_field_def)
  obtain ts cs where s: "s = \<lparr>fs_types = ts, fs_chats = cs\<rparr>" by (cases s)
  show ?thesis
    using assms dec_elems_strings [of ts] dec_elems_ints [of cs]
    by (cases "ts = []"; cases "cs = []")
       (simp_all add: s read_filter_def unmarshal_def dec_struct_def marshal_filter_def f on_field_def
          dec_list_def no_filter_def del: dec_elems.simps)
qed

subsection \<open>Properties\<close>

text \<open>C23: an update is queued for exactly the subscriptions whose stored filter admits it, in their
  order: the receiver's pre-check, the union of the filters' types it rests on and the lazy lookup of
  the chat lose nothing and add nothing, and a filter that cannot be read never widens to everything.\<close>

theorem updates_follow_the_filters:
  "routed (newSnapshot fs) ctor payload
   = map sf_id (filter (\<lambda>f. filter_admits (sf_filters f) ctor payload) fs)"
proof (cases "wants (newSnapshot fs) ctor")
  case True
  then obtain sn where "newSnapshot fs = Some sn" by (auto simp: wants_def split: option.splits)
  then have "newSnapshot fs = Some (snapshot_loop fs \<lparr>sn_subs = [], sn_anyType = False, sn_types = []\<rparr>)"
    by (auto simp: newSnapshot_def Let_def split: if_splits)
  then show ?thesis using True by (simp add: routed_def route_snapshot)
next
  case False
  then show ?thesis using filter_of_wanted by (simp add: routed_def)
qed

end
