(* ===== verification/Workers.thy ===== *)
theory Workers
  imports Tokens
begin

section \<open>Who owns a session: the lease in the registry\<close>

text \<open>
  \<^verbatim>\<open>internal/store/store.go\<close>, the worker coordination part. A session row names its worker; the owner
  counts while its heartbeat is younger than a cutoff. Each statement is one step. \<^verbatim>\<open>ClaimOrphans\<close>
  locks the rows it takes and skips those another claim in flight has locked; which these are is its
  argument \<open>locked\<close>.
\<close>

definition set_owner :: "time \<Rightarrow> ident option \<Rightarrow> (session_row \<Rightarrow> bool) \<Rightarrow> registry \<Rightarrow> registry" where
  "set_owner now w P reg =
     reg\<lparr>sessions := map (\<lambda>s. if P s then s\<lparr>s_worker := w, s_updated := now\<rparr> else s) (sessions reg)\<rparr>"

definition RegisterWorker :: "time \<Rightarrow> ident \<Rightarrow> string \<Rightarrow> registry \<Rightarrow> registry" where
  "RegisterWorker now w addr reg =
     reg\<lparr>workers :=
       (if list_ex (\<lambda>r. w_id r = w) (workers reg)
        then map (\<lambda>r. if w_id r = w then r\<lparr>w_addr := addr, w_seen := now\<rparr> else r) (workers reg)
        else workers reg @ [\<lparr>w_id = w, w_addr = addr, w_seen = now\<rparr>])\<rparr>"

definition SetSessionOwner :: "time \<Rightarrow> ident \<Rightarrow> ident \<Rightarrow> registry \<Rightarrow> db_err + registry" where
  "SetSessionOwner now sid w reg = uuid_arg reg sid (Inr (set_owner now (Some w) (\<lambda>s. s_id s = sid) reg))"

record Rehydratable =
  rh_id :: ident
  rh_kind :: string
  rh_app :: ident
  rh_proxy :: ident
  rh_db_dir :: string
  rh_db_key_enc :: bytes

definition rehydratable :: "session_row \<Rightarrow> Rehydratable" where
  "rehydratable s =
     \<lparr>rh_id = s_id s, rh_kind = s_kind s, rh_app = s_app s, rh_proxy = coalesce (s_proxy s),
      rh_db_dir = coalesce (s_db_dir s), rh_db_key_enc = coalesce (s_db_key_enc s)\<rparr>"

definition has_binlog :: "session_row \<Rightarrow> bool" where
  "has_binlog s \<longleftrightarrow> s_status s = ''authorized'' \<and> s_db_dir s \<noteq> None \<and> s_db_key_enc s \<noteq> None"

definition live_worker :: "time \<Rightarrow> ident \<Rightarrow> registry \<Rightarrow> bool" where
  "live_worker cutoff w reg = list_ex (\<lambda>r. w_id r = w \<and> cutoff < w_seen r) (workers reg)"

definition orphan :: "time \<Rightarrow> registry \<Rightarrow> session_row \<Rightarrow> bool" where
  "orphan cutoff reg s \<longleftrightarrow>
     has_binlog s \<and> (case s_worker s of None \<Rightarrow> True | Some w \<Rightarrow> \<not> live_worker cutoff w reg)"

definition ClaimOrphans ::
  "ident list \<Rightarrow> time \<Rightarrow> ident \<Rightarrow> time \<Rightarrow> nat \<Rightarrow> registry \<Rightarrow> Rehydratable list \<times> registry" where
  "ClaimOrphans locked now w cutoff lim reg =
     (let claim = take lim (sort_key s_updated
                    (filter (\<lambda>s. orphan cutoff reg s \<and> s_id s \<notin> set locked) (sessions reg)))
      in (map rehydratable claim,
          set_owner now (Some w) (\<lambda>s. s_id s \<in> s_id ` set claim) reg))"

text \<open>The kind, and the address of the owner if it is alive; \<open>None\<close> when there is no such session.\<close>

definition live_addr :: "time \<Rightarrow> ident option \<Rightarrow> registry \<Rightarrow> string" where
  "live_addr cutoff w reg =
     (case find (\<lambda>r. Some (w_id r) = w \<and> cutoff < w_seen r) (workers reg) of
        None \<Rightarrow> '''' | Some r \<Rightarrow> w_addr r)"

definition SessionRoute :: "ident \<Rightarrow> time \<Rightarrow> registry \<Rightarrow> db_err + (string \<times> string) option" where
  "SessionRoute sid cutoff reg =
     uuid_arg reg sid
       (Inr (map_option (\<lambda>s. (s_kind s, live_addr cutoff (s_worker s) reg)) (session_by_id sid reg)))"

definition ReleaseSessions :: "time \<Rightarrow> ident \<Rightarrow> registry \<Rightarrow> nat \<times> registry" where
  "ReleaseSessions now w reg =
     (length (owned_authorized w reg),
      set_owner now None (\<lambda>s. s_worker s = Some w \<and> s_status s = ''authorized'') reg)"

definition DeregisterWorker :: "ident \<Rightarrow> registry \<Rightarrow> registry" where
  "DeregisterWorker w reg = reg\<lparr>workers := filter (\<lambda>r. w_id r \<noteq> w) (workers reg)\<rparr>"

definition WorkerLoad :: "ident \<Rightarrow> time \<Rightarrow> registry \<Rightarrow> nat \<times> nat \<times> nat" where
  "WorkerLoad w cutoff reg =
     (length (owned_authorized w reg),
      length (filter (\<lambda>s. s_status s = ''authorized'') (sessions reg)),
      length (filter (\<lambda>r. cutoff < w_seen r) (workers reg)))"

definition ListOwned :: "ident \<Rightarrow> registry \<Rightarrow> Rehydratable list" where
  "ListOwned w reg =
     map rehydratable (filter (\<lambda>s. s_worker s = Some w \<and> has_binlog s) (sessions reg))"

definition ForeignOwned :: "ident \<Rightarrow> ident list \<Rightarrow> time \<Rightarrow> registry \<Rightarrow> ident list" where
  "ForeignOwned w ids cutoff reg =
     map s_id (filter (\<lambda>s. s_id s \<in> set ids
         \<and> (case s_worker s of None \<Rightarrow> False | Some v \<Rightarrow> v \<noteq> w \<and> live_worker cutoff v reg)) (sessions reg))"

definition ReleaseSession :: "time \<Rightarrow> ident \<Rightarrow> registry \<Rightarrow> db_err + registry" where
  "ReleaseSession now sid reg = uuid_arg reg sid (Inr (set_owner now None (\<lambda>s. s_id s = sid) reg))"

definition PurgeWorkers :: "time \<Rightarrow> registry \<Rightarrow> nat \<times> registry" where
  "PurgeWorkers before reg =
     (length (filter (\<lambda>r. w_seen r < before) (workers reg)),
      reg\<lparr>workers := filter (\<lambda>r. \<not> w_seen r < before) (workers reg)\<rparr>)"

definition PickWorker :: "time \<Rightarrow> registry \<Rightarrow> string" where
  "PickWorker cutoff reg =
     (case sort_key (\<lambda>r. length (owned_authorized (w_id r) reg))
             (sort_key (\<lambda>r. - w_seen r) (filter (\<lambda>r. cutoff < w_seen r) (workers reg))) of
        [] \<Rightarrow> '''' | r # _ \<Rightarrow> w_addr r)"

subsection \<open>Lemmas\<close>

lemma set_owner_frame [simp]:
  "workers (set_owner now w P reg) = workers reg"
  "is_uuid (set_owner now w P reg) = is_uuid reg"
  "db_up (set_owner now w P reg) = db_up reg"
  "map s_id (sessions (set_owner now w P reg)) = map s_id (sessions reg)"
  "length (sessions (set_owner now w P reg)) = length (sessions reg)"
  "live_worker cutoff v (set_owner now w P reg) = live_worker cutoff v reg"
  by (simp_all add: set_owner_def live_worker_def comp_def if_distrib cong: if_cong)

lemma ClaimOrphans_frame [simp]:
  "workers (snd (ClaimOrphans locked now w cutoff lim reg)) = workers reg"
  "map s_id (sessions (snd (ClaimOrphans locked now w cutoff lim reg))) = map s_id (sessions reg)"
  "live_worker c v (snd (ClaimOrphans locked now w cutoff lim reg)) = live_worker c v reg"
  by (simp_all add: ClaimOrphans_def Let_def)

definition claimed_ids :: "Rehydratable list \<times> registry \<Rightarrow> ident set" where
  "claimed_ids x = rh_id ` set (fst x)"

text \<open>The owner of a session: what its row says, if it has one.\<close>

definition owner :: "registry \<Rightarrow> ident \<Rightarrow> ident option" where
  "owner reg sid = (case session_by_id sid reg of None \<Rightarrow> None | Some s \<Rightarrow> s_worker s)"

definition keys_ok :: "registry \<Rightarrow> bool" where
  "keys_ok reg = distinct (map s_id (sessions reg))"

lemma session_by_id_unique:
  assumes "keys_ok reg" "s \<in> set (sessions reg)"
  shows "session_by_id (s_id s) reg = Some s"
proof -
  have "find (\<lambda>x. s_id x = s_id s) xs = Some s" if "distinct (map s_id xs)" "s \<in> set xs" for xs
    using that by (induction xs) (auto simp: image_iff)
  then show ?thesis using assms by (simp add: keys_ok_def session_by_id_def)
qed

lemma session_by_id_set_owner:
  assumes "keys_ok reg"
  shows "session_by_id sid (set_owner now w P reg)
         = map_option (\<lambda>s. if P s then s\<lparr>s_worker := w, s_updated := now\<rparr> else s) (session_by_id sid reg)"
proof -
  have "find (\<lambda>s. s_id s = sid) (map (\<lambda>s. if P s then s\<lparr>s_worker := w, s_updated := now\<rparr> else s) xs)
        = map_option (\<lambda>s. if P s then s\<lparr>s_worker := w, s_updated := now\<rparr> else s) (find (\<lambda>s. s_id s = sid) xs)" for xs
    by (induction xs) auto
  then show ?thesis by (simp add: session_by_id_def set_owner_def)
qed

lemma claim_members:
  assumes "x \<in> set (fst (ClaimOrphans locked now w cutoff lim reg))"
  obtains s where "s \<in> set (sessions reg)" "orphan cutoff reg s" "x = rehydratable s"
proof -
  let ?xs = "sort_key s_updated (filter (\<lambda>s. orphan cutoff reg s \<and> s_id s \<notin> set locked) (sessions reg))"
  obtain s where "s \<in> set (take lim ?xs)" "x = rehydratable s"
    using assms by (auto simp: ClaimOrphans_def Let_def)
  then show ?thesis using that in_set_takeD [of s lim ?xs] by auto
qed

lemma claimed_was_orphan:
  assumes "keys_ok reg" "sid \<in> claimed_ids (ClaimOrphans locked now w cutoff lim reg)"
  shows "\<exists>s. session_by_id sid reg = Some s \<and> orphan cutoff reg s"
proof -
  obtain x where x: "x \<in> set (fst (ClaimOrphans locked now w cutoff lim reg))" "sid = rh_id x"
    using assms(2) unfolding claimed_ids_def by blast
  obtain s where s: "s \<in> set (sessions reg)" "orphan cutoff reg s" "x = rehydratable s"
    using claim_members [OF x(1)] by blast
  then have "sid = s_id s" using x(2) by (simp add: rehydratable_def)
  then show ?thesis using session_by_id_unique [OF assms(1) s(1)] s(2) by blast
qed

lemma owner_ClaimOrphans:
  assumes "keys_ok reg"
  shows "owner (snd (ClaimOrphans locked now w cutoff lim reg)) sid
         = (if sid \<in> claimed_ids (ClaimOrphans locked now w cutoff lim reg) then Some w else owner reg sid)"
proof -
  let ?claim = "take lim (sort_key s_updated (filter (\<lambda>s. orphan cutoff reg s \<and> s_id s \<notin> set locked) (sessions reg)))"
  have c: "claimed_ids (ClaimOrphans locked now w cutoff lim reg) = s_id ` set ?claim"
    by (simp add: claimed_ids_def ClaimOrphans_def Let_def rehydratable_def image_image)
  have o: "owner (snd (ClaimOrphans locked now w cutoff lim reg)) sid =
      (case session_by_id sid reg of None \<Rightarrow> None
       | Some s \<Rightarrow> if s_id s \<in> s_id ` set ?claim then Some w else s_worker s)"
    by (simp add: owner_def session_by_id_set_owner [OF assms] ClaimOrphans_def Let_def split: option.split)
  show ?thesis
  proof (cases "session_by_id sid reg")
    case None
    then have "sid \<notin> s_id ` set ?claim" using claimed_was_orphan [OF assms, of sid] c by (metis option.distinct(1))
    then show ?thesis unfolding o c using None by (simp add: owner_def)
  next
    case (Some s)
    then have "s_id s = sid" using session_by_id_SomeD by blast
    then show ?thesis unfolding o c using Some by (simp add: owner_def)
  qed
qed

lemma claim_bounded: "length (fst (ClaimOrphans locked now w cutoff lim reg)) \<le> lim"
  by (simp add: ClaimOrphans_def Let_def)

lemma keys_ok_ClaimOrphans: "keys_ok (snd (ClaimOrphans locked now w cutoff lim reg)) = keys_ok reg"
  by (simp add: keys_ok_def)

subsection \<open>The contract of a lease\<close>

text \<open>
  What a claim promises whoever relies on the ownership of sessions: it takes only what is free, that is
  unowned or owned by a worker that is not alive at the claim's cutoff, and it changes no other owner.
\<close>

record claim_args =
  ca_locked :: "ident list"
  ca_now :: time
  ca_worker :: ident
  ca_cutoff :: time
  ca_limit :: nat

fun run_claims :: "('a \<Rightarrow> 's \<Rightarrow> ident set \<times> 's) \<Rightarrow> 'a list \<Rightarrow> 's \<Rightarrow> ident set list \<times> 's" where
  "run_claims f [] s = ([], s)"
| "run_claims f (a # as) s =
     (case f a s of (ids, s1) \<Rightarrow> (case run_claims f as s1 of (idss, s2) \<Rightarrow> (ids # idss, s2)))"

fun pairwise_disjoint :: "ident set list \<Rightarrow> bool" where
  "pairwise_disjoint [] = True"
| "pairwise_disjoint (A # As) = ((\<forall>B \<in> set As. A \<inter> B = {}) \<and> pairwise_disjoint As)"

locale lease =
  fixes own :: "'s \<Rightarrow> ident \<Rightarrow> ident option"
    and alive :: "'s \<Rightarrow> time \<Rightarrow> ident \<Rightarrow> bool"
    and claim :: "claim_args \<Rightarrow> 's \<Rightarrow> ident set \<times> 's"
    and ok :: "'s \<Rightarrow> bool"
  assumes claim_free: "ok s \<Longrightarrow> sid \<in> fst (claim a s) \<Longrightarrow> own s sid = Some v \<Longrightarrow> \<not> alive s (ca_cutoff a) v"
    and own_claim: "ok s \<Longrightarrow> own (snd (claim a s)) sid = (if sid \<in> fst (claim a s) then Some (ca_worker a) else own s sid)"
    and alive_claim: "alive (snd (claim a s)) = alive s"
    and ok_claim: "ok s \<Longrightarrow> ok (snd (claim a s))"
begin

lemma live_owner_keeps:
  assumes "ok s" "own s sid = Some v" "\<forall>a \<in> set as. alive s (ca_cutoff a) v"
  shows "own (snd (run_claims claim as s)) sid = Some v \<and> (\<forall>A \<in> set (fst (run_claims claim as s)). sid \<notin> A)"
  using assms
proof (induction as arbitrary: s)
  case Nil
  then show ?case by simp
next
  case (Cons a as)
  have n: "sid \<notin> fst (claim a s)" using claim_free [OF Cons.prems(1)] Cons.prems(2,3) by auto
  have "own (snd (claim a s)) sid = Some v" using own_claim [OF Cons.prems(1)] n Cons.prems(2) by simp
  moreover have "\<forall>b \<in> set as. alive (snd (claim a s)) (ca_cutoff b) v"
    using Cons.prems(3) by (simp add: alive_claim)
  ultimately have "own (snd (run_claims claim as (snd (claim a s)))) sid = Some v
      \<and> (\<forall>A \<in> set (fst (run_claims claim as (snd (claim a s)))). sid \<notin> A)"
    using Cons.IH ok_claim Cons.prems(1) by blast
  then show ?case using n by (auto split: prod.splits)
qed

lemma claims_disjoint:
  assumes "ok s" "\<forall>a \<in> set as. \<forall>b \<in> set as. alive s (ca_cutoff b) (ca_worker a)"
  shows "pairwise_disjoint (fst (run_claims claim as s))"
  using assms
proof (induction as arbitrary: s)
  case Nil
  then show ?case by simp
next
  case (Cons a as)
  let ?s1 = "snd (claim a s)"
  have "\<forall>A \<in> set (fst (run_claims claim as ?s1)). sid \<notin> A" if "sid \<in> fst (claim a s)" for sid
  proof -
    have "own ?s1 sid = Some (ca_worker a)" using own_claim [OF Cons.prems(1)] that by simp
    moreover have "\<forall>b \<in> set as. alive ?s1 (ca_cutoff b) (ca_worker a)"
      using Cons.prems(2) by (simp add: alive_claim)
    ultimately show ?thesis using live_owner_keeps ok_claim [OF Cons.prems(1)] by blast
  qed
  moreover have "pairwise_disjoint (fst (run_claims claim as ?s1))"
    using Cons.IH [OF ok_claim [OF Cons.prems(1)]] Cons.prems(2) by (simp add: alive_claim)
  ultimately show ?case by (auto split: prod.splits)
qed

end

definition claim_step :: "claim_args \<Rightarrow> registry \<Rightarrow> ident set \<times> registry" where
  "claim_step a reg =
     (let r = ClaimOrphans (ca_locked a) (ca_now a) (ca_worker a) (ca_cutoff a) (ca_limit a) reg
      in (claimed_ids r, snd r))"

interpretation session_lease: lease owner "\<lambda>reg c w. live_worker c w reg" claim_step keys_ok
proof unfold_locales
  fix s sid a v
  assume "keys_ok s" "sid \<in> fst (claim_step a s)" "owner s sid = Some v"
  then show "\<not> live_worker (ca_cutoff a) v s"
    using claimed_was_orphan [of s sid] by (fastforce simp: claim_step_def Let_def owner_def orphan_def)
qed (simp_all add: claim_step_def Let_def owner_ClaimOrphans keys_ok_ClaimOrphans)

subsection \<open>Properties\<close>

text \<open>C21: a claim never takes a session from a worker that is alive, and no two claims take the same
  session: in any sequence of claims by any workers, whose heartbeats are fresh at every claim's
  cutoff, the claimed batches are disjoint, and whatever a worker alive throughout owned before it
  still owns after.\<close>

theorem claims_are_disjoint:
  assumes "keys_ok reg"
    and "\<forall>a \<in> set as. \<forall>b \<in> set as. live_worker (ca_cutoff b) (ca_worker a) reg"
  shows "pairwise_disjoint (fst (run_claims claim_step as reg))
         \<and> (\<forall>sid v. owner reg sid = Some v \<longrightarrow> (\<forall>a \<in> set as. live_worker (ca_cutoff a) v reg) \<longrightarrow>
              owner (snd (run_claims claim_step as reg)) sid = Some v)"
  using session_lease.claims_disjoint [OF assms] session_lease.live_owner_keeps [OF assms(1)] by blast

definition two_claims :: registry where
  "two_claims = empty_registry\<lparr>
     sessions := [sample_session ''u1'' ''user'' ''authorized'' None, sample_session ''u2'' ''user'' ''authorized'' (Some ''dead''),
                  sample_session ''u3'' ''user'' ''authorized'' (Some ''w2'')],
     workers := [\<lparr>w_id = ''w1'', w_addr = ''http://w1'', w_seen = 100\<rparr>, \<lparr>w_id = ''w2'', w_addr = ''http://w2'', w_seen = 100\<rparr>,
                 \<lparr>w_id = ''dead'', w_addr = ''http://dead'', w_seen = 0\<rparr>]\<rparr>"

definition claim_by :: "ident \<Rightarrow> nat \<Rightarrow> claim_args" where
  "claim_by w lim = \<lparr>ca_locked = [], ca_now = 110, ca_worker = w, ca_cutoff = 80, ca_limit = lim\<rparr>"

theorem claims_are_disjoint_witness:
  "pairwise_disjoint (fst (run_claims claim_step [claim_by ''w1'' 1, claim_by ''w2'' 8] two_claims))
   \<and> owner (snd (run_claims claim_step [claim_by ''w1'' 1, claim_by ''w2'' 8] two_claims)) ''u3'' = Some ''w2''
   \<and> map (\<lambda>A. A \<inter> {''u1'', ''u2'', ''u3''}) (fst (run_claims claim_step [claim_by ''w1'' 1, claim_by ''w2'' 8] two_claims))
     = [{''u1''}, {''u2''}]"
proof -
  let ?as = "[claim_by ''w1'' 1, claim_by ''w2'' 8]"
  have k: "keys_ok two_claims" by (simp add: keys_ok_def two_claims_def sample_session_def)
  have l: "\<forall>a \<in> set ?as. \<forall>b \<in> set ?as. live_worker (ca_cutoff b) (ca_worker a) two_claims"
    by (simp add: live_worker_def two_claims_def claim_by_def)
  have o: "owner two_claims ''u3'' = Some ''w2''"
    by (simp add: owner_def session_by_id_def two_claims_def sample_session_def)
  have c: "fst (run_claims claim_step ?as two_claims) = [{''u1''}, {''u2''}]"
    by (simp add: claim_step_def ClaimOrphans_def two_claims_def sample_session_def claim_by_def orphan_def
        has_binlog_def live_worker_def claimed_ids_def rehydratable_def set_owner_def)
  have "\<forall>a \<in> set ?as. live_worker (ca_cutoff a) ''w2'' two_claims"
    by (simp add: live_worker_def two_claims_def claim_by_def)
  then have "owner (snd (run_claims claim_step ?as two_claims)) ''u3'' = Some ''w2''"
    and "pairwise_disjoint (fst (run_claims claim_step ?as two_claims))"
    using claims_are_disjoint [OF k l] o by blast+
  moreover have "map (\<lambda>A. A \<inter> {''u1'', ''u2'', ''u3''}) (fst (run_claims claim_step ?as two_claims)) = [{''u1''}, {''u2''}]"
    unfolding c by simp
  ultimately show ?thesis by blast
qed

end
