(* ===== verification/TdJson.thy ===== *)
theory TdJson
  imports Counters Json
begin

section \<open>Errors and the raw td\_api dispatcher\<close>

text \<open>
  \<^verbatim>\<open>internal/tdjson/raw.go\<close>, and the Go errors the worker passes around. TDLib and the go-tdlib
  client are not part of the repository: what they answer is a parameter, a function of the requests
  sent so far, and every request that reaches them is recorded, so that a theorem can say that a call
  never did.
\<close>

record td_error =
  td_code :: int
  td_message :: string

text \<open>\<^verbatim>\<open>session.RefusedError\<close>: a call stopped before it reached Telegram.\<close>

record refused =
  r_reason :: string
  r_scope :: string
  r_until :: time
  r_cause :: string
  r_limit :: "limit option"

text \<open>
  The errors of the worker: plain ones with their text, the sentinels the handlers tell apart, a
  wrapped error (\<^verbatim>\<open>fmt.Errorf\<close> with \<^verbatim>\<open>%w\<close>) with the text before it, and the typed ones.
\<close>

datatype err =
    EMsg string
  | EWrap string err
  | ETd td_error
  | ERefused refused
  | ELocalPathDenied
  | EBadFileRef
  | ELoginPending ident
  | ERehydrateExpired
  | ELoginCanceled
  | ELoginRestart
  | EContext
  | EDb db_err

text \<open>\<^verbatim>\<open>errors.As(err, &te)\<close> and \<^verbatim>\<open>errors.As(err, &re)\<close> look through wrapping.\<close>

fun as_td :: "err \<Rightarrow> td_error option" where
  "as_td (ETd te) = Some te"
| "as_td (EWrap _ e) = as_td e"
| "as_td _ = None"

fun as_refused :: "err \<Rightarrow> refused option" where
  "as_refused (ERefused re) = Some re"
| "as_refused (EWrap _ e) = as_refused e"
| "as_refused _ = None"

subsection \<open>Flood waits\<close>

definition retry_marker :: string where "retry_marker = ''retry after ''"

definition RetryAfter :: "td_error \<Rightarrow> int option" where
  "RetryAfter e =
     (if td_code e \<noteq> 429 \<and> td_code e \<noteq> 420 then None
      else (case str_last_index (td_message e) retry_marker of
              None \<Rightarrow> None
            | Some i \<Rightarrow>
                (case parse_int64 (trim_space (drop (i + length retry_marker) (td_message e))) of
                   None \<Rightarrow> None
                 | Some n \<Rightarrow> if n < 0 then None else Some n)))"

subsection \<open>Requests and answers\<close>

record rawRequest =
  rq_method :: string
  rq_params :: "(string \<times> json) list"
  rq_extra :: string

definition MarshalJSON :: "rawRequest \<Rightarrow> json" where
  "MarshalJSON r =
     (let obj = map_put ''@type'' (JStr (rq_method r)) (last_wins (rq_params r));
          obj' = (if rq_extra r \<noteq> '''' then map_put ''@extra'' (JStr (rq_extra r)) obj else obj)
      in marshal_map obj')"

definition td_error_fields :: "td_error field list" where
  "td_error_fields =
     [(''code'', on_field td_code (\<lambda>x e. e\<lparr>td_code := x\<rparr>) dec_int64),
      (''message'', on_field td_message (\<lambda>x e. e\<lparr>td_message := x\<rparr>) dec_str)]"

text \<open>
  The client and TDLib behind it: the requests sent, what is answered (a transport error, or the
  answer's meta type and data), the extra that go-tdlib puts on the n-th request, and the bytes of an
  answer as text.
\<close>

record td_env =
  td_log :: "json list"
  td_answer :: "json list \<Rightarrow> json \<Rightarrow> err + (string \<times> json)"
  td_extra :: "nat \<Rightarrow> string"
  td_text :: "json \<Rightarrow> string"

definition parseTdError :: "(json \<Rightarrow> string) \<Rightarrow> json \<Rightarrow> err" where
  "parseTdError text_of data =
     (case unmarshal (dec_struct td_error_fields) (RawVal data) \<lparr>td_code = 0, td_message = ''''\<rparr> of
        (ok, e) \<Rightarrow>
          if \<not> ok \<or> td_message e = '''' then ETd \<lparr>td_code = 0, td_message = text_of data\<rparr>
          else ETd e)"

definition td_send :: "json \<Rightarrow> td_env \<Rightarrow> (err + (string \<times> json)) \<times> td_env" where
  "td_send q env = (td_answer env (td_log env) q, env\<lparr>td_log := td_log env @ [q]\<rparr>)"

text \<open>\<^verbatim>\<open>tdjson.Call\<close>: parameters that are no object are refused before anything is sent.\<close>

definition request_params :: "raw \<Rightarrow> err + (string \<times> json) list" where
  "request_params params =
     (if params = RawEmpty \<or> params = RawVal JNull then Inr []
      else (case unmarshal_map params of
              None \<Rightarrow> Inl (EWrap ''params must be a JSON object: '' (EMsg ''json''))
            | Some kvs \<Rightarrow> Inr kvs))"

definition td_Call :: "string \<Rightarrow> raw \<Rightarrow> td_env \<Rightarrow> (err + json) \<times> td_env" where
  "td_Call method params env =
     (case request_params params of
        Inl e \<Rightarrow> (Inl e, env)
      | Inr kvs \<Rightarrow>
          (let q = MarshalJSON \<lparr>rq_method = method, rq_params = kvs,
                                rq_extra = td_extra env (length (td_log env))\<rparr>
           in case td_send q env of
                (Inl e, env') \<Rightarrow> (Inl e, env')
              | (Inr (meta, data), env') \<Rightarrow>
                  if meta = ''error'' then (Inl (parseTdError (td_text env) data), env')
                  else (Inr data, env')))"

text \<open>
  \<^verbatim>\<open>tdjson.ExecuteSync\<close>: the same request handed to \<^verbatim>\<open>td_execute\<close>, which needs no client and so
  carries no extra.
\<close>

definition ExecuteSync ::
  "(json \<Rightarrow> err + (string \<times> json)) \<Rightarrow> (json \<Rightarrow> string) \<Rightarrow> string \<Rightarrow> raw \<Rightarrow> err + json" where
  "ExecuteSync execute text_of method params =
     (case request_params params of
        Inl e \<Rightarrow> Inl e
      | Inr kvs \<Rightarrow>
          (case execute (MarshalJSON \<lparr>rq_method = method, rq_params = kvs, rq_extra = ''''\<rparr>) of
             Inl e \<Rightarrow> Inl e
           | Inr (meta, data) \<Rightarrow>
               if meta = ''error'' then Inl (parseTdError text_of data) else Inr data))"

subsection \<open>Lemmas on decimal numbers\<close>

lemma digits_of_digits: "list_all is_digit (digits_of n) \<and> digits_of n \<noteq> []"
proof (induction n rule: digits_of.induct)
  case (1 n)
  have d: "m < 10 \<Longrightarrow> is_digit (char_of (48 + m))" for m :: nat
    by (simp add: in_range_def)
  show ?case
    using 1 d by (cases "n < 10") (simp_all add: digits_of.simps [of n])
qed

lemma digits_of_value: "foldl (\<lambda>n c. 10 * n + digit_val c) 0 (digits_of n) = int n"
proof (induction n rule: digits_of.induct)
  case (1 n)
  have d: "m < 10 \<Longrightarrow> digit_val (char_of (48 + m)) = int m" for m :: nat
    by (simp add: digit_val_def)
  show ?case
  proof (cases "n < 10")
    case True
    then show ?thesis by (simp add: digits_of.simps [of n] d)
  next
    case False
    then have "foldl (\<lambda>n c. 10 * n + digit_val c) 0 (digits_of (n div 10)) = int (n div 10)"
      using 1 by simp
    then show ?thesis using False d [of "n mod 10"]
      by (simp add: digits_of.simps [of n]) presburger
  qed
qed

lemma parse_digits_of: "parse_digits (digits_of n) = Some (int n)"
  using digits_of_digits digits_of_value by (simp add: parse_digits_def)

lemma is_digit_not: "is_digit c \<Longrightarrow> c \<noteq> CHR ''-'' \<and> c \<noteq> CHR ''+'' \<and> \<not> is_space c \<and> c \<noteq> CHR ''r''"
  by (auto simp: in_range_def is_space_def)

lemma parse_int64_digits:
  assumes "int n \<le> max_int64"
  shows "parse_int64 (digits_of n) = Some (int n)"
proof -
  obtain c cs where c: "digits_of n = c # cs" using digits_of_digits by (cases "digits_of n") auto
  then have "is_digit c" using digits_of_digits [of n] by simp
  then have "c \<noteq> CHR ''-'' \<and> c \<noteq> CHR ''+''" by (simp add: is_digit_not)
  then show ?thesis
    using parse_digits_of [of n] assms by (simp add: parse_int64_def c min_int64_def)
qed

lemma trim_by_id: "(\<forall>c \<in> set s. \<not> P c) \<Longrightarrow> trim_by P s = s"
proof -
  assume a: "\<forall>c \<in> set s. \<not> P c"
  then have "dropWhile P s = s" by (cases s) auto
  moreover have "\<forall>c \<in> set (rev s). \<not> P c" using a by simp
  then have "dropWhile P (rev s) = rev s" by (cases "rev s") auto
  ultimately show ?thesis by (simp add: trim_by_def)
qed

lemma str_last_index_None: "c \<notin> set s \<Longrightarrow> str_last_index s (c # sub) = None"
  by (induction s) (auto simp: has_prefix_def)

lemma str_last_index_append:
  "str_last_index s sub = Some i \<Longrightarrow> str_last_index (p @ s) sub = Some (length p + i)"
  by (induction p) auto

lemma retry_marker_index:
  assumes "list_all is_digit ds"
  shows "str_last_index (p @ retry_marker @ ds) retry_marker = Some (length p)"
proof -
  have "CHR ''r'' \<notin> set ds" using assms is_digit_not by (auto simp: list_all_iff)
  then have "str_last_index ds retry_marker = None" by (simp add: retry_marker_def str_last_index_None)
  then have "str_last_index (retry_marker @ ds) retry_marker = Some 0"
    by (simp add: retry_marker_def has_prefix_def)
  from str_last_index_append [OF this, of p] show ?thesis by simp
qed

text \<open>
  C40: the wait is read back from TDLib's text: for the codes of a flood wait, any message that ends in
  \<^verbatim>\<open>retry after N\<close>, whatever precedes it, gives exactly the N seconds.
\<close>

theorem RetryAfter_roundtrip:
  assumes "td_code e \<in> {429, 420}" and "td_message e = p @ ''retry after '' @ itoa n"
    and "0 \<le> n" and "n \<le> max_int64"
  shows "RetryAfter e = Some n"
proof -
  have m: "td_message e = p @ retry_marker @ digits_of (nat n)"
    using assms by (simp add: itoa_def retry_marker_def)
  have "trim_space (digits_of (nat n)) = digits_of (nat n)"
    unfolding trim_space_def using digits_of_digits [of "nat n"] is_digit_not
    by (intro trim_by_id) (auto simp: list_all_iff)
  moreover have "str_last_index (td_message e) retry_marker = Some (length p)"
    unfolding m using digits_of_digits [of "nat n"] by (simp add: retry_marker_index)
  moreover have "drop (length p + length retry_marker) (td_message e) = digits_of (nat n)"
    unfolding m by simp
  moreover have "parse_int64 (digits_of (nat n)) = Some n"
    using assms(3,4) parse_int64_digits [of "nat n"] by simp
  ultimately show ?thesis using assms(1,3) by (auto simp: RetryAfter_def)
qed

theorem RetryAfter_roundtrip_witness:
  "RetryAfter \<lparr>td_code = 429, td_message = ''Too Many Requests: retry after 3600''\<rparr> = Some 3600"
proof (rule RetryAfter_roundtrip [where p = "''Too Many Requests: ''"])
  have "digits_of 3600 = ''3600''" by code_simp
  then show "td_message \<lparr>td_code = 429, td_message = ''Too Many Requests: retry after 3600''\<rparr>
      = ''Too Many Requests: '' @ ''retry after '' @ itoa 3600"
    by (simp add: itoa_def)
qed (simp_all add: max_int64_def)

lemma RetryAfter_nonneg: "RetryAfter e = Some n \<Longrightarrow> 0 \<le> n \<and> td_code e \<in> {429, 420}"
  by (auto simp: RetryAfter_def split: if_splits option.splits)

subsection \<open>What is sent\<close>

lemma MarshalJSON_keys:
  "distinct (map fst (map_put k v (last_wins kvs)))"
  "distinct (map fst (map_put k' v' (map_put k v (last_wins kvs))))"
  by (simp_all add: map_put_distinct last_wins_distinct)

lemma MarshalJSON_type: "obj_get (MarshalJSON r) ''@type'' = Some (JStr (rq_method r))"
  by (simp add: MarshalJSON_def Let_def obj_get_marshal_map MarshalJSON_keys map_of_map_put del: map_of_eq_Some_iff)

lemma MarshalJSON_other:
  "k \<noteq> ''@type'' \<Longrightarrow> k \<noteq> ''@extra'' \<Longrightarrow> obj_get (MarshalJSON r) k = map_of (rev (rq_params r)) k"
  by (simp add: MarshalJSON_def Let_def obj_get_marshal_map MarshalJSON_keys map_of_map_put map_of_last_wins
      del: map_of_eq_Some_iff)

text \<open>
  The request that goes out is the one asked for: its \<^verbatim>\<open>@type\<close> is the method even when the
  parameters carry an \<^verbatim>\<open>@type\<close> of their own, so a method the gateway reserves cannot be smuggled in
  by the parameters; and every other parameter arrives as given, the last of duplicates.
\<close>

theorem MarshalJSON_method_wins:
  "obj_get (MarshalJSON r) ''@type'' = Some (JStr (rq_method r))
   \<and> (k \<noteq> ''@type'' \<and> k \<noteq> ''@extra'' \<longrightarrow> obj_get (MarshalJSON r) k = map_of (rev (rq_params r)) k)"
  by (simp add: MarshalJSON_type MarshalJSON_other)

theorem MarshalJSON_method_wins_witness:
  "obj_get (MarshalJSON \<lparr>rq_method = ''getMe'', rq_params = [(''@type'', JStr ''close''), (''a'', JInt 1)],
                         rq_extra = ''7''\<rparr>) ''a'' = Some (JInt 1)"
  using MarshalJSON_method_wins [of "\<lparr>rq_method = ''getMe'',
      rq_params = [(''@type'', JStr ''close''), (''a'', JInt 1)], rq_extra = ''7''\<rparr>" "''a''"]
  by simp

lemma td_Call_log:
  "td_Call m ps env = (r, env') \<Longrightarrow>
     td_log env' = td_log env \<or> (\<exists>q. td_log env' = td_log env @ [q] \<and> obj_get q ''@type'' = Some (JStr m))"
  using MarshalJSON_type
  by (auto simp: td_Call_def td_send_def Let_def split: sum.splits prod.splits if_splits)

end
