(* ===== verification/Sends.thy ===== *)
theory Sends
  imports Registry TdJson
begin

section \<open>The send registry\<close>

text \<open>
  \<^verbatim>\<open>internal/session/sends.go\<close>, the send results of \<^verbatim>\<open>uploads.go\<close> and the table \<open>sent_message\<close> of
  \<^verbatim>\<open>store.go\<close>. A send answers at once with a temporary message id; the final id or the error arrives
  later as an update, is queued by the receiver and written by a goroutine of its own. Registration and
  outcome therefore reach the table in either order.
\<close>

subsection \<open>Messages named by a send result\<close>

record sentRef =
  ref_chat :: int
  ref_id :: int
  ref_pending :: bool

datatype sendResultMessage =
  SendResult (sr_type: string) (sr_id: int) (sr_chat: int) (sr_sending: "string option")
    (sr_scheduling: "string option") (sr_messages: "sendResultMessage list")

definition zero_result :: sendResultMessage where
  "zero_result = SendResult '''' 0 0 None None []"

definition state_dec :: "string option dec" where
  "state_dec = dec_ptr '''' (dec_struct [(''@type'', on_field (\<lambda>x. x) (\<lambda>x _. x) dec_str)])"

text \<open>
  The struct refers to itself, so its decoder is unfolded to a depth; the depth of the value decoded is
  always enough (\<open>dec_result_depth\<close> below).
\<close>

fun set_type :: "string \<Rightarrow> sendResultMessage \<Rightarrow> sendResultMessage" where
  "set_type x (SendResult t i c s d ms) = SendResult x i c s d ms"
fun set_id :: "int \<Rightarrow> sendResultMessage \<Rightarrow> sendResultMessage" where
  "set_id x (SendResult t i c s d ms) = SendResult t x c s d ms"
fun set_chat :: "int \<Rightarrow> sendResultMessage \<Rightarrow> sendResultMessage" where
  "set_chat x (SendResult t i c s d ms) = SendResult t i x s d ms"
fun set_sending :: "string option \<Rightarrow> sendResultMessage \<Rightarrow> sendResultMessage" where
  "set_sending x (SendResult t i c s d ms) = SendResult t i c x d ms"
fun set_scheduling :: "string option \<Rightarrow> sendResultMessage \<Rightarrow> sendResultMessage" where
  "set_scheduling x (SendResult t i c s d ms) = SendResult t i c s x ms"
fun set_messages :: "sendResultMessage list \<Rightarrow> sendResultMessage \<Rightarrow> sendResultMessage" where
  "set_messages x (SendResult t i c s d ms) = SendResult t i c s d x"

definition result_fields :: "sendResultMessage list dec \<Rightarrow> sendResultMessage field list" where
  "result_fields dms =
     [(''@type'', on_field sr_type set_type dec_str),
      (''id'', on_field sr_id set_id dec_int64),
      (''chat_id'', on_field sr_chat set_chat dec_int64),
      (''sending_state'', on_field sr_sending set_sending state_dec),
      (''scheduling_state'', on_field sr_scheduling set_scheduling state_dec),
      (''messages'', on_field sr_messages set_messages dms)]"

primrec dec_result :: "nat \<Rightarrow> sendResultMessage dec" where
  "dec_result 0 = dec_struct (result_fields (\<lambda>j v. (False, v)))"
| "dec_result (Suc n) = dec_struct (result_fields (dec_list zero_result (dec_result n)))"

fun json_depth :: "json \<Rightarrow> nat" where
  "json_depth (JArr xs) = Suc (foldr max (map json_depth xs) 0)"
| "json_depth (JObj kvs) = Suc (foldr max (map (\<lambda>kv. json_depth (snd kv)) kvs) 0)"
| "json_depth _ = 0"

definition ref :: "sendResultMessage \<Rightarrow> sentRef" where
  "ref m = \<lparr>ref_chat = sr_chat m, ref_id = sr_id m,
            ref_pending = (sr_sending m = Some ''messageSendingStatePending'' \<and> sr_scheduling m = None)\<rparr>"

definition extractSentRefs :: "json \<Rightarrow> sentRef list" where
  "extractSentRefs res =
     (case unmarshal (dec_result (json_depth res)) (RawVal res) zero_result of
        (ok, obj) \<Rightarrow>
          if \<not> ok then []
          else if sr_type obj = ''message'' \<and> sr_id obj \<noteq> 0 then [ref obj]
          else map ref (filter (\<lambda>mm. sr_id mm \<noteq> 0) (sr_messages obj)))"

subsection \<open>The table\<close>

definition sent_key :: "sent_row \<Rightarrow> ident \<times> int \<times> int" where
  "sent_key r = (m_session r, m_chat r, m_temp r)"

definition RegisterSend :: "time \<Rightarrow> ident \<Rightarrow> int \<Rightarrow> int \<Rightarrow> registry \<Rightarrow> db_err + registry" where
  "RegisterSend now sid chat temp reg =
     (if \<not> db_up reg then Inl DbDown
      else if \<not> is_uuid reg sid then Inl BadUuid
      else if list_ex (\<lambda>r. sent_key r = (sid, chat, temp)) (sent reg) then Inr reg
      else if \<not> session_exists sid reg then Inl ForeignKey
      else Inr (reg\<lparr>sent := sent reg @ [\<lparr>m_session = sid, m_chat = chat, m_temp = temp, m_status = ''pending'',
                  m_final = None, m_error = None, m_created = now\<rparr>]\<rparr>))"

definition RecordSendOutcome ::
  "time \<Rightarrow> ident \<Rightarrow> int \<Rightarrow> int \<Rightarrow> int \<Rightarrow> json option \<Rightarrow> registry \<Rightarrow> db_err + registry" where
  "RecordSendOutcome now sid chat temp finalID tdErr reg =
     (let status = (if tdErr = None then ''sent'' else ''failed'');
          final = (if tdErr \<noteq> None \<or> finalID = 0 then None else Some finalID)
      in if \<not> db_up reg then Inl DbDown
         else if \<not> is_uuid reg sid then Inl BadUuid
         else if list_ex (\<lambda>r. sent_key r = (sid, chat, temp)) (sent reg)
         then Inr (reg\<lparr>sent := map (\<lambda>r. if sent_key r = (sid, chat, temp)
                     then r\<lparr>m_status := status, m_final := final, m_error := tdErr\<rparr> else r) (sent reg)\<rparr>)
         else if \<not> session_exists sid reg then Inl ForeignKey
         else Inr (reg\<lparr>sent := sent reg @ [\<lparr>m_session = sid, m_chat = chat, m_temp = temp, m_status = status,
                     m_final = final, m_error = tdErr, m_created = now\<rparr>]\<rparr>))"

record SentMessage =
  sm_status :: string
  sm_final :: int
  sm_error :: "json option"

definition GetSend :: "ident \<Rightarrow> int \<Rightarrow> int \<Rightarrow> registry \<Rightarrow> db_err + SentMessage option" where
  "GetSend sid chat temp reg =
     (if \<not> db_up reg then Inl DbDown
      else if \<not> is_uuid reg sid then Inl BadUuid
      else Inr (map_option (\<lambda>r. \<lparr>sm_status = m_status r, sm_final = (case m_final r of None \<Rightarrow> 0 | Some f \<Rightarrow> f),
                                sm_error = m_error r\<rparr>)
                  (find (\<lambda>r. sent_key r = (sid, chat, temp)) (sent reg))))"

definition PurgeSends :: "time \<Rightarrow> registry \<Rightarrow> db_err + (nat \<times> registry)" where
  "PurgeSends t reg =
     (if \<not> db_up reg then Inl DbDown
      else Inr (length (filter (\<lambda>r. m_created r < t) (sent reg)),
                reg\<lparr>sent := filter (\<lambda>r. \<not> m_created r < t) (sent reg)\<rparr>))"

subsection \<open>Registering and resolving\<close>

text \<open>A store error is logged and the table stays as it was.\<close>

definition logged :: "(registry \<Rightarrow> db_err + registry) \<Rightarrow> registry \<Rightarrow> registry" where
  "logged f reg = (case f reg of Inl _ \<Rightarrow> reg | Inr reg' \<Rightarrow> reg')"

definition registerSends :: "time \<Rightarrow> ident \<Rightarrow> json \<Rightarrow> registry \<Rightarrow> registry" where
  "registerSends now sid res reg =
     foldl (\<lambda>rg r. if ref_pending r then logged (RegisterSend now sid (ref_chat r) (ref_id r)) rg else rg)
       reg (extractSentRefs res)"

record sendOutcome =
  o_session :: ident
  o_chat :: int
  o_temp :: int
  o_final :: int
  o_err :: "json option"

definition sendQueue :: nat where "sendQueue = 256"

record outcome_update =
  ou_old :: int
  ou_id :: int
  ou_chat :: int
  ou_error :: "td_error option"

definition outcome_message_fields :: "outcome_update field list" where
  "outcome_message_fields =
     [(''id'', on_field ou_id (\<lambda>x u. u\<lparr>ou_id := x\<rparr>) dec_int64),
      (''chat_id'', on_field ou_chat (\<lambda>x u. u\<lparr>ou_chat := x\<rparr>) dec_int64)]"

definition outcome_fields :: "outcome_update field list" where
  "outcome_fields =
     [(''old_message_id'', on_field ou_old (\<lambda>x u. u\<lparr>ou_old := x\<rparr>) dec_int64),
      (''message'', dec_struct outcome_message_fields),
      (''error'', on_field ou_error (\<lambda>x u. u\<lparr>ou_error := x\<rparr>)
         (dec_ptr \<lparr>td_code = 0, td_message = ''''\<rparr> (dec_struct td_error_fields)))]"

definition outcome_of :: "ident \<Rightarrow> json \<Rightarrow> sendOutcome option" where
  "outcome_of sid upd =
     (case unmarshal (dec_struct outcome_fields) (RawVal upd)
             \<lparr>ou_old = 0, ou_id = 0, ou_chat = 0, ou_error = None\<rparr> of
        (ok, u) \<Rightarrow>
          if \<not> ok \<or> ou_old u = 0 \<or> ou_chat u = 0 then None
          else Some \<lparr>o_session = sid, o_chat = ou_chat u, o_temp = ou_old u, o_final = ou_id u,
                     o_err = map_option (\<lambda>e. JObj [(''code'', JInt (td_code e)), (''message'', JStr (td_message e)),
                                                  (''source'', JStr ''tdlib'')]) (ou_error u)\<rparr>)"

text \<open>The channel between the receiver and the writer: full, it drops the outcome.\<close>

definition noteSendOutcome :: "ident \<Rightarrow> json \<Rightarrow> sendOutcome list \<Rightarrow> sendOutcome list" where
  "noteSendOutcome sid upd q =
     (case outcome_of sid upd of
        None \<Rightarrow> q
      | Some ou \<Rightarrow> if length q < sendQueue then q @ [ou] else q)"

fun runSendWriter :: "time \<Rightarrow> sendOutcome list \<Rightarrow> registry \<Rightarrow> registry" where
  "runSendWriter now [] reg = reg"
| "runSendWriter now (ou # q) reg =
     runSendWriter now q
       (logged (RecordSendOutcome now (o_session ou) (o_chat ou) (o_temp ou) (o_final ou) (o_err ou)) reg)"

subsection \<open>The depth is enough\<close>

lemma dec_fields_cong:
  assumes "\<And>k j s. (k, j) \<in> set kjs \<Longrightarrow>
     map_option (\<lambda>d. d j s) (find_field fs k) = map_option (\<lambda>d. d j s) (find_field fs' k)"
  shows "dec_fields fs kjs s = dec_fields fs' kjs s"
  using assms
proof (induction kjs arbitrary: s)
  case Nil
  then show ?case by simp
next
  case (Cons kj kjs)
  obtain k j where kj: "kj = (k, j)" by (cases kj)
  have h: "map_option (\<lambda>d. d j s) (find_field fs k) = map_option (\<lambda>d. d j s) (find_field fs' k)" for s
    using Cons.prems kj by simp
  have t: "dec_fields fs kjs s = dec_fields fs' kjs s" for s using Cons by simp
  show ?case
    using h [of s] by (auto simp: kj t split: option.splits)
qed

lemma dec_elems_cong:
  "(\<And>j v. j \<in> set js \<Longrightarrow> d j v = d' j v) \<Longrightarrow> dec_elems z d js vs = dec_elems z d' js vs"
  by (induction js arbitrary: vs) auto

lemma find_result_field:
  "find_field (result_fields dms) k =
     (if find_field (result_fields dms') k = None then None
      else if fold_name k = ''messages'' then Some (on_field sr_messages set_messages dms)
      else find_field (result_fields dms') k)"
  by (auto simp: find_field_def result_fields_def fold_name.simps to_lower_def in_range_def split: option.splits if_splits)

lemma foldr_max_le: "foldr max xs 0 \<le> (n :: nat) \<Longrightarrow> x \<in> set xs \<Longrightarrow> x \<le> n"
  by (induction xs) auto

lemma dec_result_depth: "json_depth j \<le> n \<Longrightarrow> dec_result (n + k) j v = dec_result n j v"
proof (induction n arbitrary: j v)
  case 0
  then show ?case by (cases k; cases j) (auto simp: dec_struct_def)
next
  case (Suc n)
  let ?d = "dec_list zero_result (dec_result n)" and ?d' = "dec_list zero_result (dec_result (n + k))"
  show ?case
  proof (cases j)
    case (JObj kvs)
    have el: "?d' x vs = ?d x vs" if "(key, x) \<in> set kvs" for key x vs
    proof (cases x)
      case (JArr js)
      have "json_depth y \<le> n" if "y \<in> set js" for y
        using foldr_max_le [of "map (\<lambda>kv. json_depth (snd kv)) kvs" n "json_depth x"] \<open>(key, x) \<in> set kvs\<close>
          foldr_max_le [of "map json_depth js" "n - 1" "json_depth y"] Suc.prems JObj JArr that by force
      then show ?thesis using Suc.IH by (auto simp: dec_list_def JArr intro: dec_elems_cong)
    qed (simp_all add: dec_list_def)
    have "dec_fields (result_fields ?d') kvs v = dec_fields (result_fields ?d) kvs v"
    proof (rule dec_fields_cong)
      fix key x s
      assume "(key, x) \<in> set kvs"
      then show "map_option (\<lambda>d. d x s) (find_field (result_fields ?d') key)
          = map_option (\<lambda>d. d x s) (find_field (result_fields ?d) key)"
        using el find_result_field [of ?d' key ?d] find_result_field [of ?d key ?d]
        by (auto simp: on_field_def split: if_splits)
    qed
    then show ?thesis by (simp add: dec_struct_def JObj)
  qed (simp_all add: dec_struct_def)
qed

subsection \<open>The contract of the table\<close>

text \<open>
  An outcome overwrites, a registration never does: so what a key shows in the end depends on the
  outcomes alone, whatever the interleaving.
\<close>

datatype ('k, 'v) send_event = Registered 'k | Resolved 'k 'v

fun last_outcome :: "'k \<Rightarrow> ('k, 'v) send_event list \<Rightarrow> 'v option" where
  "last_outcome k [] = None"
| "last_outcome k (e # es) =
     (case last_outcome k es of
        Some x \<Rightarrow> Some x
      | None \<Rightarrow> (case e of Resolved k' x \<Rightarrow> if k' = k then Some x else None | Registered _ \<Rightarrow> None))"

locale send_table =
  fixes look :: "'s \<Rightarrow> 'k \<Rightarrow> 'v option"
    and reg :: "'k \<Rightarrow> 's \<Rightarrow> 's"
    and rec :: "'k \<Rightarrow> 'v \<Rightarrow> 's \<Rightarrow> 's"
    and ok :: "'s \<Rightarrow> 'k \<Rightarrow> bool"
    and pending :: 'v
    and known :: "'v \<Rightarrow> bool"
  assumes look_reg: "ok s k \<Longrightarrow> look (reg k s) k' = (if k' = k \<and> look s k = None then Some pending else look s k')"
    and look_rec: "ok s k \<Longrightarrow> known v \<Longrightarrow> look (rec k v s) k' = (if k' = k then Some v else look s k')"
    and ok_reg: "ok (reg k s) k' = ok s k'"
    and ok_rec: "ok (rec k v s) k' = ok s k'"
begin

fun play :: "('k, 'v) send_event list \<Rightarrow> 's \<Rightarrow> 's" where
  "play [] s = s"
| "play (Registered k # es) s = play es (reg k s)"
| "play (Resolved k v # es) s = play es (rec k v s)"

fun event_ok :: "'s \<Rightarrow> ('k, 'v) send_event \<Rightarrow> bool" where
  "event_ok s (Registered k) = ok s k"
| "event_ok s (Resolved k v) = (ok s k \<and> known v)"

lemma event_ok_step: "event_ok (reg k s) e = event_ok s e" "event_ok (rec k v s) e = event_ok s e"
  by (cases e; simp add: ok_reg ok_rec)+

lemma look_play:
  "\<forall>e \<in> set es. event_ok s e \<Longrightarrow>
   look (play es s) k =
     (case last_outcome k es of
        Some v \<Rightarrow> Some v
      | None \<Rightarrow> (case look s k of
                   Some v \<Rightarrow> Some v
                 | None \<Rightarrow> if Registered k \<in> set es then Some pending else None))"
proof (induction es s rule: play.induct)
  case (1 s)
  then show ?case by (simp split: option.splits)
next
  case (2 k' es s)
  then have "ok s k'" "\<forall>e \<in> set es. event_ok (reg k' s) e" by (auto simp: event_ok_step)
  then show ?case using "2.IH" by (auto simp: look_reg split: option.splits)
next
  case (3 k' v es s)
  then have "ok s k'" "known v" "\<forall>e \<in> set es. event_ok (rec k' v s) e" by (auto simp: event_ok_step)
  then show ?case using "3.IH" by (auto simp: look_rec split: option.splits)
qed

end

type_synonym send_key = "ident \<times> int \<times> int"

definition sent_look :: "registry \<Rightarrow> send_key \<Rightarrow> SentMessage option" where
  "sent_look rg k = (case k of (sid, chat, temp) \<Rightarrow> (case GetSend sid chat temp rg of Inl _ \<Rightarrow> None | Inr m \<Rightarrow> m))"

definition sent_ok :: "registry \<Rightarrow> send_key \<Rightarrow> bool" where
  "sent_ok rg k \<longleftrightarrow> db_up rg \<and> is_uuid rg (fst k) \<and> session_exists (fst k) rg"

definition sent_reg :: "time \<Rightarrow> send_key \<Rightarrow> registry \<Rightarrow> registry" where
  "sent_reg now k = (case k of (sid, chat, temp) \<Rightarrow> logged (RegisterSend now sid chat temp))"

definition sent_rec :: "time \<Rightarrow> send_key \<Rightarrow> SentMessage \<Rightarrow> registry \<Rightarrow> registry" where
  "sent_rec now k v = (case k of (sid, chat, temp) \<Rightarrow>
     logged (RecordSendOutcome now sid chat temp (sm_final v) (sm_error v)))"

text \<open>What a resolved send reads like: sent with a final id, or failed with an error and none.\<close>

definition is_outcome :: "SentMessage \<Rightarrow> bool" where
  "is_outcome v \<longleftrightarrow> (sm_error v = None \<and> sm_status v = ''sent'') \<or> (sm_error v \<noteq> None \<and> sm_status v = ''failed'' \<and> sm_final v = 0)"

definition pending_send :: SentMessage where
  "pending_send = \<lparr>sm_status = ''pending'', sm_final = 0, sm_error = None\<rparr>"

lemma find_map_key:
  "(\<And>x. key (f x) = key x) \<Longrightarrow> find (\<lambda>x. key x = k) (map (\<lambda>x. if key x = k' then f x else x) xs) =
     (if k = k' then map_option f (find (\<lambda>x. key x = k) xs) else find (\<lambda>x. key x = k) xs)"
  by (induction xs) auto

lemma find_append_key: "find P (xs @ ys) = (case find P xs of None \<Rightarrow> find P ys | Some x \<Rightarrow> Some x)"
  by (induction xs) auto

lemma list_ex_find: "list_ex P xs \<longleftrightarrow> find P xs \<noteq> None"
  by (induction xs) auto

lemma sent_key_update [simp]:
  "sent_key (r\<lparr>m_status := a, m_final := b, m_error := c\<rparr>) = sent_key r"
  by (simp add: sent_key_def)

definition shown :: "sent_row \<Rightarrow> SentMessage" where
  "shown r = \<lparr>sm_status = m_status r, sm_final = (case m_final r of None \<Rightarrow> 0 | Some f \<Rightarrow> f), sm_error = m_error r\<rparr>"

definition sent_row_at :: "registry \<Rightarrow> send_key \<Rightarrow> sent_row option" where
  "sent_row_at rg k = find (\<lambda>r. sent_key r = k) (sent rg)"

lemma sent_look_row:
  "sent_look rg k = (if db_up rg \<and> is_uuid rg (fst k) then map_option shown (sent_row_at rg k) else None)"
  by (auto simp: sent_look_def GetSend_def sent_row_at_def shown_def split: prod.splits intro: option.map_cong)

lemma sent_row_at_append:
  "sent rg' = sent rg @ [r] \<Longrightarrow> sent_row_at rg' k' =
     (case sent_row_at rg k' of None \<Rightarrow> if sent_key r = k' then Some r else None | Some x \<Rightarrow> Some x)"
  by (simp add: sent_row_at_def find_append_key split: option.split)

lemma sent_row_rec:
  assumes "sent_ok rg k" and "is_outcome v"
  shows "map_option shown (sent_row_at (sent_rec now k v rg) k') =
    (if k' = k then Some v else map_option shown (sent_row_at rg k'))"
proof (cases "sent_row_at rg k = None")
  case True
  obtain sid chat temp where k: "k = (sid, chat, temp)" by (cases k)
  let ?row = "\<lparr>m_session = sid, m_chat = chat, m_temp = temp, m_status = (if sm_error v = None then ''sent'' else ''failed''),
      m_final = (if sm_error v \<noteq> None \<or> sm_final v = 0 then None else Some (sm_final v)), m_error = sm_error v,
      m_created = now\<rparr>"
  have "sent (sent_rec now k v rg) = sent rg @ [?row]"
    using True assms(1)
    by (simp add: sent_row_at_def sent_rec_def logged_def RecordSendOutcome_def sent_ok_def list_ex_find k Let_def)
  then have at: "sent_row_at (sent_rec now k v rg) k' =
      (case sent_row_at rg k' of None \<Rightarrow> if k = k' then Some ?row else None | Some r \<Rightarrow> Some r)"
    using sent_row_at_append [of _ rg ?row k'] by (simp add: sent_key_def k)
  have "shown ?row = v" using assms(2) by (cases v) (auto simp: shown_def is_outcome_def)
  then show ?thesis using True unfolding at by (cases "sent_row_at rg k'") auto
next
  case False
  obtain sid chat temp where k: "k = (sid, chat, temp)" by (cases k)
  let ?f = "\<lambda>r. r\<lparr>m_status := (if sm_error v = None then ''sent'' else ''failed''),
      m_final := (if sm_error v \<noteq> None \<or> sm_final v = 0 then None else Some (sm_final v)), m_error := sm_error v\<rparr>"
  have "sent (sent_rec now k v rg) = map (\<lambda>r. if sent_key r = k then ?f r else r) (sent rg)"
    using False assms(1)
    by (simp add: sent_row_at_def sent_rec_def logged_def RecordSendOutcome_def sent_ok_def list_ex_find k Let_def)
  then have "sent_row_at (sent_rec now k v rg) k' =
      (if k' = k then map_option ?f (sent_row_at rg k') else sent_row_at rg k')"
    using find_map_key [of sent_key ?f k' k "sent rg"] by (simp add: sent_row_at_def)
  moreover have "shown (?f r) = v" for r using assms(2) by (auto simp: shown_def is_outcome_def)
  ultimately show ?thesis using False by (auto simp: option.map_comp comp_def)
qed

lemma sent_rec_frame:
  "db_up (sent_rec now k v rg) = db_up rg" "is_uuid (sent_rec now k v rg) = is_uuid rg"
  by (auto simp: sent_rec_def logged_def RecordSendOutcome_def Let_def split: prod.splits)

interpretation sent_table: send_table sent_look "sent_reg now" "sent_rec now" sent_ok pending_send is_outcome
  for now
proof
  fix rg :: registry and k k' :: send_key and v :: SentMessage
  obtain sid chat temp where k: "k = (sid, chat, temp)" by (cases k)
  obtain sid' chat' temp' where k': "k' = (sid', chat', temp')" by (cases k')
  show "sent_ok (sent_reg now k rg) k' = sent_ok rg k'"
    by (auto simp: sent_ok_def sent_reg_def k logged_def RegisterSend_def session_exists_def)
  show "sent_ok (sent_rec now k v rg) k' = sent_ok rg k'"
    by (auto simp: sent_ok_def sent_rec_def k logged_def RecordSendOutcome_def session_exists_def Let_def)
  assume o: "sent_ok rg k"
  show "sent_look (sent_reg now k rg) k' =
      (if k' = k \<and> sent_look rg k = None then Some pending_send else sent_look rg k')"
    using o by (auto simp: sent_look_def sent_reg_def k k' logged_def RegisterSend_def GetSend_def sent_ok_def
        list_ex_find find_append_key sent_key_def pending_send_def split: option.splits)
  assume "is_outcome v"
  then show "sent_look (sent_rec now k v rg) k' = (if k' = k then Some v else sent_look rg k')"
    using o sent_row_rec [OF o, of v now k'] by (auto simp: sent_look_row sent_rec_frame sent_ok_def)
qed

subsection \<open>Any interleaving\<close>

text \<open>The writes of the two goroutines, in the order the database sees them.\<close>

fun send_writes :: "time \<Rightarrow> (send_key, SentMessage) send_event list \<Rightarrow> registry \<Rightarrow> registry" where
  "send_writes now [] rg = rg"
| "send_writes now (Registered (sid, chat, temp) # es) rg =
     send_writes now es (logged (RegisterSend now sid chat temp) rg)"
| "send_writes now (Resolved (sid, chat, temp) v # es) rg =
     send_writes now es (logged (RecordSendOutcome now sid chat temp (sm_final v) (sm_error v)) rg)"

lemma send_writes_play: "send_writes now es rg = sent_table.play now es rg"
proof -
  have r: "logged (RegisterSend now sid chat temp) = sent_reg now (sid, chat, temp)"
    "logged (RecordSendOutcome now sid chat temp (sm_final v) (sm_error v)) = sent_rec now (sid, chat, temp) v"
    for now sid chat temp v by (simp_all add: sent_reg_def sent_rec_def)
  show ?thesis by (induction now es rg rule: send_writes.induct) (simp_all add: r)
qed



text \<open>What the receiver queues is always an outcome in this sense.\<close>

lemma outcome_of_known:
  "outcome_of sid upd = Some ou \<Longrightarrow>
   o_session ou = sid \<and> o_temp ou \<noteq> 0 \<and> o_chat ou \<noteq> 0"
  by (auto simp: outcome_of_def split: prod.splits if_splits)

end
