(* ===== verification/Gateway.thy ===== *)
theory Gateway
  imports Http Subscriptions Workers Sends
begin

section \<open>The gateway: authentication, routing to workers, registry handlers\<close>

text \<open>
  \<^verbatim>\<open>internal/router/router.go\<close>. A handler takes the request, with the scoped token \<open>auth\<close> tagged it
  with if any, and the values the mux found in its path; it answers and may change the registry.
  What is not of this program is in the record \<open>gateway\<close>: the hash of a token's secret, the texts of
  database errors and of times, a fresh token, whether a worker's address parses.
\<close>

record gateway =
  gw_master :: string
  gw_stale :: duration
  gw_sha256 :: "string \<Rightarrow> bytes"
  gw_dbtext :: "db_err \<Rightarrow> string"
  gw_time :: "time \<Rightarrow> string"
  gw_parse_time :: "string \<Rightarrow> time option"
  gw_newtoken :: "string option"
  gw_url_ok :: "string \<Rightarrow> bool"
  gw_newid :: ident
  gw_now :: time

definition tokenIDHeader :: string where "tokenIDHeader = ''X-Tgcontrol-Token-Id''"
definition maxBodyBytes :: int where "maxBodyBytes = 1048576"

record call_of =
  rc_req :: request
  rc_token :: "ident option"
  rc_vars :: "(string \<times> string) list"

definition path_id :: "call_of \<Rightarrow> ident" where
  "path_id c = path_value (rc_vars c) ''id''"

definition tokenOf :: "call_of \<Rightarrow> ident" where
  "tokenOf c = (case rc_token c of None \<Rightarrow> '''' | Some t \<Rightarrow> t)"

text \<open>A statement, which fails when the database does not answer; and the 502 that comes of it.\<close>

definition ask :: "registry \<Rightarrow> (db_err + 'a) \<Rightarrow> db_err + 'a" where
  "ask reg x = (if db_up reg then x else Inl DbDown)"

definition writeErr_db :: "gateway \<Rightarrow> db_err \<Rightarrow> reply" where
  "writeErr_db gw e = gateway_error 502 (gw_dbtext gw e)"

subsection \<open>Who may pass\<close>

definition isFilesPath :: "string \<Rightarrow> bool" where
  "isFilesPath p \<longleftrightarrow> p = ''/v1/files'' \<or> has_prefix p ''/v1/files/''"

definition part :: "string list \<Rightarrow> nat \<Rightarrow> string" where
  "part ps i = (if i < length ps then ps ! i else '''')"

definition sessionTarget :: "string \<Rightarrow> string \<Rightarrow> ident option" where
  "sessionTarget m path =
     (let parts = path_parts path; n = length parts
      in if n < 3 \<or> part parts 0 \<noteq> ''v1'' \<or> (part parts 1 \<noteq> ''user'' \<and> part parts 1 \<noteq> ''bot'') then None
         else if m = ''GET'' \<and> n = 3 then Some (part parts 2)
         else if m = ''POST'' \<and> n = 4 \<and> part parts 3 = ''call'' then Some (part parts 2)
         else if m = ''GET'' \<and> n = 5 \<and> part parts 3 = ''files'' then Some (part parts 2)
         else if m = ''GET'' \<and> n = 4 \<and> part parts 3 = ''sends'' then Some (part parts 2)
         else if m = ''GET'' \<and> n = 4 \<and> part parts 3 = ''limits'' then Some (part parts 2)
         else if 5 \<le> n \<and> part parts 3 = ''updates'' \<and> part parts 4 = ''subscriptions''
                 \<and> (n = 5 \<and> (m = ''GET'' \<or> m = ''POST'') \<or> n = 6 \<and> (m = ''GET'' \<or> m = ''DELETE''))
         then Some (part parts 2)
         else None)"

text \<open>Refused with an answer, or let through, tagged with the id of a scoped token or not.\<close>

definition auth :: "gateway \<Rightarrow> request \<Rightarrow> registry \<Rightarrow> reply + ident option" where
  "auth gw r reg =
     (let path = url_path r; authz = header r ''Authorization''
      in if path = ''/healthz'' then Inr None
         else if authz = '''' then Inl (gateway_error 401 ''missing bearer token'')
         else if authz = ''Bearer '' @ gw_master gw then Inr None
         else (case cut_prefix authz ''Bearer '' of
                 None \<Rightarrow> Inl (gateway_error 401 ''invalid bearer token'')
               | Some tok \<Rightarrow>
                   if tok = '''' then Inl (gateway_error 401 ''invalid bearer token'')
                   else (case ask reg (Inr (ResolveToken (gw_sha256 gw tok) reg)) of
                           Inl e \<Rightarrow> Inl (writeErr_db gw e)
                         | Inr None \<Rightarrow> Inl (gateway_error 401 ''invalid bearer token'')
                         | Inr (Some (i, enabled)) \<Rightarrow>
                             if \<not> enabled then Inl (gateway_error 403 ''token is disabled'')
                             else if isFilesPath path then Inr None
                             else if hr_method r = ''POST'' \<and> path = ''/v1/execute'' then Inr None
                             else if hr_method r = ''GET'' \<and> (path = ''/v1/sessions'' \<or> path = ''/v1/me/limits'')
                             then Inr (Some i)
                             else (case sessionTarget (hr_method r) path of
                                     None \<Rightarrow> Inl (gateway_error 403
                                       ''token limited to session calls; management requires the master token'')
                                   | Some sid \<Rightarrow>
                                       (case ask reg (TokenGrantsSession i sid reg) of
                                          Inl e \<Rightarrow> Inl (writeErr_db gw e)
                                        | Inr granted \<Rightarrow>
                                            if granted then Inr (Some i)
                                            else Inl (gateway_error 403 ''token not permitted for this session''))))))"

subsection \<open>Finding the worker\<close>

definition pathKind :: "string \<Rightarrow> string" where
  "pathKind p =
     (let parts = path_parts p in if 2 \<le> length parts \<and> part parts 0 = ''v1'' then part parts 1 else '''')"

definition resolveSession :: "gateway \<Rightarrow> call_of \<Rightarrow> registry \<Rightarrow> reply + string" where
  "resolveSession gw c reg =
     (case ask reg (SessionRoute (path_id c) (gw_now gw - gw_stale gw) reg) of
        Inl e \<Rightarrow> Inl (writeErr_db gw e)
      | Inr None \<Rightarrow> Inl (gateway_error 404 ''session not found'')
      | Inr (Some (kind, addr)) \<Rightarrow>
          (let want = pathKind (url_path (rc_req c))
           in if kind \<noteq> want
              then Inl (gateway_error 404 (''session '' @ path_id c @ '' is a '' @ kind @ '', not a '' @ want))
              else Inr addr))"

definition forward :: "gateway \<Rightarrow> call_of \<Rightarrow> string \<Rightarrow> reply" where
  "forward gw c base =
     (if \<not> gw_url_ok gw base then gateway_error 502 ''bad worker address''
      else (let r1 = del_header tokenIDHeader (rc_req c)
            in Relay base (if tokenOf c = '''' then r1 else set_header tokenIDHeader (tokenOf c) r1)))"

definition scoped :: "gateway \<Rightarrow> call_of \<Rightarrow> registry \<Rightarrow> reply" where
  "scoped gw c reg =
     (case resolveSession gw c reg of
        Inl rep \<Rightarrow> rep
      | Inr addr \<Rightarrow>
          if addr = '''' then gateway_error 503 ''session not currently hosted by a live worker''
          else forward gw c addr)"

definition ownerOrAnyWorker :: "gateway \<Rightarrow> call_of \<Rightarrow> registry \<Rightarrow> reply" where
  "ownerOrAnyWorker gw c reg =
     (case resolveSession gw c reg of
        Inl rep \<Rightarrow> rep
      | Inr addr0 \<Rightarrow>
          (let addr = (if addr0 = '''' then PickWorker (gw_now gw - gw_stale gw) reg else addr0)
           in if addr = '''' then gateway_error 503 ''no live workers available'' else forward gw c addr))"

definition anyWorker :: "gateway \<Rightarrow> call_of \<Rightarrow> registry \<Rightarrow> reply" where
  "anyWorker gw c reg =
     (case ask reg (Inr (PickWorker (gw_now gw - gw_stale gw) reg)) of
        Inl e \<Rightarrow> writeErr_db gw e
      | Inr addr \<Rightarrow>
          if addr = '''' then gateway_error 503 ''no live workers available'' else forward gw c addr)"

subsection \<open>Registry reads\<close>

definition ok_or_502 :: "gateway \<Rightarrow> (db_err + json) \<Rightarrow> reply" where
  "ok_or_502 gw x = (case x of Inl e \<Rightarrow> writeErr_db gw e | Inr j \<Rightarrow> ok_reply j)"

definition time_json :: "gateway \<Rightarrow> time \<Rightarrow> json" where
  "time_json gw t = JStr (gw_time gw t)"

definition listApps :: "gateway \<Rightarrow> registry \<Rightarrow> reply" where
  "listApps gw reg = ok_or_502 gw (ask reg (Inr (JArr (map
     (\<lambda>(i, api, label, created). JObj ([(''id'', JStr i), (''api_id'', JInt api)] @ omit_empty ''label'' label
         @ [(''created_at'', time_json gw created)])) (ListApps reg)))))"

definition listProxies :: "gateway \<Rightarrow> registry \<Rightarrow> reply" where
  "listProxies gw reg = ok_or_502 gw (ask reg (Inr (JArr (map
     (\<lambda>(i, ty, host, port, user, label, created).
        JObj ([(''id'', JStr i), (''type'', JStr ty), (''host'', JStr host), (''port'', JInt port)]
          @ omit_empty ''username'' user @ omit_empty ''label'' label @ [(''created_at'', time_json gw created)]))
     (ListProxies reg)))))"

definition session_info_json :: "gateway \<Rightarrow> SessionInfo \<Rightarrow> (string \<times> json) list" where
  "session_info_json gw s =
     [(''id'', JStr (si_id s)), (''kind'', JStr (si_kind s)), (''status'', JStr (si_status s))]
     @ omit_empty ''phone'' (si_phone s) @ omit_empty ''label'' (si_label s)
     @ omit_empty ''worker_id'' (si_worker s) @ omit_nil ''last_seen_at'' (time_json gw) (si_last_seen s)
     @ [(''created_at'', time_json gw (si_created s)), (''app_id'', JStr (si_app s))]
     @ omit_empty ''app_label'' (si_app_label s) @ omit_empty ''proxy_id'' (si_proxy_id s)
     @ omit_empty ''proxy'' (si_proxy s) @ omit_nil ''is_premium'' JBool (si_premium s)
     @ [(''frozen'', JBool (si_frozen s)), (''spam_limited'', JBool (si_spam s))]"

definition listSessions :: "gateway \<Rightarrow> call_of \<Rightarrow> registry \<Rightarrow> reply" where
  "listSessions gw c reg =
     (let items = (case rc_token c of
                     Some tok \<Rightarrow> ListSessionsForToken (gw_now gw) tok reg
                   | None \<Rightarrow> Inr (ListSessions (gw_now gw) reg))
      in case ask reg items of
           Inl e \<Rightarrow> writeErr_db gw e
         | Inr xs \<Rightarrow> ok_reply (JArr (map (\<lambda>s. JObj (session_info_json gw s)) xs)))"

definition listWorkers :: "gateway \<Rightarrow> registry \<Rightarrow> reply" where
  "listWorkers gw reg = ok_or_502 gw (ask reg (Inr (JArr (map
     (\<lambda>w. JObj [(''id'', JStr (wi_id w)), (''addr'', JStr (wi_addr w)), (''last_seen_at'', time_json gw (wi_seen w)),
                (''alive'', JBool (wi_alive w)), (''sessions'', JInt (int (wi_sessions w)))])
     (ListWorkers (gw_now gw - gw_stale gw) reg)))))"

definition getSend :: "gateway \<Rightarrow> call_of \<Rightarrow> registry \<Rightarrow> reply" where
  "getSend gw c reg =
     (case resolveSession gw c reg of
        Inl rep \<Rightarrow> rep
      | Inr _ \<Rightarrow>
          (case parse_int64 (query (rc_req c) ''chat_id'') of
             None \<Rightarrow> gateway_error 400 ''chat_id must be an integer''
           | Some chat \<Rightarrow>
               (case parse_int64 (query (rc_req c) ''message_id'') of
                  None \<Rightarrow> gateway_error 400 ''message_id must be an integer''
                | Some temp \<Rightarrow>
                    (case GetSend (path_id c) chat temp reg of
                       Inl e \<Rightarrow> writeErr_db gw e
                     | Inr None \<Rightarrow> gateway_error 404 ''unknown send: never registered, or past SEND_TTL''
                     | Inr (Some m) \<Rightarrow>
                         ok_reply (JObj
                           ([(''chat_id'', JInt chat)]
                            @ (if sm_status m = ''sent'' then [(''message_id'', JInt (sm_final m))]
                               else if sm_status m = ''failed'' then omit_nil ''error'' (\<lambda>x. x) (sm_error m) else [])
                            @ [(''status'', JStr (sm_status m))]))))))"

subsection \<open>Update subscriptions\<close>

definition subscription_json :: "gateway \<Rightarrow> Subscription \<Rightarrow> json" where
  "subscription_json gw s = JObj
     ([(''id'', JStr (sv_id s)), (''session_id'', JStr (sv_session s)), (''token_id'', or_null JStr (sv_token s)),
       (''url'', JStr (sv_url s))]
      @ (case sv_filters s of RawVal j \<Rightarrow> [(''filters'', j)] | _ \<Rightarrow> [])
      @ [(''created_at'', time_json gw (sv_created s)),
         (''last_delivered_at'', or_null (time_json gw) (sv_last_delivered s)),
         (''last_error'', or_null (\<lambda>e. JStr (fst e)) (sv_last_error s)),
         (''last_error_at'', or_null (\<lambda>e. time_json gw (snd e)) (sv_last_error s)),
         (''pending'', JInt (int (sv_pending s))), (''failed'', JInt (int (sv_failed s))),
         (''dropped'', JInt (sv_dropped s))])"

definition listSubscriptions :: "gateway \<Rightarrow> call_of \<Rightarrow> registry \<Rightarrow> reply" where
  "listSubscriptions gw c reg =
     (case resolveSession gw c reg of
        Inl rep \<Rightarrow> rep
      | Inr _ \<Rightarrow>
          (case ask reg (ListSubscriptions (path_id c) (tokenOf c) '''' reg) of
             Inl e \<Rightarrow> writeErr_db gw e
           | Inr xs \<Rightarrow> ok_reply (JArr (map (subscription_json gw) xs))))"

definition getSubscription :: "gateway \<Rightarrow> call_of \<Rightarrow> registry \<Rightarrow> reply" where
  "getSubscription gw c reg =
     (case resolveSession gw c reg of
        Inl rep \<Rightarrow> rep
      | Inr _ \<Rightarrow>
          (case ask reg (ListSubscriptions (path_id c) (tokenOf c) (path_value (rc_vars c) ''sub'') reg) of
             Inl e \<Rightarrow> writeErr_db gw e
           | Inr [] \<Rightarrow> gateway_error 404 ''subscription not found''
           | Inr (x # _) \<Rightarrow> ok_reply (subscription_json gw x)))"

definition deleteSubscription :: "gateway \<Rightarrow> call_of \<Rightarrow> registry \<Rightarrow> reply \<times> registry" where
  "deleteSubscription gw c reg =
     (case resolveSession gw c reg of
        Inl rep \<Rightarrow> (rep, reg)
      | Inr _ \<Rightarrow>
          (case ask reg (DeleteSubscription (path_id c) (tokenOf c) (path_value (rc_vars c) ''sub'') reg) of
             Inl e \<Rightarrow> (writeErr_db gw e, reg)
           | Inr (found, reg') \<Rightarrow>
               (if \<not> found then gateway_error 404 ''subscription not found'' else ok_reply (status_ok ''deleted''), reg')))"

subsection \<open>Registry writes\<close>

text \<open>No body at all leaves the target as it is; a malformed or oversized one is a 400.\<close>

definition decodeJSON :: "call_of \<Rightarrow> 'a dec \<Rightarrow> 'a \<Rightarrow> 'a option" where
  "decodeJSON c d dst =
     (if hr_length (rc_req c) = 0 then Some dst
      else if maxBodyBytes < hr_json_size (rc_req c) then None
      else (case unmarshal d (hr_json (rc_req c)) dst of (ok, x) \<Rightarrow> if ok then Some x else None))"

definition bad_json :: reply where
  "bad_json = gateway_error 400 ''invalid JSON body''"

definition label_field :: "string field list" where
  "label_field = [(''label'', on_field (\<lambda>x. x) (\<lambda>x _. x) dec_str)]"

definition found_or_404 ::
  "gateway \<Rightarrow> string \<Rightarrow> string \<Rightarrow> (db_err + (bool \<times> registry)) \<Rightarrow> registry \<Rightarrow> reply \<times> registry" where
  "found_or_404 gw missing fin x reg =
     (case x of
        Inl e \<Rightarrow> (writeErr_db gw e, reg)
      | Inr (found, reg') \<Rightarrow>
          (if found then ok_reply (status_ok fin) else gateway_error 404 missing, reg'))"

definition updateApp :: "gateway \<Rightarrow> call_of \<Rightarrow> registry \<Rightarrow> reply \<times> registry" where
  "updateApp gw c reg =
     (case decodeJSON c (dec_struct label_field) '''' of
        None \<Rightarrow> (bad_json, reg)
      | Some label \<Rightarrow> found_or_404 gw ''app not found'' ''updated'' (ask reg (UpdateAppLabel (path_id c) label reg)) reg)"

definition updateProxy :: "gateway \<Rightarrow> call_of \<Rightarrow> registry \<Rightarrow> reply \<times> registry" where
  "updateProxy gw c reg =
     (case decodeJSON c (dec_struct label_field) '''' of
        None \<Rightarrow> (bad_json, reg)
      | Some label \<Rightarrow> found_or_404 gw ''proxy not found'' ''updated'' (ask reg (UpdateProxyLabel (path_id c) label reg)) reg)"

definition listTokens :: "gateway \<Rightarrow> registry \<Rightarrow> reply" where
  "listTokens gw reg = ok_or_502 gw (ask reg (Inr (JArr (map
     (\<lambda>t. JObj ([(''id'', JStr (ti_id t))] @ omit_empty ''name'' (ti_name t)
        @ [(''enabled'', JBool (ti_enabled t)), (''all_sessions'', JBool (ti_all t)),
           (''app_ids'', JArr (map JStr (ti_apps t))), (''session_ids'', JArr (map JStr (ti_sessions t))),
           (''created_at'', time_json gw (ti_created t))]))
     (ListTokens reg)))))"

definition strings_dec :: "string list dec" where
  "strings_dec = dec_list '''' dec_str"

definition token_patch_fields :: "TokenPatch field list" where
  "token_patch_fields =
     [(''name'', on_field tp_name (\<lambda>x p. p\<lparr>tp_name := x\<rparr>) (dec_ptr '''' dec_str)),
      (''enabled'', on_field tp_enabled (\<lambda>x p. p\<lparr>tp_enabled := x\<rparr>) (dec_ptr False dec_bool)),
      (''all_sessions'', on_field tp_all (\<lambda>x p. p\<lparr>tp_all := x\<rparr>) (dec_ptr False dec_bool)),
      (''app_ids'', on_field tp_apps (\<lambda>x p. p\<lparr>tp_apps := x\<rparr>) (dec_ptr [] strings_dec)),
      (''session_ids'', on_field tp_sessions (\<lambda>x p. p\<lparr>tp_sessions := x\<rparr>) (dec_ptr [] strings_dec))]"

record new_token =
  nt_name :: string
  nt_enabled :: "bool option"
  nt_all :: bool
  nt_apps :: "ident list"
  nt_sessions :: "ident list"

definition new_token_fields :: "new_token field list" where
  "new_token_fields =
     [(''name'', on_field nt_name (\<lambda>x p. p\<lparr>nt_name := x\<rparr>) dec_str),
      (''enabled'', on_field nt_enabled (\<lambda>x p. p\<lparr>nt_enabled := x\<rparr>) (dec_ptr False dec_bool)),
      (''all_sessions'', on_field nt_all (\<lambda>x p. p\<lparr>nt_all := x\<rparr>) dec_bool),
      (''app_ids'', on_field nt_apps (\<lambda>x p. p\<lparr>nt_apps := x\<rparr>) strings_dec),
      (''session_ids'', on_field nt_sessions (\<lambda>x p. p\<lparr>nt_sessions := x\<rparr>) strings_dec)]"

definition createToken :: "gateway \<Rightarrow> call_of \<Rightarrow> registry \<Rightarrow> reply \<times> registry" where
  "createToken gw c reg =
     (case decodeJSON c (dec_struct new_token_fields)
             \<lparr>nt_name = '''', nt_enabled = None, nt_all = False, nt_apps = [], nt_sessions = []\<rparr> of
        None \<Rightarrow> (bad_json, reg)
      | Some n \<Rightarrow>
          (case gw_newtoken gw of
             None \<Rightarrow> (gateway_error 500 ''random source failed'', reg)
           | Some secret \<Rightarrow>
               (case ask reg (CreateToken (gw_newid gw) (gw_now gw) (nt_name n) (gw_sha256 gw secret)
                       (case nt_enabled n of None \<Rightarrow> True | Some b \<Rightarrow> b) (nt_all n) (nt_apps n) (nt_sessions n) reg) of
                  Inl e \<Rightarrow> (writeErr_db gw e, reg)
                | Inr (i, reg') \<Rightarrow> (ok_reply (JObj [(''id'', JStr i), (''token'', JStr secret)]), reg'))))"

definition updateToken :: "gateway \<Rightarrow> call_of \<Rightarrow> registry \<Rightarrow> reply \<times> registry" where
  "updateToken gw c reg =
     (case decodeJSON c (dec_struct token_patch_fields)
             \<lparr>tp_name = None, tp_enabled = None, tp_all = None, tp_apps = None, tp_sessions = None\<rparr> of
        None \<Rightarrow> (bad_json, reg)
      | Some p \<Rightarrow> found_or_404 gw ''token not found'' ''updated'' (ask reg (UpdateToken (path_id c) p reg)) reg)"

definition deleteToken :: "gateway \<Rightarrow> call_of \<Rightarrow> registry \<Rightarrow> reply \<times> registry" where
  "deleteToken gw c reg =
     found_or_404 gw ''token not found'' ''deleted'' (ask reg (DeleteToken (path_id c) reg)) reg"

end
