(* ===== verification/Quota.thy ===== *)
theory Quota
  imports Counters Json
begin

section \<open>The policy of the operator's rate limits\<close>

text \<open>
  \<^verbatim>\<open>internal/quota/quota.go\<close>: which td_api methods a rule covers, how much one call counts, which
  window it falls in, and which rules bear on a session for a caller.
\<close>

subsection \<open>Method groups\<close>

definition groups :: "(string \<times> string) list" where
  "groups =
    [(''sendMessage'', ''@send''),
     (''sendMessageAlbum'', ''@send''),
     (''forwardMessages'', ''@send''),
     (''resendMessages'', ''@send''),
     (''sendInlineQueryResultMessage'', ''@send''),
     (''joinChat'', ''@join''),
     (''joinChatByInviteLink'', ''@join''),
     (''addChatMember'', ''@invite''),
     (''addChatMembers'', ''@invite''),
     (''searchPublicChat'', ''@resolve''),
     (''searchPublicChats'', ''@resolve''),
     (''searchUserByPhoneNumber'', ''@resolve''),
     (''checkChatInviteLink'', ''@resolve''),
     (''importContacts'', ''@contacts''),
     (''addContact'', ''@contacts''),
     (''createNewSupergroupChat'', ''@create''),
     (''createNewBasicGroupChat'', ''@create''),
     (''addMessageReaction'', ''@react''),
     (''setMessageReactions'', ''@react''),
     (''viewMessages'', ''@view''),
     (''getChatHistory'', ''@history''),
     (''searchChatMessages'', ''@history''),
     (''deleteMessages'', ''@delete''),
     (''deleteChatHistory'', ''@delete''),
     (''getSupergroupMembers'', ''@members''),
     (''searchChatMembers'', ''@members'')]"

definition Scope :: "string \<Rightarrow> string" where
  "Scope method = (case map_of groups method of Some g \<Rightarrow> g | None \<Rightarrow> method)"

definition IsGroup :: "string \<Rightarrow> bool" where
  "IsGroup name = list_ex (\<lambda>(_, g). g = name) groups"

text \<open>The regular expression \<^verbatim>\<open>^[a-z][A-Za-z0-9]*$\<close>.\<close>

definition methodName :: "string \<Rightarrow> bool" where
  "methodName s =
     (case s of [] \<Rightarrow> False
      | c # cs \<Rightarrow> is_lower c \<and> list_all (\<lambda>x. is_upper x \<or> is_lower x \<or> is_digit x) cs)"

definition ValidPattern :: "string \<Rightarrow> bool" where
  "ValidPattern p \<longleftrightarrow> p = ''*'' \<or> IsGroup p \<or> methodName p"

definition Matches :: "string \<Rightarrow> string \<Rightarrow> bool" where
  "Matches pattern method \<longleftrightarrow>
     pattern = ''*'' \<or> pattern = method
     \<or> (has_prefix pattern ''@'' \<and> map_of groups method = Some pattern)"

subsection \<open>What a call counts\<close>

record count_params =
  OnlyLocal :: bool
  Messages :: "json list"
  Contents :: "json list"
  Users :: "json list"
  Contacts :: "json list"

definition zero_count_params :: count_params where
  "zero_count_params = \<lparr>OnlyLocal = False, Messages = [], Contents = [], Users = [], Contacts = []\<rparr>"

definition count_fields :: "count_params field list" where
  "count_fields =
     [(''only_local'', on_field OnlyLocal (\<lambda>x p. p\<lparr>OnlyLocal := x\<rparr>) dec_bool),
      (''message_ids'', on_field Messages (\<lambda>x p. p\<lparr>Messages := x\<rparr>) dec_raws),
      (''input_message_contents'', on_field Contents (\<lambda>x p. p\<lparr>Contents := x\<rparr>) dec_raws),
      (''user_ids'', on_field Users (\<lambda>x p. p\<lparr>Users := x\<rparr>) dec_raws),
      (''contacts'', on_field Contacts (\<lambda>x p. p\<lparr>Contacts := x\<rparr>) dec_raws)]"

definition count_params_of :: "raw \<Rightarrow> count_params" where
  "count_params_of params = snd (unmarshal (dec_struct count_fields) params zero_count_params)"

definition Count :: "limit \<Rightarrow> string \<Rightarrow> raw \<Rightarrow> int" where
  "Count l method params =
     (if \<not> list_ex (\<lambda>p. Matches p method) (l_methods l) then 0
      else (let p = count_params_of params
            in if OnlyLocal p then 0
               else if ''*'' \<in> set (l_methods l) then 1
               else (let n = (if method = ''forwardMessages'' then int (length (Messages p))
                              else if method = ''sendMessageAlbum'' then int (length (Contents p))
                              else if method = ''addChatMembers'' then int (length (Users p))
                              else if method = ''importContacts'' then int (length (Contacts p))
                              else 0)
                     in max n 1)))"

subsection \<open>Windows\<close>

definition moscow :: duration where "moscow = 3 * hour"

definition Pers :: "string list" where "Pers = [''minute'', ''hour'', ''day'', ''week'']"

text \<open>
  The civil day of a time in the fixed zone UTC+3, as days since 1970-01-01, its midnight, and its
  weekday with Sunday as 0; that day was a Thursday. The zone has no daylight saving, so
  \<^verbatim>\<open>AddDate(0, 0, n)\<close> adds n times 24 hours.
\<close>

definition msk_day :: "time \<Rightarrow> int" where
  "msk_day t = (t + moscow) div day"

definition msk_midnight :: "int \<Rightarrow> time" where
  "msk_midnight d = d * day - moscow"

definition weekday :: "int \<Rightarrow> int" where
  "weekday d = (d + 4) mod 7"

definition add_days :: "time \<Rightarrow> int \<Rightarrow> time" where
  "add_days t n = t + n * day"

definition Window :: "string \<Rightarrow> time \<Rightarrow> time \<times> time" where
  "Window per now =
     (if per = ''minute'' then (let start = truncate_time now minute in (start, start + minute))
      else if per = ''hour'' then (let start = truncate_time now hour in (start, start + hour))
      else (let start = msk_midnight (msk_day now)
            in if per = ''week''
               then (let start' = add_days start (go_rem (- (weekday (msk_day now) + 6)) 7)
                     in (start', add_days start' 7))
               else (start, add_days start 1)))"

subsection \<open>Which rules bear on a session\<close>

definition signature :: "limit \<Rightarrow> string" where
  "signature l = l_per l @ ''|'' @ join_with '','' (sort (l_methods l))"

record applied =
  a_limit :: limit
  ReplacedBy :: ident

definition own_rule :: "ident \<Rightarrow> limit \<Rightarrow> bool" where
  "own_rule sessionID l \<longleftrightarrow> l_level l = ''session'' \<and> l_session l = Some sessionID"

definition token_rule :: "ident \<Rightarrow> limit \<Rightarrow> bool" where
  "token_rule tokenID l \<longleftrightarrow> l_level l = ''token'' \<and> tokenID \<noteq> '''' \<and> l_token l = Some tokenID"

definition default_rule :: "string \<Rightarrow> limit \<Rightarrow> bool" where
  "default_rule kind l \<longleftrightarrow> l_level l = ''session'' \<and> l_session l = None \<and> l_kind l = Some kind"

text \<open>A Go map from strings to strings reads as the empty string where nothing was stored.\<close>

definition go_get :: "(string \<rightharpoonup> ident) \<Rightarrow> string \<Rightarrow> ident" where
  "go_get m k = (case m k of None \<Rightarrow> '''' | Some v \<Rightarrow> v)"

fun own_and_mine ::
  "limit list \<Rightarrow> ident \<Rightarrow> ident \<Rightarrow> (string \<rightharpoonup> ident) \<Rightarrow> (string \<rightharpoonup> ident) \<Rightarrow> (string \<rightharpoonup> ident) \<times> (string \<rightharpoonup> ident)"
where
  "own_and_mine [] sessionID tokenID own mine = (own, mine)"
| "own_and_mine (l # ls) sessionID tokenID own mine =
     (if \<not> l_enabled l then own_and_mine ls sessionID tokenID own mine
      else if own_rule sessionID l
      then own_and_mine ls sessionID tokenID (own(signature l \<mapsto> l_id l)) mine
      else if token_rule tokenID l
      then own_and_mine ls sessionID tokenID own (mine(signature l \<mapsto> l_id l))
      else own_and_mine ls sessionID tokenID own mine)"

fun applied_of ::
  "limit list \<Rightarrow> ident \<Rightarrow> string \<Rightarrow> ident \<Rightarrow> (string \<rightharpoonup> ident) \<Rightarrow> (string \<rightharpoonup> ident) \<Rightarrow> applied list"
where
  "applied_of [] sessionID kind tokenID own mine = []"
| "applied_of (l # ls) sessionID kind tokenID own mine =
     (let rest = applied_of ls sessionID kind tokenID own mine;
          sig = signature l
      in if \<not> l_enabled l then rest
         else if default_rule kind l
         then \<lparr>a_limit = l, ReplacedBy =
                 (if go_get own sig = '''' then go_get mine sig else go_get own sig)\<rparr> # rest
         else if own_rule sessionID l then \<lparr>a_limit = l, ReplacedBy = go_get mine sig\<rparr> # rest
         else if token_rule tokenID l then \<lparr>a_limit = l, ReplacedBy = ''''\<rparr> # rest
         else rest)"

definition Applicable :: "limit list \<Rightarrow> ident \<Rightarrow> string \<Rightarrow> ident \<Rightarrow> applied list" where
  "Applicable rules sessionID kind tokenID =
     (let (own, mine) = own_and_mine rules sessionID tokenID Map.empty Map.empty
      in applied_of rules sessionID kind tokenID own mine)"

subsection \<open>Windows tile time\<close>

lemma truncate_time_div:
  assumes "zero_time = - (k * d)"
  shows "truncate_time t d = t div d * d"
proof -
  have "(t - zero_time) mod d = t mod d" by (simp add: assms)
  then show ?thesis by (simp add: truncate_time_def minus_mod_eq_div_mult)
qed

lemma truncate_time_minute: "truncate_time t minute = t div minute * minute"
  by (rule truncate_time_div [of 1035593280]) (simp add: zero_time_def duration_defs)

lemma truncate_time_hour: "truncate_time t hour = t div hour * hour"
  by (rule truncate_time_div [of 17259888]) (simp add: zero_time_def duration_defs)

lemma week_offset: "go_rem (- (weekday d + 6)) 7 = - ((d + 3) mod 7)"
proof -
  have "0 \<le> weekday d" by (simp add: weekday_def)
  then have "go_rem (- (weekday d + 6)) 7 = - ((weekday d + 6) mod 7)"
    by (simp add: go_rem_def add.commute)
  also have "(weekday d + 6) mod 7 = (d + 3) mod 7" unfolding weekday_def by presburger
  finally show ?thesis .
qed

lemma day_pos: "0 < day"
  by (simp add: duration_defs)

lemma week_of_day: "(msk_day t + 3) div 7 = (t + (moscow + 3 * day)) div (7 * day)"
proof -
  have "msk_day t + 3 = (t + (moscow + 3 * day)) div day"
    using day_pos by (simp add: msk_day_def flip: add.assoc)
  moreover have "(t + (moscow + 3 * day)) div (day * 7) = (t + (moscow + 3 * day)) div day div 7"
    by (rule zdiv_zmult2_eq) simp
  ultimately show ?thesis by (simp only: mult.commute [of 7 day])
qed

lemma week_start:
  "add_days (msk_midnight (msk_day t)) (go_rem (- (weekday (msk_day t) + 6)) 7)
   = (t + (moscow + 3 * day)) div (7 * day) * (7 * day) - (moscow + 3 * day)"
proof -
  have "msk_day t - (msk_day t + 3) mod 7 = (msk_day t + 3) div 7 * 7 - 3"
    by (simp add: minus_mod_eq_div_mult [symmetric])
  then have "add_days (msk_midnight (msk_day t)) (- ((msk_day t + 3) mod 7))
             = ((msk_day t + 3) div 7 * 7 - 3) * day - moscow"
    by (simp add: add_days_def msk_midnight_def left_diff_distrib [symmetric])
  then show ?thesis unfolding week_offset week_of_day by (simp add: algebra_simps)
qed

text \<open>
  The contract of a family of fixed windows: the window of a time holds it, has the family's
  length, and every time in it has the same window, so a counter keyed by the start counts exactly
  the calls of that window.
\<close>

locale fixed_windows =
  fixes win :: "time \<Rightarrow> time \<times> time" and len :: duration and off :: time
  assumes len_pos: "0 < len"
    and win_eq: "win t = ((t + off) div len * len - off, (t + off) div len * len - off + len)"
begin

lemma holds_now: "fst (win t) \<le> t \<and> t < snd (win t)"
proof -
  have "(t + off) div len * len = t + off - (t + off) mod len"
    by (simp add: minus_mod_eq_div_mult)
  moreover have "0 \<le> (t + off) mod len" "(t + off) mod len < len" using len_pos by simp_all
  ultimately show ?thesis by (simp add: win_eq)
qed

lemma same_window:
  assumes "fst (win t) \<le> u" and "u < snd (win t)"
  shows "win u = win t"
proof -
  let ?q = "(t + off) div len"
  have "0 \<le> u + off - ?q * len" "u + off - ?q * len < len" using assms by (simp_all add: win_eq)
  moreover have "u + off = ?q * len + (u + off - ?q * len)" by simp
  ultimately have "(u + off) div len = ?q"
    by (metis div_pos_pos_trivial add.right_neutral div_mult_self3 len_pos less_irrefl mult.commute)
  then show ?thesis by (simp add: win_eq)
qed

lemma windows_disjoint: "fst (win t) \<noteq> fst (win u) \<Longrightarrow> snd (win t) \<le> fst (win u) \<or> snd (win u) \<le> fst (win t)"
proof (rule ccontr)
  assume ne: "fst (win t) \<noteq> fst (win u)" and "\<not> (snd (win t) \<le> fst (win u) \<or> snd (win u) \<le> fst (win t))"
  then have lt: "fst (win u) < snd (win t)" "fst (win t) < snd (win u)" by simp_all
  have ht: "fst (win t) \<le> t" "t < snd (win t)" "fst (win u) \<le> u" "u < snd (win u)"
    using holds_now [of t] holds_now [of u] by simp_all
  show False
  proof (cases "fst (win t) \<le> fst (win u)")
    case True
    then have "win (fst (win u)) = win t" using lt by (intro same_window)
    moreover have "win (fst (win u)) = win u" using ht lt by (intro same_window) auto
    ultimately show False using ne by simp
  next
    case False
    then have "win (fst (win t)) = win u" using lt by (intro same_window) auto
    moreover have "win (fst (win t)) = win t" using ht lt by (intro same_window) auto
    ultimately show False using ne by simp
  qed
qed

end

interpretation minute_window: fixed_windows "Window ''minute''" minute 0
  by unfold_locales (simp_all add: Window_def Let_def truncate_time_minute, simp add: duration_defs)

interpretation hour_window: fixed_windows "Window ''hour''" hour 0
  by unfold_locales (simp_all add: Window_def Let_def truncate_time_hour, simp add: duration_defs)

interpretation day_window: fixed_windows "Window ''day''" day moscow
  by unfold_locales (simp_all add: Window_def Let_def day_pos msk_midnight_def msk_day_def add_days_def)

interpretation week_window: fixed_windows "Window ''week''" "7 * day" "moscow + 3 * day"
proof
  show "0 < 7 * day" using day_pos by simp
  show "Window ''week'' t = ((t + (moscow + 3 * day)) div (7 * day) * (7 * day) - (moscow + 3 * day),
      (t + (moscow + 3 * day)) div (7 * day) * (7 * day) - (moscow + 3 * day) + 7 * day)" for t
    unfolding Window_def Let_def week_start by (simp add: add_days_def)
qed

lemma Pers_cases:
  assumes "per \<in> set Pers"
  obtains "per = ''minute''" | "per = ''hour''" | "per = ''day''" | "per = ''week''"
  using assms by (auto simp: Pers_def)

text \<open>
  C27: whatever the unit of a rule, the window that \<^verbatim>\<open>Window\<close> gives for a time holds that time, and
  every other time inside it gets the very same window: the windows of a unit tile the time line, so
  a counter keyed by the window's start counts exactly the calls made in the window.
\<close>

theorem Window_tiles:
  assumes "per \<in> set Pers"
  shows "fst (Window per t) \<le> t \<and> t < snd (Window per t)
         \<and> (\<forall>u. fst (Window per t) \<le> u \<and> u < snd (Window per t) \<longrightarrow> Window per u = Window per t)"
  using assms
proof (cases rule: Pers_cases)
  case 1
  then show ?thesis using minute_window.holds_now minute_window.same_window by blast
next
  case 2
  then show ?thesis using hour_window.holds_now hour_window.same_window by blast
next
  case 3
  then show ?thesis using day_window.holds_now day_window.same_window by blast
next
  case 4
  then show ?thesis using week_window.holds_now week_window.same_window by blast
qed

theorem Window_tiles_witness:
  "fst (Window ''week'' 0) \<le> 0 \<and> 0 < snd (Window ''week'' 0) \<and> Window ''week'' 1 = Window ''week'' 0"
proof -
  have m: "''week'' \<in> set Pers" by (simp add: Pers_def)
  have "fst (Window ''week'' 0) \<le> 1 \<and> 1 < snd (Window ''week'' 0)"
    by (simp add: Window_def Let_def add_days_def msk_midnight_def msk_day_def weekday_def go_rem_def
        moscow_def duration_defs)
  then show ?thesis using Window_tiles [OF m, of 0] by blast
qed

text \<open>
  A week's window runs for seven days from a midnight in Moscow (UTC+3) that begins a Monday,
  and a day's window for 24 hours from a midnight in Moscow; this is where the expression
  \<^verbatim>\<open>-(int(m.Weekday())+6)%7\<close>, with Go's truncating remainder, lands.
\<close>

theorem Window_week_from_monday:
  "weekday (msk_day (fst (Window ''week'' t))) = 1
   \<and> fst (Window ''week'' t) = msk_midnight (msk_day (fst (Window ''week'' t)))
   \<and> snd (Window ''week'' t) = fst (Window ''week'' t) + 7 * day
   \<and> fst (Window ''day'' t) = msk_midnight (msk_day t)
   \<and> snd (Window ''day'' t) = fst (Window ''day'' t) + day"
proof -
  let ?q = "(t + (moscow + 3 * day)) div (7 * day)"
  have w: "fst (Window ''week'' t) = ?q * (7 * day) - (moscow + 3 * day)"
    "snd (Window ''week'' t) = fst (Window ''week'' t) + 7 * day"
    by (simp_all add: week_window.win_eq)
  have "fst (Window ''week'' t) + moscow = (7 * ?q - 3) * day"
    by (simp add: w(1) algebra_simps)
  then have d: "msk_day (fst (Window ''week'' t)) = 7 * ?q - 3"
    using day_pos by (simp add: msk_day_def)
  have "weekday (7 * ?q - 3) = 1"
    using mod_mult_self2 [of 1 7 ?q] by (simp add: weekday_def add.commute)
  moreover have "fst (Window ''week'' t) = msk_midnight (7 * ?q - 3)"
    by (simp add: w(1) msk_midnight_def algebra_simps)
  moreover have "fst (Window ''day'' t) = msk_midnight (msk_day t)"
    "snd (Window ''day'' t) = fst (Window ''day'' t) + day"
    by (simp_all add: Window_def Let_def add_days_def)
  ultimately show ?thesis using w d by metis
qed

subsection \<open>What covers a method\<close>

lemma groups_prefixed: "map_of groups m = Some g \<Longrightarrow> has_prefix g ''@''"
proof -
  have "\<forall>(m, g) \<in> set groups. has_prefix g ''@''" by (simp add: groups_def has_prefix_def)
  then show "map_of groups m = Some g \<Longrightarrow> ?thesis" by (auto dest: map_of_SomeD)
qed

lemma Scope_eq_group: "has_prefix g ''@'' \<Longrightarrow> methodName m \<Longrightarrow> Scope m = g \<longleftrightarrow> map_of groups m = Some g"
proof -
  have "m = CHR ''@'' # cs \<Longrightarrow> \<not> methodName m" for cs by (simp add: methodName_def in_range_def)
  then show "has_prefix g ''@'' \<Longrightarrow> methodName m \<Longrightarrow> ?thesis"
    by (auto simp: Scope_def has_prefix_iff split: option.splits)
qed

text \<open>
  For a td_api method name, a rule's pattern covers the method exactly when the pattern is
  \<^verbatim>\<open>*\<close>, the method itself, or the scope the method's cooldown goes by; and \<^verbatim>\<open>Scope\<close> is always a
  pattern that \<^verbatim>\<open>ValidPattern\<close> lets an operator write.
\<close>

theorem Matches_iff_Scope:
  assumes "methodName m"
  shows "(Matches p m \<longleftrightarrow> p = ''*'' \<or> p = m \<or> p = Scope m) \<and> ValidPattern (Scope m) \<and> Matches (Scope m) m"
proof -
  have 1: "Matches p m \<longleftrightarrow> p = ''*'' \<or> p = m \<or> p = Scope m" for p
  proof (cases "map_of groups m")
    case None
    then show ?thesis by (auto simp: Matches_def Scope_def)
  next
    case (Some g)
    then show ?thesis using groups_prefixed [OF Some] by (auto simp: Matches_def Scope_def)
  qed
  have 2: "ValidPattern (Scope m)"
  proof (cases "map_of groups m")
    case None
    then show ?thesis using assms by (simp add: Scope_def ValidPattern_def)
  next
    case (Some g)
    then have "IsGroup g" unfolding IsGroup_def list_ex_iff
      by (intro bexI [of _ "(m, g)"]) (auto dest: map_of_SomeD)
    with Some show ?thesis by (simp add: Scope_def ValidPattern_def)
  qed
  show ?thesis using 1 2 by blast
qed

theorem Matches_iff_Scope_witness:
  "methodName ''sendMessage'' \<and> Matches ''@send'' ''sendMessage'' \<and> \<not> Matches ''@join'' ''sendMessage''"
proof -
  have m: "methodName ''sendMessage''" by (simp add: methodName_def in_range_def)
  have s: "Scope ''sendMessage'' = ''@send''" by (simp add: Scope_def groups_def)
  show ?thesis using m s Matches_iff_Scope [OF m, of "''@send''"] Matches_iff_Scope [OF m, of "''@join''"] by simp
qed

subsection \<open>What a call counts: lemmas\<close>

lemma dec_fields_append:
  "dec_fields fs (kjs @ kjs') s =
     (let (ok, s') = dec_fields fs kjs s; (ok', s'') = dec_fields fs kjs' s' in (ok \<and> ok', s''))"
  by (induction kjs arbitrary: s) (auto split: option.splits prod.splits)

text \<open>
  A rule counts a call exactly when one of its patterns covers the method and the parameters do
  not say \<^verbatim>\<open>only_local\<close>; then it counts at least one, exactly one for a \<^verbatim>\<open>*\<close> rule, and for the
  methods that carry several messages, people or contacts, as many as the array holds.
\<close>

theorem Count_spec:
  "(0 < Count l m ps \<longleftrightarrow> list_ex (\<lambda>p. Matches p m) (l_methods l) \<and> \<not> OnlyLocal (count_params_of ps))
   \<and> 0 \<le> Count l m ps
   \<and> (''*'' \<in> set (l_methods l) \<longrightarrow> Count l m ps \<le> 1)
   \<and> (0 < Count l ''forwardMessages'' ps \<and> ''*'' \<notin> set (l_methods l) \<longrightarrow>
        Count l ''forwardMessages'' ps = max 1 (int (length (Messages (count_params_of ps)))))
   \<and> (0 < Count l ''addChatMembers'' ps \<and> ''*'' \<notin> set (l_methods l) \<longrightarrow>
        Count l ''addChatMembers'' ps = max 1 (int (length (Users (count_params_of ps)))))"
  by (simp add: Count_def Let_def less_max_iff_disj le_max_iff_disj max.commute)

theorem Count_spec_witness:
  "Count \<lparr>l_id = ''r'', l_level = ''session'', l_kind = Some ''user'', l_session = None, l_token = None,
          l_methods = [''@send''], l_max = 10, l_per = ''day'', l_label = None, l_enabled = True, l_created = 0\<rparr>
     ''forwardMessages'' (RawVal (JObj [(''message_ids'', JArr [JInt 1, JInt 2, JInt 3])])) = 3"
    (is "Count ?l _ ?ps = 3")
proof -
  have p: "count_params_of ?ps = zero_count_params\<lparr>Messages := [JInt 1, JInt 2, JInt 3]\<rparr>"
    by (simp add: count_params_of_def unmarshal_def dec_struct_def find_field_def count_fields_def
        on_field_def zero_count_params_def)
  have "Matches ''@send'' ''forwardMessages''" by (simp add: Matches_def groups_def has_prefix_def)
  then have "0 < Count ?l ''forwardMessages'' ?ps"
    using conjunct1 [OF Count_spec [of ?l "''forwardMessages''" ?ps]] by (simp add: p zero_count_params_def)
  then show ?thesis using Count_spec [of ?l "''forwardMessages''" ?ps] by (simp add: p)
qed

text \<open>
  The exemption for \<^verbatim>\<open>only_local\<close> is not tied to the reads that have the parameter: added to the
  parameters of any method at all, a send included, it makes every rule count nothing.
\<close>

theorem Count_only_local_any_method:
  "Count l m (RawVal (JObj (kvs @ [(''only_local'', JBool True)]))) = 0"
proof -
  have "OnlyLocal (count_params_of (RawVal (JObj (kvs @ [(''only_local'', JBool True)]))))"
    by (simp add: count_params_of_def unmarshal_def dec_struct_def dec_fields_append
        find_field_def count_fields_def on_field_def split: prod.splits)
  then show ?thesis by (simp add: Count_def Let_def)
qed

subsection \<open>Signatures\<close>

lemma ValidPattern_no_comma:
  assumes "ValidPattern p"
  shows "CHR '','' \<notin> set p"
proof -
  have "IsGroup p \<Longrightarrow> ?thesis" by (auto simp: IsGroup_def groups_def)
  moreover have "methodName p \<Longrightarrow> ?thesis"
    by (cases p) (auto simp: methodName_def list_all_iff in_range_def)
  ultimately show ?thesis using assms by (auto simp: ValidPattern_def)
qed

lemma Pers_no_bar: "per \<in> set Pers \<Longrightarrow> CHR ''|'' \<notin> set per"
  by (auto simp: Pers_def)

lemma append_sep_inj:
  "c \<notin> set a \<Longrightarrow> c \<notin> set b \<Longrightarrow> a @ c # x = b @ c # y \<Longrightarrow> a = b \<and> x = y"
proof (induction a arbitrary: b)
  case Nil
  then show ?case by (cases b) auto
next
  case (Cons z a)
  then show ?case by (cases b) auto
qed

text \<open>
  Two rules an operator can write have the same signature exactly when they count in the same
  unit and list the same methods, in any order: nothing is confused by writing the list into a
  string.
\<close>

theorem signature_iff:
  assumes "l_per l \<in> set Pers" "l_per l' \<in> set Pers"
    and "l_methods l \<noteq> []" "l_methods l' \<noteq> []"
    and "list_all ValidPattern (l_methods l)" "list_all ValidPattern (l_methods l')"
  shows "signature l = signature l' \<longleftrightarrow> l_per l = l_per l' \<and> mset (l_methods l) = mset (l_methods l')"
proof
  assume s: "signature l = signature l'"
  have j: "l_per l = l_per l' \<and> join_with '','' (sort (l_methods l)) = join_with '','' (sort (l_methods l'))"
    using s assms(1,2) by (intro append_sep_inj [of "CHR ''|''"]) (auto simp: signature_def Pers_no_bar)
  moreover have "sort (l_methods l) = sort (l_methods l')"
    using assms(3-6) j by (intro join_with_inj) (auto simp: list_all_iff ValidPattern_no_comma simp flip: set_empty)
  then have "mset (l_methods l) = mset (l_methods l')" by (metis mset_sort)
  ultimately show "l_per l = l_per l' \<and> mset (l_methods l) = mset (l_methods l')" by simp
next
  assume "l_per l = l_per l' \<and> mset (l_methods l) = mset (l_methods l')"
  then show "signature l = signature l'"
    by (metis signature_def sorted_list_of_multiset_mset)
qed

definition sample_rule :: "ident \<Rightarrow> string list \<Rightarrow> limit" where
  "sample_rule i ms = \<lparr>l_id = i, l_level = ''session'', l_kind = Some ''user'', l_session = None,
     l_token = None, l_methods = ms, l_max = 10, l_per = ''day'', l_label = None,
     l_enabled = True, l_created = 0\<rparr>"

theorem signature_iff_witness:
  "signature (sample_rule ''a'' [''@send'', ''@join'']) = signature (sample_rule ''b'' [''@join'', ''@send''])"
proof -
  have v: "ValidPattern ''@send''" "ValidPattern ''@join''"
    by (simp_all add: ValidPattern_def IsGroup_def groups_def)
  show ?thesis
    using signature_iff [of "sample_rule ''a'' [''@send'', ''@join'']" "sample_rule ''b'' [''@join'', ''@send'']"] v
    by (simp add: sample_rule_def Pers_def)
qed

subsection \<open>The rules in force\<close>

text \<open>
  What the documentation promises: among the enabled rules, a token's rule on the caller's token is
  in force; a session's own rule is, unless the caller's token has a rule of the same signature; the
  default of the kind is, unless the session or the token has one.
\<close>

definition in_force :: "limit list \<Rightarrow> ident \<Rightarrow> string \<Rightarrow> ident \<Rightarrow> limit \<Rightarrow> bool" where
  "in_force rules sessionID kind tokenID l \<longleftrightarrow>
     l_enabled l \<and>
     (let by_own = list_ex (\<lambda>r. l_enabled r \<and> own_rule sessionID r \<and> signature r = signature l) rules;
          by_token = list_ex (\<lambda>r. l_enabled r \<and> token_rule tokenID r \<and> signature r = signature l) rules
      in token_rule tokenID l
         \<or> (own_rule sessionID l \<and> \<not> by_token)
         \<or> (default_rule kind l \<and> \<not> by_own \<and> \<not> by_token))"

lemmas rule_defs = own_rule_def token_rule_def default_rule_def

lemma rule_kinds_exclusive:
  "own_rule s l \<Longrightarrow> \<not> token_rule t l" "own_rule s l \<Longrightarrow> \<not> default_rule k l" "token_rule t l \<Longrightarrow> \<not> default_rule k l"
  by (auto simp: rule_defs)

lemma own_and_mine_None:
  assumes "own_and_mine ls s t own mine = (own', mine')"
  shows "(own' sig = None \<longleftrightarrow> own sig = None \<and> \<not> list_ex (\<lambda>r. l_enabled r \<and> own_rule s r \<and> signature r = sig) ls)
       \<and> (mine' sig = None \<longleftrightarrow> mine sig = None \<and> \<not> list_ex (\<lambda>r. l_enabled r \<and> token_rule t r \<and> signature r = sig) ls)"
  using assms
proof (induction ls arbitrary: own mine)
  case Nil
  then show ?case by simp
next
  case (Cons l ls)
  then show ?case
    using rule_kinds_exclusive(1) [of s l t]
    by (cases "own_rule s l"; cases "token_rule t l"; cases "l_enabled l") (auto split: if_splits)
qed

lemma own_and_mine_ids:
  assumes "own_and_mine ls s t own mine = (own', mine')"
    and "\<forall>l \<in> set ls. l_id l \<noteq> ''''" and "'''' \<notin> ran own" "'''' \<notin> ran mine"
  shows "'''' \<notin> ran own' \<and> '''' \<notin> ran mine'"
  using assms
proof (induction ls arbitrary: own mine)
  case Nil
  then show ?case by simp
next
  case (Cons l ls)
  have u: "'''' \<notin> ran m \<Longrightarrow> '''' \<notin> ran (m(signature l \<mapsto> l_id l))" for m
    using Cons.prems(2) by (auto simp: ran_def)
  show ?case using Cons u by (auto split: if_splits)
qed

lemma go_get_empty: "'''' \<notin> ran m \<Longrightarrow> go_get m k = '''' \<longleftrightarrow> m k = None"
  by (auto simp: go_get_def ran_def split: option.splits)

lemma applied_of_in_force:
  assumes "'''' \<notin> ran own" "'''' \<notin> ran mine"
    and "\<And>sig. own sig = None \<longleftrightarrow> \<not> list_ex (\<lambda>r. l_enabled r \<and> own_rule s r \<and> signature r = sig) rules"
    and "\<And>sig. mine sig = None \<longleftrightarrow> \<not> list_ex (\<lambda>r. l_enabled r \<and> token_rule t r \<and> signature r = sig) rules"
  shows "map a_limit (filter (\<lambda>a. ReplacedBy a = '''') (applied_of ls s k t own mine)) = filter (in_force rules s k t) ls"
proof (induction ls)
  case Nil
  then show ?case by simp
next
  case (Cons l ls)
  then show ?case
    using assms rule_kinds_exclusive [of s l t] rule_kinds_exclusive(2) [of s l k] rule_kinds_exclusive(3) [of t l k]
    by (auto simp: in_force_def Let_def go_get_empty)
qed

lemma Applicable_not_replaced:
  assumes "\<forall>l \<in> set rules. l_id l \<noteq> ''''"
  shows "map a_limit (filter (\<lambda>a. ReplacedBy a = '''') (Applicable rules s k t)) = filter (in_force rules s k t) rules"
proof -
  obtain own mine where om: "own_and_mine rules s t Map.empty Map.empty = (own, mine)"
    by (cases "own_and_mine rules s t Map.empty Map.empty")
  have "'''' \<notin> ran own" "'''' \<notin> ran mine" using own_and_mine_ids [OF om assms] by auto
  then show ?thesis
    using own_and_mine_None [OF om] by (simp add: Applicable_def om applied_of_in_force)
qed

text \<open>
  C6: the rules \<^verbatim>\<open>Applicable\<close> lists as not replaced are exactly the rules in force as documented, in
  the order of the registry: a token's rule displaces the session's own and the default of the same
  signature, a session's own displaces the default, and rules of different signatures all apply.
\<close>

theorem Applicable_in_force:
  assumes "\<forall>l \<in> set rules. l_id l \<noteq> ''''"
  shows "map a_limit (filter (\<lambda>a. ReplacedBy a = '''') (Applicable rules s k t)) = filter (in_force rules s k t) rules"
  using assms by (rule Applicable_not_replaced)

theorem Applicable_in_force_witness:
  "map a_limit (filter (\<lambda>a. ReplacedBy a = '''')
     (Applicable [sample_rule ''d'' [''@send''],
                  (sample_rule ''o'' [''@send''])\<lparr>l_kind := None, l_session := Some ''s1''\<rparr>] ''s1'' ''user'' ''''))
   = [(sample_rule ''o'' [''@send''])\<lparr>l_kind := None, l_session := Some ''s1''\<rparr>]"
  (is "map a_limit (filter _ (Applicable ?rs _ _ _)) = _")
proof -
  have "\<forall>l \<in> set ?rs. l_id l \<noteq> ''''" by (simp add: sample_rule_def)
  then show ?thesis
    using Applicable_in_force [of ?rs "''s1''" "''user''" "''''"]
    by (simp add: in_force_def Let_def rule_defs signature_def sample_rule_def)
qed

end
