(* ===== verification/GatewayLimits.thy ===== *)
theory GatewayLimits
  imports Gateway Quota
begin

section \<open>Managing the operator's rate limits on the gateway\<close>

text \<open>
  \<^verbatim>\<open>internal/router/limits.go\<close>: validation of a rule, its creation, reading, change and removal, and
  the views of rules with their usage that the limits routes answer.
\<close>

definition hex_char :: "char \<Rightarrow> bool" where
  "hex_char c \<longleftrightarrow> is_digit c \<or> in_range CHR ''a'' CHR ''f'' c \<or> in_range CHR ''A'' CHR ''F'' c"

definition uuidPattern :: "string \<Rightarrow> bool" where
  "uuidPattern s \<longleftrightarrow>
     length s = 36
     \<and> list_all (\<lambda>i. if i \<in> {8, 13, 18, 23} then s ! i = CHR ''-'' else hex_char (s ! i)) [0..<36]"

text \<open>The message for the client, empty when all is well.\<close>

definition validLimit :: "limit \<Rightarrow> string" where
  "validLimit l =
     (if l_methods l = []
      then ''methods must list at least one of \"*\", a method group (\"@send\") or a method (\"sendMessage\")''
      else (case find (\<lambda>m. \<not> ValidPattern m) (l_methods l) of
              Some m \<Rightarrow> ''bad method '' @ m @ '': use \"*\", a method group (\"@send\") or a td_api method name''
            | None \<Rightarrow>
                if l_max l \<le> 0 then ''max must be positive''
                else if l_per l \<notin> set Pers then ''per must be '' @ join_with '', '' Pers
                else ''''))"

definition isID :: "ident option \<Rightarrow> bool" where
  "isID p = (case p of None \<Rightarrow> False | Some s \<Rightarrow> uuidPattern s)"

definition session_target_message :: string where
  "session_target_message =
     ''a session limit takes session_id, or kind (user or bot) for the default of every session of the kind''"

definition validTarget :: "limit \<Rightarrow> string" where
  "validTarget l =
     (if l_level l = ''session''
      then (if l_token l \<noteq> None then session_target_message
            else if l_session l = None
            then (if l_kind l \<noteq> Some ''user'' \<and> l_kind l \<noteq> Some ''bot'' then session_target_message else '''')
            else if \<not> isID (l_session l) \<or> l_kind l \<noteq> None then session_target_message
            else '''')
      else if l_level l = ''token''
      then (if \<not> isID (l_token l) \<or> l_kind l \<noteq> None \<or> l_session l \<noteq> None then ''a token limit takes only token_id'' else '''')
      else ''level must be session or token'')"

subsection \<open>Reading and showing rules\<close>

definition dec_time :: "gateway \<Rightarrow> time dec" where
  "dec_time gw j v =
     (case j of
        JNull \<Rightarrow> (True, v)
      | JStr s \<Rightarrow> (case gw_parse_time gw s of None \<Rightarrow> (False, v) | Some t \<Rightarrow> (True, t))
      | _ \<Rightarrow> (False, v))"

definition limit_fields :: "gateway \<Rightarrow> limit field list" where
  "limit_fields gw =
     [(''id'', on_field l_id (\<lambda>x l. l\<lparr>l_id := x\<rparr>) dec_str),
      (''level'', on_field l_level (\<lambda>x l. l\<lparr>l_level := x\<rparr>) dec_str),
      (''kind'', on_field l_kind (\<lambda>x l. l\<lparr>l_kind := x\<rparr>) (dec_ptr '''' dec_str)),
      (''session_id'', on_field l_session (\<lambda>x l. l\<lparr>l_session := x\<rparr>) (dec_ptr '''' dec_str)),
      (''token_id'', on_field l_token (\<lambda>x l. l\<lparr>l_token := x\<rparr>) (dec_ptr '''' dec_str)),
      (''methods'', on_field l_methods (\<lambda>x l. l\<lparr>l_methods := x\<rparr>) strings_dec),
      (''max'', on_field l_max (\<lambda>x l. l\<lparr>l_max := x\<rparr>) dec_int32),
      (''per'', on_field l_per (\<lambda>x l. l\<lparr>l_per := x\<rparr>) dec_str),
      (''label'', on_field l_label (\<lambda>x l. l\<lparr>l_label := x\<rparr>) (dec_ptr '''' dec_str)),
      (''enabled'', on_field l_enabled (\<lambda>x l. l\<lparr>l_enabled := x\<rparr>) dec_bool),
      (''created_at'', on_field l_created (\<lambda>x l. l\<lparr>l_created := x\<rparr>) (dec_time gw))]"

record usage =
  us_used :: int
  us_window_end :: time

record ruleView =
  rv_limit :: limit
  rv_usage :: usage
  rv_replaced :: "ident option"

definition rule_json :: "gateway \<Rightarrow> ruleView \<Rightarrow> json" where
  "rule_json gw v = JObj
     ([(''id'', JStr (l_id (rv_limit v))), (''level'', JStr (l_level (rv_limit v)))]
      @ omit_nil ''kind'' JStr (l_kind (rv_limit v)) @ omit_nil ''session_id'' JStr (l_session (rv_limit v))
      @ omit_nil ''token_id'' JStr (l_token (rv_limit v))
      @ [(''methods'', JArr (map JStr (l_methods (rv_limit v)))), (''max'', JInt (l_max (rv_limit v))),
         (''per'', JStr (l_per (rv_limit v)))]
      @ omit_nil ''label'' JStr (l_label (rv_limit v))
      @ [(''enabled'', JBool (l_enabled (rv_limit v))), (''created_at'', time_json gw (l_created (rv_limit v))),
         (''usage'', JObj [(''used'', JInt (us_used (rv_usage v))),
                           (''window_end'', time_json gw (us_window_end (rv_usage v)))])]
      @ omit_nil ''replaced_by'' JStr (rv_replaced v))"

text \<open>A rule with the most any one session has counted in the current window; a failed read shows 0.\<close>

definition limitView :: "gateway \<Rightarrow> limit \<Rightarrow> registry \<Rightarrow> ruleView" where
  "limitView gw l reg =
     (let (start, fin) = Window (l_per l) (gw_now gw)
      in \<lparr>rv_limit = l,
          rv_usage = \<lparr>us_used = (if db_up reg then MaxCounter (l_id l) start (quota reg) else 0), us_window_end = fin\<rparr>,
          rv_replaced = None\<rparr>)"

definition sessionRules ::
  "gateway \<Rightarrow> limit list \<Rightarrow> ident \<Rightarrow> string \<Rightarrow> ident \<Rightarrow> registry \<Rightarrow> db_err + ruleView list" where
  "sessionRules gw all sid kind tok reg =
     (let now = gw_now gw; apps = Applicable all sid kind tok
      in ask reg (Inr (map (\<lambda>a.
           (let (start, fin) = Window (l_per (a_limit a)) now
            in \<lparr>rv_limit = a_limit a,
                rv_usage = \<lparr>us_used = calls_of (quota reg)
                             \<lparr>k_limit = l_id (a_limit a), k_bucket = sid, k_start = start\<rparr>, us_window_end = fin\<rparr>,
                rv_replaced = nullStr (ReplacedBy a)\<rparr>)) apps)))"

subsection \<open>Handlers\<close>

definition no_limit :: limit where
  "no_limit = \<lparr>l_id = '''', l_level = '''', l_kind = None, l_session = None, l_token = None, l_methods = [],
     l_max = 0, l_per = '''', l_label = None, l_enabled = True, l_created = zero_time\<rparr>"

definition token_exists :: "registry \<Rightarrow> ident \<Rightarrow> bool" where
  "token_exists reg i = list_ex (\<lambda>t. t_id t = i) (tokens reg)"

definition createLimit :: "gateway \<Rightarrow> call_of \<Rightarrow> registry \<Rightarrow> reply \<times> registry" where
  "createLimit gw c reg =
     (case decodeJSON c (dec_struct (limit_fields gw)) no_limit of
        None \<Rightarrow> (bad_json, reg)
      | Some l \<Rightarrow>
          if validTarget l \<noteq> '''' then (gateway_error 400 (validTarget l), reg)
          else if validLimit l \<noteq> '''' then (gateway_error 400 (validLimit l), reg)
          else (case ask reg (CreateLimit (\<lambda>i. session_exists i reg) (token_exists reg) (gw_newid gw) (gw_now gw) l (quota reg)) of
                  Inl ErrLimitTarget \<Rightarrow> (gateway_error 400 (gw_dbtext gw ErrLimitTarget), reg)
                | Inl e \<Rightarrow> (writeErr_db gw e, reg)
                | Inr (out, db) \<Rightarrow>
                    (let reg' = reg\<lparr>quota := db\<rparr> in (ok_reply (rule_json gw (limitView gw out reg')), reg'))))"

definition listLimits :: "gateway \<Rightarrow> registry \<Rightarrow> reply" where
  "listLimits gw reg = ok_or_502 gw (ask reg (Inr (JArr (map (\<lambda>l. rule_json gw (limitView gw l reg)) (ListLimits (quota reg))))))"

definition limitByPath :: "gateway \<Rightarrow> call_of \<Rightarrow> registry \<Rightarrow> reply + limit" where
  "limitByPath gw c reg =
     (if \<not> uuidPattern (path_id c) then Inl (gateway_error 404 ''limit not found'')
      else (case ask reg (Inr (GetLimit (path_id c) (quota reg))) of
              Inl e \<Rightarrow> Inl (writeErr_db gw e)
            | Inr None \<Rightarrow> Inl (gateway_error 404 ''limit not found'')
            | Inr (Some l) \<Rightarrow> Inr l))"

definition getLimit :: "gateway \<Rightarrow> call_of \<Rightarrow> registry \<Rightarrow> reply" where
  "getLimit gw c reg =
     (case limitByPath gw c reg of Inl rep \<Rightarrow> rep | Inr l \<Rightarrow> ok_reply (rule_json gw (limitView gw l reg)))"

text \<open>
  The members that may change, each decoded into the field it names; the source visits them in the
  order of a Go map, which only decides which of several errors is told.
\<close>

definition changeable :: "limit field list" where
  "changeable =
     [(''methods'', on_field l_methods (\<lambda>x l. l\<lparr>l_methods := x\<rparr>) strings_dec),
      (''max'', on_field l_max (\<lambda>x l. l\<lparr>l_max := x\<rparr>) dec_int32),
      (''per'', on_field l_per (\<lambda>x l. l\<lparr>l_per := x\<rparr>) dec_str),
      (''label'', on_field l_label (\<lambda>x l. l\<lparr>l_label := x\<rparr>) (dec_ptr '''' dec_str)),
      (''enabled'', on_field l_enabled (\<lambda>x l. l\<lparr>l_enabled := x\<rparr>) dec_bool)]"

fun change_members :: "limit field list \<Rightarrow> (string \<times> json) list \<Rightarrow> limit \<Rightarrow> string option \<times> limit" where
  "change_members [] f l = (None, l)"
| "change_members ((k, d) # fs) f l =
     (case map_of f k of
        None \<Rightarrow> change_members fs f l
      | Some j \<Rightarrow> (case d j l of (ok, l') \<Rightarrow> if ok then change_members fs f l' else (Some k, l')))"

definition map_body :: "call_of \<Rightarrow> (string \<times> json) list option" where
  "map_body c =
     (if hr_length (rc_req c) = 0 then Some []
      else if maxBodyBytes < hr_json_size (rc_req c) then None
      else unmarshal_map (hr_json (rc_req c)))"

definition updateLimit :: "gateway \<Rightarrow> call_of \<Rightarrow> registry \<Rightarrow> reply \<times> registry" where
  "updateLimit gw c reg =
     (case limitByPath gw c reg of
        Inl rep \<Rightarrow> (rep, reg)
      | Inr l \<Rightarrow>
          (case map_body c of
             None \<Rightarrow> (bad_json, reg)
           | Some f \<Rightarrow>
               (case find (\<lambda>k. map_of f k \<noteq> None) [''id'', ''level'', ''kind'', ''session_id'', ''token_id''] of
                  Some k \<Rightarrow> (gateway_error 400 (k @ '' cannot change: create another limit''), reg)
                | None \<Rightarrow>
                    (case change_members changeable f l of
                       (Some k, _) \<Rightarrow> (gateway_error 400 (k @ '': cannot unmarshal''), reg)
                     | (None, l') \<Rightarrow>
                         if validLimit l' \<noteq> '''' then (gateway_error 400 (validLimit l'), reg)
                         else (case ask reg (UpdateLimit l' (quota reg)) of
                                 Inl e \<Rightarrow> (writeErr_db gw e, reg)
                               | Inr (out, db) \<Rightarrow>
                                   (let reg' = reg\<lparr>quota := db\<rparr> in (ok_reply (rule_json gw (limitView gw out reg')), reg')))))))"

definition deleteLimit :: "gateway \<Rightarrow> call_of \<Rightarrow> registry \<Rightarrow> reply \<times> registry" where
  "deleteLimit gw c reg =
     (case limitByPath gw c reg of
        Inl rep \<Rightarrow> (rep, reg)
      | Inr l \<Rightarrow> (ok_reply (status_ok ''deleted''), reg\<lparr>quota := snd (DeleteLimit (l_id l) (quota reg))\<rparr>))"

definition cooldown_json :: "gateway \<Rightarrow> cooldown \<Rightarrow> json" where
  "cooldown_json gw cd = JObj [(''scope'', JStr (c_scope cd)), (''until'', time_json gw (c_until cd)), (''reason'', JStr (c_reason cd))]"

definition limits_json :: "gateway \<Rightarrow> limits \<Rightarrow> (string \<times> json) list" where
  "limits_json gw l =
     omit_nil ''is_premium'' JBool (lm_premium l) @ [(''frozen'', JBool (lm_frozen l))]
     @ omit_nil ''frozen_since'' (time_json gw) (lm_since l) @ omit_nil ''deletion_date'' (time_json gw) (lm_deletion l)
     @ omit_empty ''appeal_link'' (lm_appeal l)
     @ [(''spam_limited'', JBool (lm_spam l)), (''cooldowns'', JArr (map (cooldown_json gw) (lm_cooldowns l)))]"

definition getLimits :: "gateway \<Rightarrow> call_of \<Rightarrow> registry \<Rightarrow> reply" where
  "getLimits gw c reg =
     (case resolveSession gw c reg of
        Inl rep \<Rightarrow> rep
      | Inr _ \<Rightarrow>
          (case ask reg (SessionLimits (gw_now gw) (path_id c) reg) of
             Inl e \<Rightarrow> writeErr_db gw e
           | Inr None \<Rightarrow> gateway_error 404 ''session not found''
           | Inr (Some l) \<Rightarrow>
               (case sessionRules gw (ListLimits (quota reg)) (path_id c) (pathKind (url_path (rc_req c))) (tokenOf c) reg of
                  Inl e \<Rightarrow> writeErr_db gw e
                | Inr rules \<Rightarrow> ok_reply (JObj (limits_json gw l @ [(''rules'', JArr (map (rule_json gw) rules))])))))"

fun my_entries :: "gateway \<Rightarrow> limit list \<Rightarrow> ident \<Rightarrow> registry \<Rightarrow> SessionInfo list \<Rightarrow> db_err + json list" where
  "my_entries gw all tok reg [] = Inr []"
| "my_entries gw all tok reg (it # its) =
     (case ask reg (SessionLimits (gw_now gw) (si_id it) reg) of
        Inl e \<Rightarrow> Inl e
      | Inr l \<Rightarrow>
          (case sessionRules gw all (si_id it) (si_kind it) tok reg of
             Inl e \<Rightarrow> Inl e
           | Inr rules \<Rightarrow>
               (case my_entries gw all tok reg its of
                  Inl e \<Rightarrow> Inl e
                | Inr js \<Rightarrow>
                    Inr (JObj (session_info_json gw it
                           @ [(''cooldowns'', (case l of None \<Rightarrow> JNull | Some x \<Rightarrow> JArr (map (cooldown_json gw) (lm_cooldowns x)))),
                              (''rules'', JArr (map (rule_json gw) rules))]) # js))))"

definition myLimits :: "gateway \<Rightarrow> call_of \<Rightarrow> registry \<Rightarrow> reply" where
  "myLimits gw c reg =
     (if tokenOf c = '''' then gateway_error 403 ''for scoped tokens; the master token reads /v1/{user|bot}/{id}/limits''
      else (case ask reg (ListSessionsForToken (gw_now gw) (tokenOf c) reg) of
              Inl e \<Rightarrow> writeErr_db gw e
            | Inr items \<Rightarrow>
                (case my_entries gw (ListLimits (quota reg)) (tokenOf c) reg items of
                   Inl e \<Rightarrow> writeErr_db gw e
                 | Inr js \<Rightarrow> ok_reply (JObj [(''sessions'', JArr js)]))))"

subsection \<open>Lemmas\<close>

text \<open>A rule that passes validation satisfies the table's own checks: no create or change fails there.\<close>

lemma valid_passes_checks: "validTarget l = '''' \<Longrightarrow> validLimit l = '''' \<Longrightarrow> limit_checks l"
  by (auto simp: validTarget_def validLimit_def limit_checks_def session_target_message_def Pers_def
      split: if_splits option.splits)

lemma change_members_target:
  "change_members fs f l = (e, l') \<Longrightarrow> set (map fst fs) \<subseteq> set (map fst changeable) \<Longrightarrow> set fs \<subseteq> set changeable \<Longrightarrow>
   l_id l' = l_id l \<and> l_level l' = l_level l \<and> l_kind l' = l_kind l \<and> l_session l' = l_session l \<and> l_token l' = l_token l"
proof (induction fs f l rule: change_members.induct)
  case (1 f l)
  then show ?case by simp
next
  case (2 k d fs f l)
  have d: "l_id l' = l_id l \<and> l_level l' = l_level l \<and> l_kind l' = l_kind l \<and> l_session l' = l_session l \<and> l_token l' = l_token l"
    if "d j l = (ok, l')" for j ok l'
    using "2.prems"(3) that by (auto simp: changeable_def on_field_def split: prod.splits)
  show ?case
  proof (cases "map_of f k")
    case None
    then show ?thesis using 2 by auto
  next
    case (Some j)
    obtain ok l1 where dj: "d j l = (ok, l1)" by (cases "d j l")
    show ?thesis
    proof (cases ok)
      case True
      then have "change_members fs f l1 = (e, l')" using "2.prems"(1) Some dj by simp
      then show ?thesis using "2.IH"(2) [OF Some dj [symmetric]] "2.prems" True d [OF dj] by simp
    next
      case False
      then show ?thesis using "2.prems"(1) Some dj d [OF dj] by simp
    qed
  qed
qed

end
