(* ===== verification/Paths.thy ===== *)
theory Paths
  imports Prelude
begin

section \<open>Slash-separated paths\<close>

text \<open>
  What the code uses of Go's \<^verbatim>\<open>path\<close> and \<^verbatim>\<open>path/filepath\<close> on Unix: \<^verbatim>\<open>Clean\<close>, \<^verbatim>\<open>Join\<close>, \<^verbatim>\<open>Dir\<close> and
  \<^verbatim>\<open>Base\<close>. A path is cleaned one component at a time on a stack, as the library does: empty and dot
  components vanish, a dot-dot takes the component before it away where there is one to take.
\<close>

definition rooted :: "string \<Rightarrow> bool" where
  "rooted p = has_prefix p ''/''"

definition clean_step :: "bool \<Rightarrow> string list \<Rightarrow> string \<Rightarrow> string list" where
  "clean_step r st c =
     (if c = '''' \<or> c = ''.'' then st
      else if c = ''..'' then
        (case st of
           [] \<Rightarrow> if r then [] else [c]
         | d # rest \<Rightarrow> if d = ''..'' then c # st else rest)
      else c # st)"

definition path_comps :: "string \<Rightarrow> string list" where
  "path_comps p = rev (foldl (clean_step (rooted p)) [] (split_on CHR ''/'' p))"

definition render :: "bool \<Rightarrow> string list \<Rightarrow> string" where
  "render r cs =
     (if r then CHR ''/'' # join_with ''/'' cs
      else if cs = [] then ''.'' else join_with ''/'' cs)"

definition Clean :: "string \<Rightarrow> string" where
  "Clean p = render (rooted p) (path_comps p)"

definition Join :: "string list \<Rightarrow> string" where
  "Join es = (let es' = filter (\<lambda>e. e \<noteq> '''') es in if es' = [] then '''' else Clean (join_with ''/'' es'))"

definition Dir :: "string \<Rightarrow> string" where
  "Dir p = Clean (rev (dropWhile (\<lambda>c. c \<noteq> CHR ''/'') (rev p)))"

definition Base :: "string \<Rightarrow> string" where
  "Base p =
     (if p = '''' then ''.''
      else (let q = rev (takeWhile (\<lambda>c. c \<noteq> CHR ''/'') (dropWhile (\<lambda>c. c = CHR ''/'') (rev p)))
            in if q = '''' then ''/'' else q))"

subsection \<open>Normal component lists\<close>

text \<open>A plain component names an entry of its directory.\<close>

definition plain :: "string \<Rightarrow> bool" where
  "plain c \<longleftrightarrow> c \<noteq> '''' \<and> c \<noteq> ''.'' \<and> c \<noteq> ''..'' \<and> CHR ''/'' \<notin> set c"

fun normal :: "bool \<Rightarrow> string list \<Rightarrow> bool" where
  "normal r [] \<longleftrightarrow> True"
| "normal r (c # cs) \<longleftrightarrow> (plain c \<and> list_all plain cs) \<or> (\<not> r \<and> c = ''..'' \<and> normal r cs)"

lemma normal_plain: "list_all plain cs \<Longrightarrow> normal r cs"
  by (cases cs) auto

lemma normal_snoc: "normal r cs \<Longrightarrow> plain c \<Longrightarrow> normal r (cs @ [c])"
  by (induction cs) auto

lemma normal_snoc_up: "normal False cs \<Longrightarrow> cs = [] \<or> last cs = ''..'' \<Longrightarrow> normal False (cs @ [''..''])"
proof (induction cs)
  case Nil
  then show ?case by simp
next
  case (Cons c cs)
  have "last (c # cs) = ''..''" using Cons.prems(2) by simp
  then have "\<not> plain (last (c # cs))" by (simp add: plain_def)
  moreover have "last (c # cs) \<in> set (c # cs)" by (rule last_in_set) simp
  ultimately have "\<not> list_all plain (c # cs)" by (auto simp only: list_all_iff)
  then have "c = ''..''" "normal False cs" using Cons.prems(1) by auto
  then show ?case using Cons.IH Cons.prems(2) by (cases cs) auto
qed

lemma normal_butlast: "normal r (cs @ [c]) \<Longrightarrow> normal r cs"
  by (induction cs) (auto intro: normal_plain)

lemma normal_rooted_last: "normal True (cs @ [c]) \<Longrightarrow> c \<noteq> ''..''"
  by (cases cs) (auto simp: plain_def)

lemma clean_step_normal:
  assumes "normal r (rev st)" and "CHR ''/'' \<notin> set c"
  shows "normal r (rev (clean_step r st c))"
proof -
  have "normal r (rev (c # st))" if "plain c" using normal_snoc [OF assms(1) that] by simp
  moreover have "c = ''..'' \<Longrightarrow> st = d # rest \<Longrightarrow> d = ''..'' \<Longrightarrow> normal r (rev (c # st))" for d rest
    using assms(1) normal_snoc_up [of "rev st"] normal_rooted_last [of "rev rest" d] by (cases r) auto
  moreover have "st = d # rest \<Longrightarrow> normal r (rev rest)" for d rest
    using assms(1) normal_butlast [of r "rev rest" d] by simp
  ultimately show ?thesis
    using assms by (auto simp: clean_step_def plain_def split: list.splits)
qed

lemma clean_steps_normal:
  "normal r (rev st) \<Longrightarrow> \<forall>c \<in> set cs. CHR ''/'' \<notin> set c \<Longrightarrow> normal r (rev (foldl (clean_step r) st cs))"
  by (induction cs arbitrary: st) (auto intro: clean_step_normal)

lemma path_comps_normal: "normal (rooted p) (path_comps p)"
proof -
  have "normal (rooted p) (rev (foldl (clean_step (rooted p)) [] (split_on CHR ''/'' p)))"
    using split_on_no_sep by (intro clean_steps_normal) auto
  then show ?thesis by (simp add: path_comps_def)
qed

lemma normal_no_slash: "normal r cs \<Longrightarrow> c \<in> set cs \<Longrightarrow> CHR ''/'' \<notin> set c \<and> c \<noteq> '''' \<and> c \<noteq> ''.''"
  by (induction cs) (auto simp: plain_def list_all_iff)

lemma clean_steps_plain: "list_all plain cs \<Longrightarrow> foldl (clean_step r) st cs = rev cs @ st"
  by (induction cs arbitrary: st) (auto simp: clean_step_def plain_def)

lemma clean_steps_ups:
  "normal r cs \<Longrightarrow> (st = [] \<or> hd st = ''..'') \<Longrightarrow> foldl (clean_step r) st cs = rev cs @ st"
proof (induction cs arbitrary: st)
  case Nil
  then show ?case by simp
next
  case (Cons c cs)
  show ?case
  proof (cases "list_all plain (c # cs)")
    case True
    then show ?thesis by (rule clean_steps_plain)
  next
    case False
    then have "clean_step r st c = c # st" "normal r cs" "c = ''..''"
      using Cons.prems by (auto simp: clean_step_def split: list.splits)
    then show ?thesis using Cons.IH [of "c # st"] by simp
  qed
qed

text \<open>Cleaning a rendered normal list finds it again: \<^verbatim>\<open>Clean\<close> is idempotent.\<close>

lemma rooted_render [simp]: "normal r cs \<Longrightarrow> rooted (render r cs) = r"
proof (cases cs)
  case Nil
  then show ?thesis by (simp add: render_def rooted_def has_prefix_def)
next
  case (Cons c cs')
  assume n: "normal r cs"
  have "c \<noteq> ''''" "CHR ''/'' \<notin> set c" using normal_no_slash [OF n] Cons by auto
  then obtain x xs where "c = x # xs" "x \<noteq> CHR ''/''" by (cases c) auto
  then show ?thesis using Cons by (cases cs') (auto simp: render_def rooted_def has_prefix_def)
qed

lemma path_comps_render [simp]:
  assumes "normal r cs"
  shows "path_comps (render r cs) = cs"
proof -
  have ns: "\<forall>c \<in> set cs. CHR ''/'' \<notin> set c" using normal_no_slash [OF assms] by blast
  have "foldl (clean_step r) [] (split_on CHR ''/'' (render r cs)) = rev cs"
  proof (cases "cs = []")
    case True
    then show ?thesis by (cases r) (simp_all add: render_def clean_step_def)
  next
    case False
    then show ?thesis
      using split_on_join [OF False ns] clean_steps_ups [OF assms, of "[]"]
      by (cases r) (simp_all add: render_def clean_step_def)
  qed
  then show ?thesis using rooted_render [OF assms] by (simp add: path_comps_def)
qed

lemma Clean_idem [simp]: "Clean (Clean p) = Clean p"
  using path_comps_normal [of p] by (simp add: Clean_def)

lemma path_comps_empty [simp]: "path_comps [] = []"
  by (simp add: path_comps_def clean_step_def)

subsection \<open>Joining a component\<close>

lemma rooted_append: "p \<noteq> '''' \<Longrightarrow> rooted (p @ q) = rooted p"
  by (cases p) (auto simp: rooted_def has_prefix_def)

lemma path_comps_append:
  "p \<noteq> '''' \<Longrightarrow> plain x \<Longrightarrow> path_comps (p @ CHR ''/'' # x) = path_comps p @ [x]"
  by (simp add: path_comps_def rooted_append split_on_append_sep split_on_single plain_def clean_step_def)

lemma Join_comps:
  assumes "p \<noteq> ''''" and "plain x"
  shows "Join [p, x] = render (rooted p) (path_comps p @ [x])"
proof -
  have "x \<noteq> ''''" using assms(2) by (simp add: plain_def)
  then have "Join [p, x] = Clean (p @ CHR ''/'' # x)" using assms(1) by (simp add: Join_def)
  then show ?thesis using assms by (simp add: Clean_def rooted_append path_comps_append)
qed

lemma render_snoc:
  "cs \<noteq> [] \<Longrightarrow> render r (cs @ [x]) = render r cs @ CHR ''/'' # x"
proof -
  have "cs \<noteq> [] \<Longrightarrow> join_with ''/'' (cs @ [x]) = join_with ''/'' cs @ CHR ''/'' # x"
    by (induction "''/''" cs rule: join_with.induct) simp_all
  then show "cs \<noteq> [] \<Longrightarrow> render r (cs @ [x]) = render r cs @ CHR ''/'' # x" by (simp add: render_def)
qed

lemma Join_snoc:
  "path_comps p \<noteq> [] \<Longrightarrow> plain x \<Longrightarrow> Join [p, x] = Clean p @ CHR ''/'' # x"
proof -
  assume a: "path_comps p \<noteq> []" "plain x"
  have "p \<noteq> ''''" using a(1) by (auto simp: path_comps_def clean_step_def)
  then show ?thesis using a by (simp add: Join_comps render_snoc Clean_def)
qed

lemma Join_normal:
  assumes "p \<noteq> ''''" and "plain x"
  shows "path_comps (Join [p, x]) = path_comps p @ [x]" and "rooted (Join [p, x]) = rooted p"
    and "Clean (Join [p, x]) = Join [p, x]" and "Join [p, x] \<noteq> ''''"
proof -
  have n: "normal (rooted p) (path_comps p @ [x])" using path_comps_normal assms(2) by (rule normal_snoc)
  show c: "path_comps (Join [p, x]) = path_comps p @ [x]" and r: "rooted (Join [p, x]) = rooted p"
    using n by (simp_all add: Join_comps [OF assms])
  show "Clean (Join [p, x]) = Join [p, x]" unfolding Clean_def c r by (simp add: Join_comps [OF assms])
  show "Join [p, x] \<noteq> ''''" using c by (auto simp: path_comps_def clean_step_def)
qed

lemma Join_inj:
  assumes "p \<noteq> ''''" "plain x" "plain y" "Join [p, x] = Join [p, y]"
  shows "x = y"
proof -
  have "path_comps p @ [x] = path_comps p @ [y]"
    using Join_normal(1) [OF assms(1,2)] Join_normal(1) [OF assms(1,3)] assms(4) by metis
  then show ?thesis by simp
qed

lemma Dir_Join:
  assumes "path_comps p \<noteq> []" and "plain x"
  shows "Dir (Join [p, x]) = Clean p"
proof -
  have "\<forall>c \<in> set (rev x). c \<noteq> CHR ''/''" using assms(2) by (auto simp: plain_def)
  then have "dropWhile (\<lambda>c. c \<noteq> CHR ''/'') (rev x @ CHR ''/'' # rev (Clean p)) = CHR ''/'' # rev (Clean p)"
    by (subst dropWhile_append2) auto
  then have "Dir (Join [p, x]) = Clean (Clean p @ ''/'')"
    by (simp add: Dir_def Join_snoc [OF assms])
  moreover have "Clean p \<noteq> ''''" using assms(1) path_comps_normal [of p]
    by (metis Clean_def path_comps_render path_comps_empty)
  then have "path_comps (Clean p @ ''/'') = path_comps (Clean p)" "rooted (Clean p @ ''/'') = rooted (Clean p)"
    using split_on_append_sep [of "CHR ''/''" "Clean p" "[]"]
    by (simp_all add: path_comps_def rooted_append clean_step_def)
  then have "Clean (Clean p @ ''/'') = Clean (Clean p)" by (metis Clean_def)
  ultimately show ?thesis by simp
qed

lemma Base_plain: "CHR ''/'' \<notin> set x \<Longrightarrow> x \<noteq> '''' \<Longrightarrow> Base x = x"
proof -
  assume a: "CHR ''/'' \<notin> set x" "x \<noteq> ''''"
  then have "last x \<noteq> CHR ''/''" by (metis last_in_set)
  then have "dropWhile (\<lambda>c. c = CHR ''/'') (rev x) = rev x" using a(2) by (cases x rule: rev_cases) auto
  moreover have "takeWhile (\<lambda>c. c \<noteq> CHR ''/'') (rev x) = rev x"
    using a(1) by (auto simp only: takeWhile_eq_all_conv set_rev)
  ultimately show ?thesis using a(2) by (simp only: Base_def Let_def rev_rev_ident if_False)
qed

end
