(* ===== verification/Upload.thy ===== *)
theory Upload
  imports Paths Json "HOL-Library.AList"
begin

section \<open>The upload store\<close>

text \<open>
  \<^verbatim>\<open>internal/upload/store.go\<close>: the volume that the gateway writes uploaded files to and the workers
  read them from, single-shot or resumable. The volume is a state: its directories with their
  modification times and its files with their bytes, keyed by clean path; a file written by
  \<^verbatim>\<open>json.Marshal\<close> is kept as the value it encodes. What the operating system and the random source do
  is an argument: the id bytes drawn, which operations on which paths fail, how much of a failed
  write reached the disk. Each method is one step.
\<close>

datatype content = Bytes string | Doc json

record volume =
  v_dirs :: "(string \<times> time) list"
  v_files :: "(string \<times> content) list"

datatype up_err =
    ErrBadName
  | ErrBadID
  | ErrNotFound
  | ErrBadOffset
  | ErrTooLarge
  | ErrIncomplete
  | MaxBytesError
  | OtherErr

record io_env =
  io_rand :: "string option"
  io_fails :: "string \<Rightarrow> string \<Rightarrow> bool"
  io_short :: nat
  io_docsize :: "json \<Rightarrow> nat"
  io_now :: time

text \<open>A request body: the bytes it delivers and the error it ends in, if any.\<close>

record body =
  b_data :: string
  b_err :: "up_err option"

record upload_store =
  st_dir :: string
  maxSingle :: int
  maxChunk :: int
  maxTotal :: int

definition maxNameBytes :: nat where "maxNameBytes = 255"
definition metaName :: string where "metaName = ''.upload.json''"

subsection \<open>Names and ids\<close>

definition ValidateName :: "string \<Rightarrow> up_err option" where
  "ValidateName name =
     (if name = '''' \<or> name = ''.'' \<or> name = ''..'' \<or> name = metaName then Some ErrBadName
      else if list_ex (\<lambda>c. c = CHR ''/'' \<or> c = CHR 0x5C \<or> c = CHR 0x00) name \<or> Base name \<noteq> name then Some ErrBadName
      else if maxNameBytes < length name then Some ErrBadName
      else None)"

definition idRe :: "string \<Rightarrow> bool" where
  "idRe s \<longleftrightarrow> length s = 32 \<and> list_all (\<lambda>c. in_range CHR ''a'' CHR ''f'' c \<or> is_digit c) s"

definition hex_digit :: "nat \<Rightarrow> char" where
  "hex_digit n = (''0123456789abcdef'' ! n)"

definition EncodeToString :: "string \<Rightarrow> string" where
  "EncodeToString bs = concat (map (\<lambda>c. [hex_digit (of_char c div 16), hex_digit (of_char c mod 16)]) bs)"

definition newID :: "io_env \<Rightarrow> string option" where
  "newID io = map_option EncodeToString (io_rand io)"

definition itemDir :: "upload_store \<Rightarrow> string \<Rightarrow> up_err + string" where
  "itemDir s uid = (if \<not> idRe uid then Inl ErrBadID else Inr (Join [st_dir s, uid]))"

subsection \<open>The file system\<close>

definition file_at :: "volume \<Rightarrow> string \<Rightarrow> content option" where
  "file_at v p = map_of (v_files v) p"

definition dir_at :: "volume \<Rightarrow> string \<Rightarrow> time option" where
  "dir_at v p = map_of (v_dirs v) p"

definition put_file :: "string \<Rightarrow> content \<Rightarrow> volume \<Rightarrow> volume" where
  "put_file p c v = v\<lparr>v_files := AList.update p c (v_files v)\<rparr>"

definition touch_dir :: "string \<Rightarrow> time \<Rightarrow> volume \<Rightarrow> volume" where
  "touch_dir p t v = v\<lparr>v_dirs := AList.update p t (v_dirs v)\<rparr>"

definition MkdirAll :: "string \<Rightarrow> time \<Rightarrow> volume \<Rightarrow> volume" where
  "MkdirAll p t v = (if dir_at v p = None then touch_dir p t v else v)"

text \<open>What lies at or below a directory, and its removal.\<close>

definition under :: "string \<Rightarrow> string \<Rightarrow> bool" where
  "under d p \<longleftrightarrow> rooted p = rooted d \<and> take (length (path_comps d)) (path_comps p) = path_comps d"

definition remove_tree :: "string \<Rightarrow> volume \<Rightarrow> volume" where
  "remove_tree d v = v\<lparr>v_dirs := filter (\<lambda>(p, _). \<not> under d p) (v_dirs v),
                       v_files := filter (\<lambda>(p, _). \<not> under d p) (v_files v)\<rparr>"

definition RemoveAll :: "io_env \<Rightarrow> string \<Rightarrow> volume \<Rightarrow> bool \<times> volume" where
  "RemoveAll io d v = (if io_fails io ''remove'' d then (False, v) else (True, remove_tree d v))"

fun file_size :: "io_env \<Rightarrow> content \<Rightarrow> int" where
  "file_size io (Bytes b) = int (length b)"
| "file_size io (Doc j) = int (io_docsize io j)"

definition Stat :: "io_env \<Rightarrow> string \<Rightarrow> volume \<Rightarrow> int option" where
  "Stat io p v = (if io_fails io ''stat'' p then None else map_option (file_size io) (file_at v p))"

text \<open>
  \<^verbatim>\<open>O_CREATE|O_EXCL\<close>: a new empty file, which also touches its directory.
\<close>

definition create_excl :: "io_env \<Rightarrow> string \<Rightarrow> string \<Rightarrow> volume \<Rightarrow> volume option" where
  "create_excl io d p v =
     (if io_fails io ''open'' p \<or> file_at v p \<noteq> None then None
      else Some (put_file p (Bytes '''') (touch_dir d (io_now io) v)))"

subsection \<open>Single-shot uploads\<close>

definition SingleShot :: "io_env \<Rightarrow> upload_store \<Rightarrow> string \<Rightarrow> body \<Rightarrow> volume \<Rightarrow> (up_err + (string \<times> int)) \<times> volume" where
  "SingleShot io s name r v =
     (case ValidateName name of
        Some e \<Rightarrow> (Inl e, v)
      | None \<Rightarrow>
          (case newID io of
             None \<Rightarrow> (Inl OtherErr, v)
           | Some uid \<Rightarrow>
               (let dir = Join [st_dir s, uid]
                in if io_fails io ''mkdir'' dir then (Inl OtherErr, v)
                   else (let v1 = MkdirAll dir (io_now io) v;
                             fpath = Join [dir, name]
                         in case create_excl io dir fpath v1 of
                              None \<Rightarrow> (Inl OtherErr, snd (RemoveAll io dir v1))
                            | Some v2 \<Rightarrow>
                                if io_fails io ''write'' fpath
                                then (Inl OtherErr, snd (RemoveAll io dir
                                        (put_file fpath (Bytes (take (io_short io) (b_data r))) v2)))
                                else (let v3 = put_file fpath (Bytes (b_data r)) v2
                                      in case b_err r of
                                           Some e \<Rightarrow> (Inl e, snd (RemoveAll io dir v3))
                                         | None \<Rightarrow>
                                             if io_fails io ''close'' fpath
                                             then (Inl OtherErr, snd (RemoveAll io dir v3))
                                             else (Inr (fpath, int (length (b_data r))), v3))))))"

subsection \<open>Resumable uploads\<close>

text \<open>
  The metadata file. \<^verbatim>\<open>json.Marshal\<close> replaces every byte of a string that is not part of valid UTF-8
  with U+FFFD.
\<close>

definition cont :: "nat \<Rightarrow> nat \<Rightarrow> string \<Rightarrow> nat \<Rightarrow> bool" where
  "cont lo hi s i = (i < length s \<and> lo \<le> of_char (s ! i) \<and> of_char (s ! i) \<le> hi)"

definition rune_len :: "string \<Rightarrow> nat" where
  "rune_len s =
     (case s of
        [] \<Rightarrow> 0
      | c # _ \<Rightarrow>
          (let b = of_char c :: nat; tail = cont 0x80 0xBF s
           in if b < 0x80 then 1
              else if 0xC2 \<le> b \<and> b \<le> 0xDF then (if tail 1 then 2 else 0)
              else if 0xE0 \<le> b \<and> b \<le> 0xEF then
                (if cont (if b = 0xE0 then 0xA0 else 0x80) (if b = 0xED then 0x9F else 0xBF) s 1 \<and> tail 2 then 3 else 0)
              else if 0xF0 \<le> b \<and> b \<le> 0xF4 then
                (if cont (if b = 0xF0 then 0x90 else 0x80) (if b = 0xF4 then 0x8F else 0xBF) s 1 \<and> tail 2 \<and> tail 3
                 then 4 else 0)
              else 0))"

function utf8_clean :: "string \<Rightarrow> string" where
  "utf8_clean [] = []"
| "utf8_clean (c # cs) =
     (let n = rune_len (c # cs)
      in if n = 0 then CHR 0xEF # CHR 0xBF # CHR 0xBD # utf8_clean cs
         else take n (c # cs) @ utf8_clean (drop n (c # cs)))"
  by pat_completeness auto
termination by (relation "measure length") auto

record meta =
  m_name :: string
  m_length :: int

definition meta_fields :: "meta field list" where
  "meta_fields = [(''name'', on_field m_name (\<lambda>x m. m\<lparr>m_name := x\<rparr>) dec_str),
                  (''length'', on_field m_length (\<lambda>x m. m\<lparr>m_length := x\<rparr>) dec_int64)]"

definition marshal_meta :: "meta \<Rightarrow> json" where
  "marshal_meta m = JObj [(''name'', JStr (utf8_clean (m_name m))), (''length'', JInt (m_length m))]"

definition Create :: "io_env \<Rightarrow> upload_store \<Rightarrow> string \<Rightarrow> int \<Rightarrow> volume \<Rightarrow> (up_err + string) \<times> volume" where
  "Create io s name len v =
     (case ValidateName name of
        Some e \<Rightarrow> (Inl e, v)
      | None \<Rightarrow>
          if len \<le> 0 \<or> maxTotal s < len then (Inl ErrTooLarge, v)
          else (case newID io of
                  None \<Rightarrow> (Inl OtherErr, v)
                | Some uid \<Rightarrow>
                    (let dir = Join [st_dir s, uid]
                     in if io_fails io ''mkdir'' dir then (Inl OtherErr, v)
                        else (let v1 = MkdirAll dir (io_now io) v;
                                  mpath = Join [dir, metaName]
                              in if io_fails io ''write'' mpath then (Inl OtherErr, snd (RemoveAll io dir v1))
                                 else (let v2 = put_file mpath (Doc (marshal_meta \<lparr>m_name = name, m_length = len\<rparr>))
                                                  (touch_dir dir (io_now io) v1)
                                       in case create_excl io dir (Join [dir, name]) v2 of
                                            None \<Rightarrow> (Inl OtherErr, snd (RemoveAll io dir v2))
                                          | Some v3 \<Rightarrow> (Inr uid, v3))))))"

definition readMeta :: "io_env \<Rightarrow> upload_store \<Rightarrow> string \<Rightarrow> volume \<Rightarrow> up_err + (string \<times> meta)" where
  "readMeta io s uid v =
     (case itemDir s uid of
        Inl e \<Rightarrow> Inl e
      | Inr dir \<Rightarrow>
          (let mpath = Join [dir, metaName]
           in if io_fails io ''read'' mpath then Inl OtherErr
              else (case file_at v mpath of
                      None \<Rightarrow> Inl ErrNotFound
                    | Some (Bytes _) \<Rightarrow> Inl OtherErr
                    | Some (Doc j) \<Rightarrow>
                        (case unmarshal (dec_struct meta_fields) (RawVal j) \<lparr>m_name = '''', m_length = 0\<rparr> of
                           (ok, m) \<Rightarrow> if ok then Inr (dir, m) else Inl OtherErr))))"

text \<open>\<^verbatim>\<open>f.WriteAt(chunk, offset)\<close> at the end of the file; a failed write may leave a first part.\<close>

fun append_bytes :: "string \<Rightarrow> content \<Rightarrow> content" where
  "append_bytes c (Bytes b) = Bytes (b @ c)"
| "append_bytes c (Doc j) = Doc j"

definition Append :: "io_env \<Rightarrow> upload_store \<Rightarrow> string \<Rightarrow> int \<Rightarrow> body \<Rightarrow> volume \<Rightarrow> (up_err + int) \<times> volume" where
  "Append io s uid offset r v =
     (case readMeta io s uid v of
        Inl e \<Rightarrow> (Inl e, v)
      | Inr (dir, m) \<Rightarrow>
          (let fpath = Join [dir, m_name m]
           in case Stat io fpath v of
                None \<Rightarrow> (Inl ErrNotFound, v)
              | Some sz \<Rightarrow>
                  if offset \<noteq> sz then (Inl ErrBadOffset, v)
                  else (case b_err r of
                          Some e \<Rightarrow> (Inl e, v)
                        | None \<Rightarrow>
                            (let chunk = b_data r
                             in if m_length m < offset + int (length chunk) then (Inl ErrTooLarge, v)
                                else if io_fails io ''open'' fpath then (Inl OtherErr, v)
                                else (case file_at v fpath of
                                        None \<Rightarrow> (Inl OtherErr, v)
                                      | Some old \<Rightarrow>
                                          if io_fails io ''write'' fpath
                                          then (Inl OtherErr, put_file fpath (append_bytes (take (io_short io) chunk) old) v)
                                          else (let v1 = put_file fpath (append_bytes chunk old) v
                                                in (Inr (offset + int (length chunk)),
                                                    if io_fails io ''chtimes'' dir then v1
                                                    else touch_dir dir (io_now io) v1)))))))"

definition Status :: "io_env \<Rightarrow> upload_store \<Rightarrow> string \<Rightarrow> volume \<Rightarrow> up_err + (int \<times> int)" where
  "Status io s uid v =
     (case readMeta io s uid v of
        Inl e \<Rightarrow> Inl e
      | Inr (dir, m) \<Rightarrow>
          (case Stat io (Join [dir, m_name m]) v of
             None \<Rightarrow> Inl ErrNotFound
           | Some sz \<Rightarrow> Inr (sz, m_length m)))"

definition Complete :: "io_env \<Rightarrow> upload_store \<Rightarrow> string \<Rightarrow> volume \<Rightarrow> up_err + (string \<times> int)" where
  "Complete io s uid v =
     (case readMeta io s uid v of
        Inl e \<Rightarrow> Inl e
      | Inr (dir, m) \<Rightarrow>
          (let fpath = Join [dir, m_name m]
           in case Stat io fpath v of
                None \<Rightarrow> Inl ErrNotFound
              | Some sz \<Rightarrow> if sz \<noteq> m_length m then Inl ErrIncomplete else Inr (fpath, sz)))"

definition Abort :: "io_env \<Rightarrow> upload_store \<Rightarrow> string \<Rightarrow> volume \<Rightarrow> up_err option \<times> volume" where
  "Abort io s uid v =
     (case itemDir s uid of
        Inl e \<Rightarrow> (Some e, v)
      | Inr dir \<Rightarrow> (case RemoveAll io dir v of (ok, v') \<Rightarrow> (if ok then None else Some OtherErr, v')))"

subsection \<open>Confinement and the sweep\<close>

definition Within :: "string \<Rightarrow> string \<Rightarrow> bool" where
  "Within p root =
     (let rp = Clean root; cp = Clean p
      in if cp = rp then False else has_prefix cp (rp @ ''/''))"

text \<open>The subdirectories \<^verbatim>\<open>os.ReadDir\<close> lists, in the order of their names.\<close>

definition subdirs :: "string \<Rightarrow> volume \<Rightarrow> string list" where
  "subdirs d v =
     sort (map (\<lambda>(p, _). last (path_comps p))
            (filter (\<lambda>(p, _). rooted p = rooted d \<and> path_comps p \<noteq> [] \<and> butlast (path_comps p) = path_comps d)
              (v_dirs v)))"

fun sweep_loop :: "io_env \<Rightarrow> upload_store \<Rightarrow> time \<Rightarrow> string list \<Rightarrow> int \<Rightarrow> volume \<Rightarrow> (up_err option \<times> int) \<times> volume" where
  "sweep_loop io s cutoff [] n v = ((None, n), v)"
| "sweep_loop io s cutoff (e # es) n v =
     (if \<not> idRe e then sweep_loop io s cutoff es n v
      else (let d = Join [st_dir s, e]
            in case (if io_fails io ''info'' d then None else dir_at v d) of
                 None \<Rightarrow> sweep_loop io s cutoff es n v
               | Some mtime \<Rightarrow>
                   if mtime < cutoff
                   then (case RemoveAll io d v of
                           (False, v') \<Rightarrow> ((Some OtherErr, n), v')
                         | (True, v') \<Rightarrow> sweep_loop io s cutoff es (n + 1) v')
                   else sweep_loop io s cutoff es n v))"

definition Sweep :: "io_env \<Rightarrow> upload_store \<Rightarrow> time \<Rightarrow> volume \<Rightarrow> (up_err option \<times> int) \<times> volume" where
  "Sweep io s cutoff v =
     (if io_fails io ''readdir'' (st_dir s) then ((Some OtherErr, 0), v)
      else sweep_loop io s cutoff (subdirs (st_dir s) v) 0 v)"

subsection \<open>Names, ids and paths\<close>

lemma ValidateName_ok:
  assumes "ValidateName name = None"
  shows "plain name" and "name \<noteq> metaName" and "length name \<le> 255"
  using assms by (auto simp: ValidateName_def plain_def maxNameBytes_def list_ex_iff split: if_splits)

lemma metaName_plain: "plain metaName"
  by (simp add: plain_def metaName_def)

lemma idRe_plain: "idRe uid \<Longrightarrow> plain uid"
  by (auto simp: idRe_def plain_def list_all_iff in_range_def)

lemma hex_digit_ok: "n < 16 \<Longrightarrow> in_range CHR ''a'' CHR ''f'' (hex_digit n) \<or> is_digit (hex_digit n)"
  by (auto simp: hex_digit_def in_range_def less_Suc_eq numeral_nat)

lemma EncodeToString_id: "length bs = 16 \<Longrightarrow> idRe (EncodeToString bs)"
proof -
  have "length (EncodeToString cs) = 2 * length cs" for cs
    by (induction cs) (simp_all add: EncodeToString_def)
  moreover have "of_char c < (256 :: nat)" for c by simp
  then have "list_all (\<lambda>c. in_range CHR ''a'' CHR ''f'' c \<or> is_digit c) (EncodeToString cs)" for cs
    by (induction cs) (auto simp: EncodeToString_def hex_digit_ok less_mult_imp_div_less)
  ultimately show "length bs = 16 \<Longrightarrow> idRe (EncodeToString bs)" by (simp add: idRe_def)
qed

lemma render_join: "cs \<noteq> [] \<Longrightarrow> render r cs = (if r then ''/'' else '''') @ join_with ''/'' cs"
  by (simp add: render_def)

lemma join_with_append:
  "cs \<noteq> [] \<Longrightarrow> ds \<noteq> [] \<Longrightarrow> join_with ''/'' (cs @ ds) = join_with ''/'' cs @ ''/'' @ join_with ''/'' ds"
  by (induction "''/''" cs rule: join_with.induct) (auto simp: neq_Nil_conv)

lemma Within_inside:
  assumes "rooted root" "path_comps root \<noteq> []" "rooted p" "rest \<noteq> []" "path_comps p = path_comps root @ rest"
  shows "Within p root"
proof -
  have "Clean p = Clean root @ ''/'' @ join_with ''/'' rest"
    using assms by (simp add: Clean_def render_join join_with_append)
  then show ?thesis by (auto simp: Within_def Let_def has_prefix_iff)
qed

text \<open>
  C35: the confinement check decides containment. For an absolute uploads directory other than the
  root of the file system, a path passes exactly when it is absolute and its components, dots
  resolved, are those of the directory followed by at least one more plain name: no sequence of
  dot-dot, empty or dot components gets a path outside past it.
\<close>

theorem Within_iff_inside:
  assumes "rooted root" and "path_comps root \<noteq> []"
  shows "Within p root \<longleftrightarrow>
    rooted p \<and> (\<exists>rest. rest \<noteq> [] \<and> list_all plain rest \<and> path_comps p = path_comps root @ rest)"
proof
  let ?cs = "path_comps root"
  have n: "normal True ?cs" using path_comps_normal [of root] assms(1) by simp
  assume "Within p root"
  then obtain q where q: "Clean p = CHR ''/'' # join_with ''/'' ?cs @ CHR ''/'' # q"
    by (auto simp: Within_def Let_def Clean_def render_def assms has_prefix_iff split: if_splits)
  then have rp: "rooted p"
    using rooted_render [OF path_comps_normal [of p]] by (simp add: Clean_def rooted_def has_prefix_def)
  have ncs: "normal True (path_comps p)" using path_comps_normal [of p] rp by simp
  have "join_with ''/'' (path_comps p) = join_with ''/'' ?cs @ CHR ''/'' # q"
    using q rp by (simp add: Clean_def render_def)
  then have "split_on CHR ''/'' (join_with ''/'' (path_comps p)) = ?cs @ split_on CHR ''/'' q"
    using split_on_join [OF assms(2)] normal_no_slash [OF n] by (simp add: split_on_append_sep)
  moreover have "path_comps p \<noteq> []"
    using q rp by (auto simp: Clean_def render_def)
  ultimately have pc: "path_comps p = ?cs @ split_on CHR ''/'' q"
    using split_on_join [of "path_comps p"] normal_no_slash [OF ncs] by simp
  have "list_all plain (path_comps p)" using ncs by (cases "path_comps p") auto
  then show "rooted p \<and> (\<exists>rest. rest \<noteq> [] \<and> list_all plain rest \<and> path_comps p = ?cs @ rest)"
    using rp pc by (intro conjI exI [of _ "split_on CHR ''/'' q"]) auto
next
  assume "rooted p \<and> (\<exists>rest. rest \<noteq> [] \<and> list_all plain rest \<and> path_comps p = path_comps root @ rest)"
  then show "Within p root" using Within_inside [OF assms] by blast
qed

theorem Within_iff_inside_witness:
  "Within ''/uploads/ab/../cd/f.txt'' ''/uploads'' \<and> \<not> Within ''/uploads/../etc/passwd'' ''/uploads''"
proof -
  have "rooted ''/uploads''" "path_comps ''/uploads'' = [''uploads'']"
    "path_comps ''/uploads/ab/../cd/f.txt'' = [''uploads'', ''cd'', ''f.txt'']" "rooted ''/uploads/ab/../cd/f.txt''"
    "path_comps ''/uploads/../etc/passwd'' = [''etc'', ''passwd'']" by code_simp+
  then show ?thesis
    using Within_iff_inside [of "''/uploads''"] by (auto simp: plain_def intro!: exI [of _ "[''cd'', ''f.txt'']"])
qed

subsection \<open>The contract of a resumable upload\<close>

text \<open>
  What a client relies on: of one upload only the declared length and the bytes received matter. An
  attempt to append, whatever it runs into, extends the received bytes by a first part of its chunk,
  and only when its offset is their number and the chunk fits; undisturbed it takes the whole chunk.
\<close>

type_synonym attempt = "io_env \<times> int \<times> body"

locale resumable =
  fixes view :: "'s \<Rightarrow> (int \<times> string) option"
    and app :: "io_env \<Rightarrow> int \<Rightarrow> body \<Rightarrow> 's \<Rightarrow> (up_err + int) \<times> 's"
    and calm :: "io_env \<Rightarrow> bool"
    and info :: "'s \<Rightarrow> 'i"
  assumes app_info: "view s = Some x \<Longrightarrow> info (snd (app io off b s)) = info s"
    and app_any: "view s = Some (len, d) \<Longrightarrow>
      \<exists>k. view (snd (app io off b s)) = Some (len, d @ take k (b_data b))
        \<and> (0 < k \<longrightarrow> off = int (length d) \<and> off + int (length (b_data b)) \<le> len)"
    and app_calm: "view s = Some (len, d) \<Longrightarrow> calm io \<Longrightarrow> b_err b = None \<Longrightarrow> off = int (length d) \<Longrightarrow>
      off + int (length (b_data b)) \<le> len \<Longrightarrow>
      fst (app io off b s) = Inr (off + int (length (b_data b)))
      \<and> view (snd (app io off b s)) = Some (len, d @ b_data b)"
begin

definition attempts :: "attempt list \<Rightarrow> 's \<Rightarrow> 's" where
  "attempts as s = foldl (\<lambda>s (io, off, b). snd (app io off b s)) s as"

lemma attempts_simps [simp]:
  "attempts [] s = s"
  "attempts ((io, off, b) # as) s = attempts as (snd (app io off b s))"
  by (simp_all add: attempts_def)

text \<open>
  A client whose every chunk is the part of its file at the offset it names: whatever is refused,
  cut short, repeated or sent out of order, what has been received is a first part of the file.
\<close>

lemma attempts_prefix:
  assumes "view s = Some (len, take n D)" and "int (length (take n D)) \<le> len"
    and "\<forall>(io, off, b) \<in> set as. 0 \<le> off \<longrightarrow> (\<exists>m. b_data b = take m (drop (nat off) D))"
  shows "\<exists>n'. view (attempts as s) = Some (len, take n' D) \<and> int (length (take n' D)) \<le> len"
  using assms
proof (induction as arbitrary: s n)
  case Nil
  then show ?case by auto
next
  case (Cons a as)
  obtain io off b where a: "a = (io, off, b)" by (cases a)
  obtain k where k: "view (snd (app io off b s)) = Some (len, take n D @ take k (b_data b))"
    and kk: "0 < k \<longrightarrow> off = int (length (take n D)) \<and> off + int (length (b_data b)) \<le> len"
    using app_any [OF Cons.prems(1)] by blast
  have "\<exists>n'. take n D @ take k (b_data b) = take n' D \<and> int (length (take n' D)) \<le> len"
  proof (cases "k = 0")
    case True
    then show ?thesis using Cons.prems(2) by auto
  next
    case False
    let ?l = "length (take n D)"
    obtain m where m: "b_data b = take m (drop ?l D)" and fits: "int ?l + int (length (b_data b)) \<le> len"
      using kk False Cons.prems(3) a by auto
    have "take n D @ take k (b_data b) = take (?l + min k m) D"
    proof (cases "n \<le> length D")
      case True
      then show ?thesis using m by (simp add: min_def take_add)
    next
      case False
      then show ?thesis using m by simp
    qed
    moreover have "int (length (take n D @ take k (b_data b))) \<le> len" using fits by simp
    ultimately show ?thesis by metis
  qed
  then obtain n' where "view (snd (app io off b s)) = Some (len, take n' D)" "int (length (take n' D)) \<le> len"
    using k by auto
  then show ?case using Cons.IH [of "snd (app io off b s)" n'] Cons.prems(3) a by simp
qed

lemma attempts_info: "view s = Some x \<Longrightarrow> info (attempts as s) = info s"
proof (induction as arbitrary: s x)
  case Nil
  then show ?case by simp
next
  case (Cons a as)
  obtain io off b where a: "a = (io, off, b)" by (cases a)
  have "\<exists>y. view (snd (app io off b s)) = Some y" using app_any [of s "fst x" "snd x"] Cons.prems by fastforce
  then show ?case using Cons.IH app_info [OF Cons.prems, of io off b] a by fastforce
qed

text \<open>Chunks sent one after the other without disturbance all arrive.\<close>

fun in_order :: "io_env \<Rightarrow> int \<Rightarrow> string list \<Rightarrow> attempt list" where
  "in_order io off [] = []"
| "in_order io off (c # cs) = (io, off, \<lparr>b_data = c, b_err = None\<rparr>) # in_order io (off + int (length c)) cs"

lemma in_order_arrive:
  assumes "calm io" and "view s = Some (len, d)" and "int (length d) + int (length (concat cs)) \<le> len"
  shows "view (attempts (in_order io (int (length d)) cs) s) = Some (len, d @ concat cs)"
  using assms
proof (induction cs arbitrary: s d)
  case Nil
  then show ?case by simp
next
  case (Cons c cs)
  let ?s = "snd (app io (int (length d)) \<lparr>b_data = c, b_err = None\<rparr> s)"
  have "view ?s = Some (len, d @ c)"
    using app_calm [OF Cons.prems(2,1), of "\<lparr>b_data = c, b_err = None\<rparr>"] Cons.prems(3) by simp
  then show ?case using Cons.IH [of ?s "d @ c"] Cons.prems by (simp add: add.assoc)
qed

end

subsection \<open>The store keeps the contract\<close>

definition no_faults :: "io_env \<Rightarrow> bool" where
  "no_faults io \<longleftrightarrow> io_fails io = (\<lambda>_ _. False)"

definition calm_io :: io_env where
  "calm_io = \<lparr>io_rand = Some (replicate 16 CHR ''x''), io_fails = (\<lambda>_ _. False), io_short = 0,
     io_docsize = (\<lambda>_. 0), io_now = 0\<rparr>"

definition upload_view :: "upload_store \<Rightarrow> string \<Rightarrow> volume \<Rightarrow> (int \<times> string) option" where
  "upload_view s uid v =
     (case readMeta calm_io s uid v of
        Inl _ \<Rightarrow> None
      | Inr (dir, m) \<Rightarrow>
          (case file_at v (Join [dir, m_name m]) of Some (Bytes b) \<Rightarrow> Some (m_length m, b) | _ \<Rightarrow> None))"

lemma file_at_put [table_simps]: "file_at (put_file p c v) q = (if q = p then Some c else file_at v q)"
  by (simp add: file_at_def put_file_def update_conv')

lemma file_at_touch [table_simps]: "file_at (touch_dir d t v) q = file_at v q"
  by (simp add: file_at_def touch_dir_def)

lemma readMeta_same: "(\<And>p. file_at v' p = file_at v p) \<Longrightarrow> readMeta io s uid v' = readMeta io s uid v"
  by (simp add: readMeta_def Let_def split: sum.split)

lemma readMeta_faults: "readMeta io s uid v = Inr x \<Longrightarrow> readMeta calm_io s uid v = Inr x"
  by (auto simp: readMeta_def calm_io_def Let_def split: sum.splits if_splits option.splits content.splits prod.splits)

lemma readMeta_no_faults: "no_faults io \<Longrightarrow> readMeta io s uid v = readMeta calm_io s uid v"
  by (simp add: readMeta_def calm_io_def no_faults_def Let_def split: sum.split)

lemma upload_view_cases:
  assumes "upload_view s uid v = Some (len, d)"
  obtains dir m where "readMeta calm_io s uid v = Inr (dir, m)" "len = m_length m"
    "file_at v (Join [dir, m_name m]) = Some (Bytes d)"
  using assms by (auto simp: upload_view_def split: sum.splits option.splits content.splits)

text \<open>Writing the data file leaves the metadata alone: the two are never the same file.\<close>

lemma upload_view_put:
  assumes r: "readMeta calm_io s uid v = Inr (dir, m)" and f: "file_at v (Join [dir, m_name m]) = Some (Bytes d)"
  shows "readMeta calm_io s uid (put_file (Join [dir, m_name m]) (Bytes d') v) = Inr (dir, m)"
    and "upload_view s uid (put_file (Join [dir, m_name m]) (Bytes d') v) = Some (m_length m, d')"
proof -
  have "\<exists>j. file_at v (Join [dir, metaName]) = Some (Doc j)" and "itemDir s uid = Inr dir"
    using r by (auto simp: readMeta_def calm_io_def Let_def split: sum.splits option.splits content.splits prod.splits if_splits)
  then have "Join [dir, m_name m] \<noteq> Join [dir, metaName]" and i: "itemDir s uid = Inr dir" using f by auto
  then show rm: "readMeta calm_io s uid (put_file (Join [dir, m_name m]) (Bytes d') v) = Inr (dir, m)"
    using r by (simp add: readMeta_def file_at_put Let_def split: if_splits)
  show "upload_view s uid (put_file (Join [dir, m_name m]) (Bytes d') v) = Some (m_length m, d')"
    by (simp add: upload_view_def file_at_put rm)
qed

lemma upload_view_touch:
  "readMeta calm_io s uid (touch_dir p t v) = readMeta calm_io s uid v"
  "upload_view s uid (touch_dir p t v) = upload_view s uid v"
proof -
  show "readMeta calm_io s uid (touch_dir p t v) = readMeta calm_io s uid v"
    by (rule readMeta_same) (simp add: file_at_touch)
  then show "upload_view s uid (touch_dir p t v) = upload_view s uid v"
    by (simp add: upload_view_def file_at_touch split: sum.split prod.split)
qed

lemma Append_readMeta:
  assumes "upload_view s uid v = Some x"
  shows "readMeta calm_io s uid (snd (Append io s uid off b v)) = readMeta calm_io s uid v"
proof -
  obtain dir m where r: "readMeta calm_io s uid v = Inr (dir, m)"
    and f: "file_at v (Join [dir, m_name m]) = Some (Bytes (snd x))"
    using assms by (auto simp: upload_view_def split: sum.splits option.splits content.splits)
  show ?thesis
  proof (cases "readMeta io s uid v")
    case (Inl e)
    then show ?thesis by (simp add: Append_def)
  next
    case (Inr y)
    then have "readMeta io s uid v = Inr (dir, m)" using readMeta_faults r by fastforce
    then show ?thesis using f r upload_view_put(1) [OF r f]
      by (auto simp: Append_def Let_def Stat_def upload_view_touch split: option.splits)
  qed
qed

interpretation store_upload: resumable "upload_view s uid" "\<lambda>io off b. Append io s uid off b" no_faults
  "readMeta calm_io s uid" for s uid
proof (unfold_locales, erule Append_readMeta)
  fix v len d io off b
  assume v: "upload_view s uid v = Some (len, d)"
  obtain dir m where r: "readMeta calm_io s uid v = Inr (dir, m)" and l: "len = m_length m"
    and f: "file_at v (Join [dir, m_name m]) = Some (Bytes d)" using upload_view_cases [OF v] .
  note put = upload_view_put [OF r f]

  show "\<exists>k. upload_view s uid (snd (Append io s uid off b v)) = Some (len, d @ take k (b_data b))
        \<and> (0 < k \<longrightarrow> off = int (length d) \<and> off + int (length (b_data b)) \<le> len)"
  proof (cases "snd (Append io s uid off b v) = v")
    case True
    then show ?thesis using v by (intro exI [of _ 0]) simp
  next
    case False
    then obtain x where "readMeta io s uid v = Inr x"
      by (auto simp: Append_def split: sum.splits)
    then have ri: "readMeta io s uid v = Inr (dir, m)" using readMeta_faults r by fastforce
    have g: "off = int (length d)" "off + int (length (b_data b)) \<le> len" "b_err b = None"
      using False f by (auto simp: Append_def ri Let_def l Stat_def split: if_splits option.splits)
    have "\<exists>k. upload_view s uid (snd (Append io s uid off b v)) = Some (len, d @ take k (b_data b))"
    proof (cases "io_fails io ''write'' (Join [dir, m_name m])")
      case True
      then show ?thesis using False f g put
        by (intro exI [of _ "io_short io"]) (auto simp: Append_def ri Let_def l Stat_def split: if_splits)
    next
      case False
      then show ?thesis using \<open>snd (Append io s uid off b v) \<noteq> v\<close> f g put
        by (intro exI [of _ "length (b_data b)"])
           (auto simp: Append_def ri Let_def l Stat_def upload_view_touch split: if_splits)
    qed
    then show ?thesis using g by blast
  qed
  assume "no_faults io" "b_err b = None" "off = int (length d)" "off + int (length (b_data b)) \<le> len"
  then show "fst (Append io s uid off b v) = Inr (off + int (length (b_data b)))
      \<and> upload_view s uid (snd (Append io s uid off b v)) = Some (len, d @ b_data b)"
    using f put r
    by (auto simp: Append_def readMeta_no_faults Let_def l Stat_def no_faults_def upload_view_touch)
qed

text \<open>A client's attempts at one upload, one after the other.\<close>

definition appends :: "upload_store \<Rightarrow> string \<Rightarrow> attempt list \<Rightarrow> volume \<Rightarrow> volume" where
  "appends s uid as v = foldl (\<lambda>v (io, off, b). snd (Append io s uid off b v)) v as"

lemma appends_attempts: "appends s uid = store_upload.attempts s uid"
  by (simp add: appends_def store_upload.attempts_def fun_eq_iff)

lemma Create_view:
  assumes c: "Create io s name len v = (Inr uid, v')" and rnd: "io_rand io = Some bs" "length bs = 16"
    and u: "utf8_clean name = name" and d: "st_dir s \<noteq> ''''" and mx: "maxTotal s \<le> max_int64"
  shows "upload_view s uid v' = Some (len, '''')"
    and "readMeta calm_io s uid v' = Inr (Join [st_dir s, uid], \<lparr>m_name = name, m_length = len\<rparr>)"
    and "idRe uid" and "ValidateName name = None"
proof -
  let ?d = "Join [st_dir s, uid]"
  show nm: "ValidateName name = None"
    using c by (auto simp: Create_def split: option.splits)
  have len: "0 < len" "len \<le> max_int64" and uid: "uid = EncodeToString bs"
    using c nm mx rnd by (auto simp: Create_def newID_def Let_def split: if_splits option.splits)
  show idr: "idRe uid" using uid EncodeToString_id [OF rnd(2)] by simp
  have dd: "?d \<noteq> ''''" using Join_normal(4) [OF d idRe_plain [OF idr]] .
  have ne: "Join [?d, name] \<noteq> Join [?d, metaName]"
    using Join_inj [OF dd ValidateName_ok(1) [OF nm] metaName_plain] ValidateName_ok(2) [OF nm] by blast
  have fs: "file_at v' (Join [?d, metaName]) = Some (Doc (marshal_meta \<lparr>m_name = name, m_length = len\<rparr>))"
    "file_at v' (Join [?d, name]) = Some (Bytes '''')"
    using c nm rnd uid ne
    by (auto simp: Create_def newID_def Let_def create_excl_def file_at_put file_at_touch
        split: if_splits option.splits)
  have "unmarshal (dec_struct meta_fields) (RawVal (marshal_meta \<lparr>m_name = name, m_length = len\<rparr>))
          \<lparr>m_name = '''', m_length = 0\<rparr> = (True, \<lparr>m_name = name, m_length = len\<rparr>)"
    using len u by (simp add: unmarshal_def dec_struct_def marshal_meta_def meta_fields_def find_field_def
        on_field_def int_bounds)
  then show rm: "readMeta calm_io s uid v' = Inr (?d, \<lparr>m_name = name, m_length = len\<rparr>)"
    using idr fs by (simp add: readMeta_def itemDir_def calm_io_def Let_def)
  show "upload_view s uid v' = Some (len, '''')" by (simp add: upload_view_def rm fs)
qed

lemma readMeta_of_view_path:
  assumes "upload_view s uid v = Some (len, d)" and "Complete io s uid v = Inr (p, n)"
  shows "file_at v p = Some (Bytes d)" and "n = len" and "int (length d) = len"
proof -
  obtain dir m where r: "readMeta calm_io s uid v = Inr (dir, m)" and l: "len = m_length m"
    and f: "file_at v (Join [dir, m_name m]) = Some (Bytes d)" using upload_view_cases [OF assms(1)] .
  obtain x where "readMeta io s uid v = Inr x" using assms(2) by (auto simp: Complete_def split: sum.splits)
  then have "readMeta io s uid v = Inr (dir, m)" using readMeta_faults r by fastforce
  then show "file_at v p = Some (Bytes d)" "n = len" "int (length d) = len"
    using assms(2) f l by (auto simp: Complete_def Let_def Stat_def split: option.splits if_splits)
qed

text \<open>
  C8: a completed upload is the client's file. Whatever happens to the chunks - failed or partial
  writes, broken bodies, repetitions, wrong or stale offsets, any order - as long as each chunk sent
  is the part of the file at the offset it names, \<^verbatim>\<open>Complete\<close> answers a path only when the file stored
  there is the client's, byte for byte.
\<close>

theorem upload_integrity:
  assumes "Create io s name (int (length D)) v = (Inr uid, v0)" and "io_rand io = Some bs" "length bs = 16"
    and "utf8_clean name = name" and "st_dir s \<noteq> ''''" and "maxTotal s \<le> max_int64"
    and "\<forall>(io, off, b) \<in> set as. 0 \<le> off \<longrightarrow> (\<exists>m. b_data b = take m (drop (nat off) D))"
    and "Complete io' s uid (appends s uid as v0) = Inr (p, n)"
  shows "file_at (appends s uid as v0) p = Some (Bytes D) \<and> n = int (length D)"
proof -
  have "upload_view s uid v0 = Some (int (length D), take 0 D)"
    using Create_view(1) [OF assms(1-6)] by simp
  then obtain n' where v: "upload_view s uid (appends s uid as v0) = Some (int (length D), take n' D)"
    using store_upload.attempts_prefix [of s uid v0 "int (length D)" 0 D as] assms(7)
    by (auto simp: appends_attempts)
  from readMeta_of_view_path [OF v assms(8)] show ?thesis by auto
qed


definition sample_store :: upload_store where
  "sample_store = \<lparr>st_dir = ''/uploads'', maxSingle = 100, maxChunk = 100, maxTotal = 1000\<rparr>"

definition empty_volume :: volume where
  "empty_volume = \<lparr>v_dirs = [], v_files = []\<rparr>"

definition sample_id :: string where
  "sample_id = ''78787878787878787878787878787878''"

lemma sample_create:
  "fst (Create calm_io sample_store ''a.txt'' 5 empty_volume) = Inr sample_id"
  by code_simp

lemma sample_store_ok:
  "rooted (st_dir sample_store)" "path_comps (st_dir sample_store) \<noteq> []" "st_dir sample_store \<noteq> ''''"
  "maxTotal sample_store \<le> max_int64" "utf8_clean ''a.txt'' = ''a.txt''" "no_faults calm_io"
  "io_rand calm_io = Some (replicate 16 CHR ''x'')"
  by (code_simp, code_simp, code_simp, code_simp, code_simp, simp_all add: no_faults_def calm_io_def)


text \<open>A repeated chunk, one cut off by the disk and one at a stale offset do no harm.\<close>

definition bad_disk :: io_env where
  "bad_disk = calm_io\<lparr>io_fails := (\<lambda>op _. op = ''write''), io_short := 1\<rparr>"

definition sample_attempts :: "attempt list" where
  "sample_attempts =
     [(calm_io, 0, \<lparr>b_data = ''he'', b_err = None\<rparr>), (calm_io, 0, \<lparr>b_data = ''he'', b_err = None\<rparr>),
      (bad_disk, 2, \<lparr>b_data = ''ll'', b_err = None\<rparr>), (calm_io, 3, \<lparr>b_data = ''lo'', b_err = None\<rparr>)]"

lemma sample_complete:
  "Complete calm_io sample_store sample_id (appends sample_store sample_id sample_attempts
     (snd (Create calm_io sample_store ''a.txt'' 5 empty_volume))) = Inr (''/uploads/'' @ sample_id @ ''/a.txt'', 5)"
  by code_simp

theorem upload_integrity_witness:
  "file_at (appends sample_store sample_id sample_attempts
     (snd (Create calm_io sample_store ''a.txt'' 5 empty_volume))) (''/uploads/'' @ sample_id @ ''/a.txt'')
   = Some (Bytes ''hello'')"
proof -
  have c: "Create calm_io sample_store ''a.txt'' (int (length ''hello'')) empty_volume
      = (Inr sample_id, snd (Create calm_io sample_store ''a.txt'' 5 empty_volume))"
    using sample_create by (simp add: prod_eq_iff)
  have "\<exists>m. ''he'' = take m (drop 0 ''hello'')" "\<exists>m. ''ll'' = take m (drop 2 ''hello'')"
    "\<exists>m. ''lo'' = take m (drop 3 ''hello'')"
    by (intro exI [of _ 2], simp add: numeral_nat)+
  then have "\<forall>(io, off, b) \<in> set sample_attempts. 0 \<le> off \<longrightarrow> (\<exists>m. b_data b = take m (drop (nat off) ''hello''))"
    by (simp add: sample_attempts_def)
  from upload_integrity [OF c sample_store_ok(7) _ sample_store_ok(5,3,4) this sample_complete]
  show ?thesis by simp
qed

text \<open>
  A resumable upload whose name is not valid UTF-8 is accepted and can then never be continued: the
  name recorded in its metadata is not that of its data file, so its status is not found.
\<close>

lemma upload_name_lost:
  "fst (Create calm_io sample_store [CHR 0xFF] 5 empty_volume) = Inr sample_id \<and>
   Status calm_io sample_store sample_id (snd (Create calm_io sample_store [CHR 0xFF] 5 empty_volume)) = Inl ErrNotFound"
  by code_simp

subsection \<open>What the sweep removes\<close>

lemma map_of_filter_key: "map_of (filter (\<lambda>(k, _). P k) al) k = (if P k then map_of al k else None)"
  by (induction al) auto

lemma file_at_remove [table_simps]: "file_at (remove_tree d v) p = (if under d p then None else file_at v p)"
  by (simp add: file_at_def remove_tree_def map_of_filter_key)

lemma dir_at_remove [table_simps]: "dir_at (remove_tree d v) p = (if under d p then None else dir_at v p)"
  by (simp add: dir_at_def remove_tree_def map_of_filter_key)

lemma under_item:
  assumes "r \<noteq> ''''" "plain e" "plain e'"
  shows "under (Join [r, e]) (Join [r, e']) \<longleftrightarrow> e = e'"
  using Join_normal [OF assms(1,2)] Join_normal [OF assms(1,3)] by (auto simp: under_def)

lemma under_item_file:
  assumes "r \<noteq> ''''" "plain e" "plain e'" "plain x"
  shows "under (Join [r, e]) (Join [Join [r, e'], x]) \<longleftrightarrow> e = e'"
  using Join_normal [OF assms(1,2)] Join_normal [OF assms(1,3)]
    Join_normal [OF Join_normal(4) [OF assms(1,3)] assms(4)] by (auto simp: under_def)

lemma subdirs_mem:
  assumes "r \<noteq> ''''" "plain e" "dir_at v (Join [r, e]) = Some t"
  shows "e \<in> set (subdirs r v)"
proof -
  have "(Join [r, e], t) \<in> set (v_dirs v)" using assms(3) by (simp add: dir_at_def map_of_SomeD)
  then show ?thesis using Join_normal [OF assms(1,2)] by (force simp: subdirs_def)
qed

definition stale :: "upload_store \<Rightarrow> time \<Rightarrow> volume \<Rightarrow> string \<Rightarrow> bool" where
  "stale s cutoff v e \<longleftrightarrow> (case dir_at v (Join [st_dir s, e]) of None \<Rightarrow> False | Some t \<Rightarrow> t < cutoff)"

lemma sweep_loop_effect:
  assumes "no_faults io" and "st_dir s \<noteq> ''''" and "idRe e" and "plain x"
  shows "dir_at (snd (sweep_loop io s cutoff es n v)) (Join [st_dir s, e])
           = (if e \<in> set es \<and> stale s cutoff v e then None else dir_at v (Join [st_dir s, e])) \<and>
         file_at (snd (sweep_loop io s cutoff es n v)) (Join [Join [st_dir s, e], x])
           = (if e \<in> set es \<and> stale s cutoff v e then None else file_at v (Join [Join [st_dir s, e], x]))"
proof (induction es arbitrary: n v)
  case Nil
  then show ?case by simp
next
  case (Cons e' es)
  note nf = assms(1) [unfolded no_faults_def]
  show ?case
  proof (cases "idRe e' \<and> stale s cutoff v e'")
    case True
    let ?v = "remove_tree (Join [st_dir s, e']) v"
    note u = under_item [OF assms(2) idRe_plain idRe_plain [OF assms(3)], of e'] True
      under_item_file [OF assms(2) idRe_plain idRe_plain [OF assms(3)] assms(4), of e']
    have "snd (sweep_loop io s cutoff (e' # es) n v) = snd (sweep_loop io s cutoff es (n + 1) ?v)"
      using True by (auto simp: nf RemoveAll_def stale_def Let_def split: option.splits)
    moreover have "stale s cutoff ?v e \<longleftrightarrow> stale s cutoff v e \<and> e \<noteq> e'"
      using u by (auto simp: stale_def dir_at_remove)
    ultimately show ?thesis using Cons.IH [of "n + 1" ?v] u True
      by (auto simp: dir_at_remove file_at_remove)
  next
    case False
    then have "snd (sweep_loop io s cutoff (e' # es) n v) = snd (sweep_loop io s cutoff es n v)"
      by (auto simp: nf stale_def Let_def split: option.splits)
    moreover have "e = e' \<Longrightarrow> \<not> stale s cutoff v e" using False assms(3) by auto
    ultimately show ?thesis using Cons.IH [of n v] by auto
  qed
qed

lemma Sweep_effect:
  assumes "no_faults io" and "st_dir s \<noteq> ''''" and "idRe e" and "plain x"
  shows "dir_at (snd (Sweep io s cutoff v)) (Join [st_dir s, e])
           = (if stale s cutoff v e then None else dir_at v (Join [st_dir s, e]))"
    and "file_at (snd (Sweep io s cutoff v)) (Join [Join [st_dir s, e], x])
           = (if stale s cutoff v e then None else file_at v (Join [Join [st_dir s, e], x]))"
proof -
  have "stale s cutoff v e \<Longrightarrow> e \<in> set (subdirs (st_dir s) v)"
    using subdirs_mem [OF assms(2) idRe_plain [OF assms(3)]] by (auto simp: stale_def split: option.splits)
  then show "dir_at (snd (Sweep io s cutoff v)) (Join [st_dir s, e])
           = (if stale s cutoff v e then None else dir_at v (Join [st_dir s, e]))"
    and "file_at (snd (Sweep io s cutoff v)) (Join [Join [st_dir s, e], x])
           = (if stale s cutoff v e then None else file_at v (Join [Join [st_dir s, e], x]))"
    using sweep_loop_effect [OF assms, of cutoff "subdirs (st_dir s) v" 0 v] assms(1)
    by (auto simp: Sweep_def no_faults_def)
qed

lemma dir_at_touch: "dir_at (touch_dir p t v) q = (if q = p then Some t else dir_at v q)"
  by (simp add: dir_at_def touch_dir_def update_conv')

text \<open>
  C37: the sweep measures inactivity. An upload that has taken a chunk no earlier than the cutoff keeps
  its metadata and every byte it received when the volume is swept, however long ago it was started;
  one whose directory was last touched before the cutoff is gone, directory and files.
\<close>

theorem Sweep_measures_inactivity:
  assumes "Append io s uid off b v = (Inr n, v1)" and "no_faults io" and "cutoff \<le> io_now io"
    and "no_faults io'" and "st_dir s \<noteq> ''''" and "\<forall>dir m. readMeta io s uid v1 = Inr (dir, m) \<longrightarrow> plain (m_name m)"
  shows "upload_view s uid (snd (Sweep io' s cutoff v1)) = upload_view s uid v1
    \<and> (\<forall>old x. idRe old \<and> plain x \<and> stale s cutoff v1 old \<longrightarrow>
         dir_at (snd (Sweep io' s cutoff v1)) (Join [st_dir s, old]) = None
         \<and> file_at (snd (Sweep io' s cutoff v1)) (Join [Join [st_dir s, old], x]) = None)"
proof -
  obtain dir m where r: "readMeta io s uid v = Inr (dir, m)" using assms(1) by (auto simp: Append_def split: sum.splits)
  then have u: "idRe uid" "dir = Join [st_dir s, uid]"
    by (auto simp: readMeta_def itemDir_def Let_def split: if_splits option.splits content.splits prod.splits)
  have "dir_at v1 dir = Some (io_now io)"
    using assms(1,2) by (auto simp: Append_def r no_faults_def Let_def dir_at_touch split: option.splits if_splits)
  then have ns: "\<not> stale s cutoff v1 uid" using assms(3) u by (simp add: stale_def)
  have same: "file_at (snd (Sweep io' s cutoff v1)) (Join [Join [st_dir s, uid], x])
      = file_at v1 (Join [Join [st_dir s, uid], x])" if "plain x" for x
    using Sweep_effect(2) [OF assms(4,5) u(1) that] ns by simp
  have rm: "readMeta calm_io s uid (snd (Sweep io' s cutoff v1)) = readMeta calm_io s uid v1"
    using same [OF metaName_plain] u by (simp add: readMeta_def itemDir_def Let_def)
  have "upload_view s uid (snd (Sweep io' s cutoff v1)) = upload_view s uid v1"
  proof (cases "readMeta calm_io s uid v1")
    case (Inr x)
    obtain d' m' where x: "x = (d', m')" by (cases x)
    have "plain (m_name m')" using Inr x assms(6) readMeta_no_faults [OF assms(2)] by simp
    moreover have "d' = Join [st_dir s, uid]"
      using Inr x u(1)
      by (auto simp: readMeta_def itemDir_def Let_def split: if_splits option.splits content.splits prod.splits)
    ultimately show ?thesis using same [of "m_name m'"] Inr by (simp add: upload_view_def rm x)
  qed (simp add: upload_view_def rm)
  then show ?thesis using Sweep_effect [OF assms(4,5)] by auto
qed

definition sample_resumed :: "(up_err + int) \<times> volume" where
  "sample_resumed = Append (calm_io\<lparr>io_now := 100\<rparr>) sample_store sample_id 0 \<lparr>b_data = ''hello'', b_err = None\<rparr>
     (snd (Create calm_io sample_store ''a.txt'' 5 empty_volume))"

theorem Sweep_measures_inactivity_witness:
  "upload_view sample_store sample_id (snd (Sweep calm_io sample_store 50 (snd sample_resumed)))
   = Some (5, ''hello'')"
proof -
  have a: "Append (calm_io\<lparr>io_now := 100\<rparr>) sample_store sample_id 0 \<lparr>b_data = ''hello'', b_err = None\<rparr>
     (snd (Create calm_io sample_store ''a.txt'' 5 empty_volume)) = (Inr 5, snd sample_resumed)"
    using prod.collapse [of sample_resumed] by (simp add: sample_resumed_def) code_simp
  have v: "upload_view sample_store sample_id (snd sample_resumed) = Some (5, ''hello'')" by code_simp
  have nf: "no_faults (calm_io\<lparr>io_now := 100\<rparr>)" "no_faults calm_io" "50 \<le> io_now (calm_io\<lparr>io_now := 100\<rparr>)"
    by (simp_all add: no_faults_def calm_io_def)
  have "readMeta (calm_io\<lparr>io_now := 100\<rparr>) sample_store sample_id (snd sample_resumed)
      = Inr (''/uploads/'' @ sample_id, \<lparr>m_name = ''a.txt'', m_length = 5\<rparr>)" by code_simp
  then have "\<forall>dir m. readMeta (calm_io\<lparr>io_now := 100\<rparr>) sample_store sample_id (snd sample_resumed) = Inr (dir, m)
      \<longrightarrow> plain (m_name m)" by (simp add: plain_def)
  from Sweep_measures_inactivity [OF a nf(1,3,2) sample_store_ok(3) this] v show ?thesis by simp
qed

end
