(* ===== verification/Router.thy ===== *)
theory Router
  imports GatewayLimits Upload
begin

section \<open>The gateway as a whole: file routes, route table, request to reply\<close>

text \<open>
  \<^verbatim>\<open>internal/router/files.go\<close>, and the route table and middleware of \<^verbatim>\<open>router.go\<close>: what happens to
  a request from its arrival to the reply or its forwarding to a worker. The property at the end is the
  gateway's promise to whoever hands out scoped tokens.
\<close>

record files_env =
  fe_io :: io_env
  fe_store :: upload_store
  fe_text :: "up_err \<Rightarrow> string"
  fe_body :: body

subsection \<open>File routes\<close>

text \<open>\<^verbatim>\<open>http.MaxBytesReader\<close>: the first n bytes, and an error when there are more.\<close>

definition MaxBytesReader :: "int \<Rightarrow> body \<Rightarrow> body" where
  "MaxBytesReader n b =
     (if n < int (length (b_data b)) then \<lparr>b_data = take (nat n) (b_data b), b_err = Some MaxBytesError\<rparr> else b)"

definition writeUploadErr :: "files_env \<Rightarrow> up_err \<Rightarrow> reply" where
  "writeUploadErr fe e =
     (case e of
        ErrBadName \<Rightarrow> gateway_error 400 (fe_text fe e)
      | ErrBadID \<Rightarrow> gateway_error 400 (fe_text fe e)
      | ErrNotFound \<Rightarrow> gateway_error 404 (fe_text fe e)
      | ErrBadOffset \<Rightarrow> gateway_error 409 (fe_text fe e)
      | ErrIncomplete \<Rightarrow> gateway_error 409 (fe_text fe e)
      | ErrTooLarge \<Rightarrow> gateway_error 413 (fe_text fe e)
      | MaxBytesError \<Rightarrow> gateway_error 413 ''body exceeds allowed size''
      | OtherErr \<Rightarrow> gateway_error 500 (fe_text fe e))"

definition createOrUpload :: "files_env \<Rightarrow> call_of \<Rightarrow> volume \<Rightarrow> reply \<times> volume" where
  "createOrUpload fe c v =
     (let name = query (rc_req c) ''name''; lh = header (rc_req c) ''Upload-Length''
      in if ValidateName name \<noteq> None then (gateway_error 400 ''invalid file name (basename only, <=255 bytes)'', v)
         else if lh \<noteq> ''''
         then (case parse_int64 lh of
                 None \<Rightarrow> (gateway_error 400 ''invalid Upload-Length'', v)
               | Some len \<Rightarrow>
                   (case Create (fe_io fe) (fe_store fe) name len v of
                      (Inl e, v') \<Rightarrow> (writeUploadErr fe e, v')
                    | (Inr i, v') \<Rightarrow>
                        (ok_reply (JObj [(''chunk_size'', JInt (maxChunk (fe_store fe))), (''upload_id'', JStr i)]), v')))
         else (case SingleShot (fe_io fe) (fe_store fe) name (MaxBytesReader (maxSingle (fe_store fe)) (fe_body fe)) v of
                 (Inl e, v') \<Rightarrow> (writeUploadErr fe e, v')
               | (Inr (p, sz), v') \<Rightarrow>
                   (ok_reply (JObj [(''name'', JStr name), (''path'', JStr p), (''size'', JInt sz)]), v')))"

definition offset_reply :: "int \<Rightarrow> json \<Rightarrow> reply" where
  "offset_reply off result =
     (case ok_reply result of
        Reply s hs j \<Rightarrow> Reply s ((''Upload-Offset'', itoa off) # hs) j
      | Relay a r \<Rightarrow> Relay a r)"

definition appendChunk :: "files_env \<Rightarrow> call_of \<Rightarrow> volume \<Rightarrow> reply \<times> volume" where
  "appendChunk fe c v =
     (case parse_int64 (header (rc_req c) ''Upload-Offset'') of
        None \<Rightarrow> (gateway_error 400 ''invalid Upload-Offset'', v)
      | Some off \<Rightarrow>
          if off < 0 then (gateway_error 400 ''invalid Upload-Offset'', v)
          else (case Append (fe_io fe) (fe_store fe) (path_id c) off (MaxBytesReader (maxChunk (fe_store fe)) (fe_body fe)) v of
                  (Inl e, v') \<Rightarrow> (writeUploadErr fe e, v')
                | (Inr new, v') \<Rightarrow> (offset_reply new (JObj [(''offset'', JInt new)]), v')))"

definition fileStatus :: "files_env \<Rightarrow> call_of \<Rightarrow> volume \<Rightarrow> reply" where
  "fileStatus fe c v =
     (case Status (fe_io fe) (fe_store fe) (path_id c) v of
        Inl e \<Rightarrow> writeUploadErr fe e
      | Inr (off, len) \<Rightarrow> offset_reply off (JObj [(''length'', JInt len), (''offset'', JInt off)]))"

definition completeUpload :: "files_env \<Rightarrow> call_of \<Rightarrow> volume \<Rightarrow> reply" where
  "completeUpload fe c v =
     (case Complete (fe_io fe) (fe_store fe) (path_id c) v of
        Inl e \<Rightarrow> writeUploadErr fe e
      | Inr (p, sz) \<Rightarrow> ok_reply (JObj [(''path'', JStr p), (''size'', JInt sz)]))"

definition abortUpload :: "files_env \<Rightarrow> call_of \<Rightarrow> volume \<Rightarrow> reply \<times> volume" where
  "abortUpload fe c v =
     (case Abort (fe_io fe) (fe_store fe) (path_id c) v of
        (Some e, v') \<Rightarrow> (writeUploadErr fe e, v')
      | (None, v') \<Rightarrow> (ok_reply (status_ok ''deleted''), v'))"

subsection \<open>The route table\<close>

datatype handler =
    Healthz | ListApps_h | ListProxies_h | ListSessions_h | ListWorkers_h | GetSend_h | GetLimits_h | MyLimits_h
  | CreateLimit_h | ListLimits_h | GetLimit_h | UpdateLimit_h | DeleteLimit_h
  | ListSubs_h | GetSub_h | DeleteSub_h | UpdateApp_h | UpdateProxy_h
  | CreateOrUpload_h | AppendChunk_h | FileStatus_h | CompleteUpload_h | AbortUpload_h
  | ListTokens_h | CreateToken_h | UpdateToken_h | DeleteToken_h
  | AnyWorker_h | Scoped_h | OwnerOrAny_h

definition file_routes :: "(string \<times> segment list \<times> handler) list" where
  "file_routes =
     [(''POST'', [Lit ''v1'', Lit ''files''], CreateOrUpload_h),
      (''PATCH'', [Lit ''v1'', Lit ''files'', Wild ''id''], AppendChunk_h),
      (''GET'', [Lit ''v1'', Lit ''files'', Wild ''id''], FileStatus_h),
      (''POST'', [Lit ''v1'', Lit ''files'', Wild ''id'', Lit ''complete''], CompleteUpload_h),
      (''DELETE'', [Lit ''v1'', Lit ''files'', Wild ''id''], AbortUpload_h)]"

definition management_routes :: "(string \<times> segment list \<times> handler) list" where
  "management_routes =
     [(''GET'', [Lit ''healthz''], Healthz),
      (''GET'', [Lit ''v1'', Lit ''apps''], ListApps_h),
      (''GET'', [Lit ''v1'', Lit ''proxies''], ListProxies_h),
      (''GET'', [Lit ''v1'', Lit ''sessions''], ListSessions_h),
      (''GET'', [Lit ''v1'', Lit ''workers''], ListWorkers_h),
      (''GET'', [Lit ''v1'', Lit ''me'', Lit ''limits''], MyLimits_h),
      (''POST'', [Lit ''v1'', Lit ''limits''], CreateLimit_h),
      (''GET'', [Lit ''v1'', Lit ''limits''], ListLimits_h),
      (''GET'', [Lit ''v1'', Lit ''limits'', Wild ''id''], GetLimit_h),
      (''PATCH'', [Lit ''v1'', Lit ''limits'', Wild ''id''], UpdateLimit_h),
      (''DELETE'', [Lit ''v1'', Lit ''limits'', Wild ''id''], DeleteLimit_h),
      (''PATCH'', [Lit ''v1'', Lit ''apps'', Wild ''id''], UpdateApp_h),
      (''PATCH'', [Lit ''v1'', Lit ''proxies'', Wild ''id''], UpdateProxy_h),
      (''GET'', [Lit ''v1'', Lit ''tokens''], ListTokens_h),
      (''POST'', [Lit ''v1'', Lit ''tokens''], CreateToken_h),
      (''PATCH'', [Lit ''v1'', Lit ''tokens'', Wild ''id''], UpdateToken_h),
      (''DELETE'', [Lit ''v1'', Lit ''tokens'', Wild ''id''], DeleteToken_h),
      (''POST'', [Lit ''v1'', Lit ''execute''], AnyWorker_h),
      (''POST'', [Lit ''v1'', Lit ''apps''], AnyWorker_h),
      (''POST'', [Lit ''v1'', Lit ''proxies''], AnyWorker_h),
      (''POST'', [Lit ''v1'', Lit ''bot''], AnyWorker_h),
      (''POST'', [Lit ''v1'', Lit ''user''], AnyWorker_h)]"

definition login_routes :: "(string \<times> segment list \<times> handler) list" where
  "login_routes =
     [(''POST'', [Lit ''v1'', Lit ''user'', Wild ''id'', Lit ''login'', Lit ''code''], Scoped_h),
      (''POST'', [Lit ''v1'', Lit ''user'', Wild ''id'', Lit ''login'', Lit ''password''], Scoped_h),
      (''POST'', [Lit ''v1'', Lit ''user'', Wild ''id'', Lit ''login'', Lit ''resend''], Scoped_h)]"

text \<open>The routes of one session, the same for both kinds.\<close>

definition session_routes :: "string \<Rightarrow> (string \<times> segment list \<times> handler) list" where
  "session_routes kind =
     [(''GET'', [Lit ''v1'', Lit kind, Wild ''id'', Lit ''sends''], GetSend_h),
      (''GET'', [Lit ''v1'', Lit kind, Wild ''id'', Lit ''limits''], GetLimits_h),
      (''GET'', [Lit ''v1'', Lit kind, Wild ''id'', Lit ''updates'', Lit ''subscriptions''], ListSubs_h),
      (''GET'', [Lit ''v1'', Lit kind, Wild ''id'', Lit ''updates'', Lit ''subscriptions'', Wild ''sub''], GetSub_h),
      (''DELETE'', [Lit ''v1'', Lit kind, Wild ''id'', Lit ''updates'', Lit ''subscriptions'', Wild ''sub''], DeleteSub_h),
      (''POST'', [Lit ''v1'', Lit kind, Wild ''id'', Lit ''call''], Scoped_h),
      (''GET'', [Lit ''v1'', Lit kind, Wild ''id''], Scoped_h),
      (''GET'', [Lit ''v1'', Lit kind, Wild ''id'', Lit ''files'', Wild ''file_id''], Scoped_h),
      (''DELETE'', [Lit ''v1'', Lit kind, Wild ''id''], OwnerOrAny_h),
      (''PATCH'', [Lit ''v1'', Lit kind, Wild ''id''], OwnerOrAny_h),
      (''POST'', [Lit ''v1'', Lit kind, Wild ''id'', Lit ''updates'', Lit ''subscriptions''], OwnerOrAny_h),
      (''DELETE'', [Lit ''v1'', Lit kind, Wild ''id'', Lit ''limits'', Lit ''cooldowns'', Wild ''scope''], OwnerOrAny_h)]"

definition routes :: "(string \<times> segment list \<times> handler) list" where
  "routes = management_routes @ file_routes @ session_routes ''user'' @ session_routes ''bot'' @ login_routes"

subsection \<open>From request to reply\<close>

record gw_state =
  gs_reg :: registry
  gs_vol :: volume

definition on_reg :: "(registry \<Rightarrow> reply \<times> registry) \<Rightarrow> gw_state \<Rightarrow> reply \<times> gw_state" where
  "on_reg f s = (case f (gs_reg s) of (rep, reg) \<Rightarrow> (rep, s\<lparr>gs_reg := reg\<rparr>))"

definition on_vol :: "(volume \<Rightarrow> reply \<times> volume) \<Rightarrow> gw_state \<Rightarrow> reply \<times> gw_state" where
  "on_vol f s = (case f (gs_vol s) of (rep, v) \<Rightarrow> (rep, s\<lparr>gs_vol := v\<rparr>))"

fun handle :: "gateway \<Rightarrow> files_env \<Rightarrow> handler \<Rightarrow> call_of \<Rightarrow> gw_state \<Rightarrow> reply \<times> gw_state" where
  "handle gw fe Healthz c s = (plain_text 200 ''ok'', s)"
| "handle gw fe ListApps_h c s = (listApps gw (gs_reg s), s)"
| "handle gw fe ListProxies_h c s = (listProxies gw (gs_reg s), s)"
| "handle gw fe ListSessions_h c s = (listSessions gw c (gs_reg s), s)"
| "handle gw fe ListWorkers_h c s = (listWorkers gw (gs_reg s), s)"
| "handle gw fe GetSend_h c s = (getSend gw c (gs_reg s), s)"
| "handle gw fe GetLimits_h c s = (getLimits gw c (gs_reg s), s)"
| "handle gw fe MyLimits_h c s = (myLimits gw c (gs_reg s), s)"
| "handle gw fe CreateLimit_h c s = on_reg (createLimit gw c) s"
| "handle gw fe ListLimits_h c s = (listLimits gw (gs_reg s), s)"
| "handle gw fe GetLimit_h c s = (getLimit gw c (gs_reg s), s)"
| "handle gw fe UpdateLimit_h c s = on_reg (updateLimit gw c) s"
| "handle gw fe DeleteLimit_h c s = on_reg (deleteLimit gw c) s"
| "handle gw fe ListSubs_h c s = (listSubscriptions gw c (gs_reg s), s)"
| "handle gw fe GetSub_h c s = (getSubscription gw c (gs_reg s), s)"
| "handle gw fe DeleteSub_h c s = on_reg (deleteSubscription gw c) s"
| "handle gw fe UpdateApp_h c s = on_reg (updateApp gw c) s"
| "handle gw fe UpdateProxy_h c s = on_reg (updateProxy gw c) s"
| "handle gw fe CreateOrUpload_h c s = on_vol (createOrUpload fe c) s"
| "handle gw fe AppendChunk_h c s = on_vol (appendChunk fe c) s"
| "handle gw fe FileStatus_h c s = (fileStatus fe c (gs_vol s), s)"
| "handle gw fe CompleteUpload_h c s = (completeUpload fe c (gs_vol s), s)"
| "handle gw fe AbortUpload_h c s = on_vol (abortUpload fe c) s"
| "handle gw fe ListTokens_h c s = (listTokens gw (gs_reg s), s)"
| "handle gw fe CreateToken_h c s = on_reg (createToken gw c) s"
| "handle gw fe UpdateToken_h c s = on_reg (updateToken gw c) s"
| "handle gw fe DeleteToken_h c s = on_reg (deleteToken gw c) s"
| "handle gw fe AnyWorker_h c s = (anyWorker gw c (gs_reg s), s)"
| "handle gw fe Scoped_h c s = (scoped gw c (gs_reg s), s)"
| "handle gw fe OwnerOrAny_h c s = (ownerOrAnyWorker gw c (gs_reg s), s)"

definition serve :: "gateway \<Rightarrow> files_env \<Rightarrow> request \<Rightarrow> gw_state \<Rightarrow> reply \<times> gw_state" where
  "serve gw fe r s =
     (case auth gw r (gs_reg s) of
        Inl rep \<Rightarrow> (rep, s)
      | Inr tok \<Rightarrow>
          (case mux_lookup routes r of
             NotFound \<Rightarrow> (plain_text 404 ''404 page not found'', s)
           | MethodNotAllowed \<Rightarrow> (plain_text 405 ''Method Not Allowed'', s)
           | Found h vs \<Rightarrow> handle gw fe h \<lparr>rc_req = r, rc_token = tok, rc_vars = vs\<rparr> s))"

subsection \<open>What a request may do\<close>

text \<open>The uses of a session a scoped token has: method and what follows the session's id in the path.\<close>

definition session_use :: "string \<Rightarrow> string list \<Rightarrow> bool" where
  "session_use m rest \<longleftrightarrow>
     (m = ''GET'' \<and> rest = []) \<or> (m = ''POST'' \<and> rest = [''call''])
     \<or> (m = ''GET'' \<and> (\<exists>x. rest = [''files'', x])) \<or> (m = ''GET'' \<and> rest = [''sends''])
     \<or> (m = ''GET'' \<and> rest = [''limits''])
     \<or> ((m = ''GET'' \<or> m = ''POST'') \<and> rest = [''updates'', ''subscriptions''])
     \<or> ((m = ''GET'' \<or> m = ''DELETE'') \<and> (\<exists>x. rest = [''updates'', ''subscriptions'', x]))"

lemma sessionTarget_parts:
  assumes "sessionTarget m path = Some sid"
  shows "\<exists>k ps. path_parts path = ''v1'' # k # sid # ps \<and> (k = ''user'' \<or> k = ''bot'') \<and> session_use m ps"
proof -
  obtain a k b ps where p: "path_parts path = a # k # b # ps"
  proof -
    have "\<not> length (path_parts path) < 3" using assms by (auto simp: sessionTarget_def Let_def split: if_splits)
    then obtain a k b ps where "path_parts path = a # k # b # ps"
      by (metis One_nat_def Suc_1 length_Cons less_Suc_eq_0_disj list.exhaust list.size(3) numeral_3_eq_3)
    then show thesis using that by blast
  qed
  show ?thesis
    using assms unfolding sessionTarget_def Let_def p
    by (cases ps; cases "tl ps"; cases "tl (tl ps)"; cases "tl (tl (tl ps))")
       (auto simp: part_def session_use_def split: if_splits)
qed

lemma cut_prefix_SomeD: "cut_prefix s p = Some t \<Longrightarrow> s = p @ t"
  by (auto simp: cut_prefix_def has_prefix_iff split: if_splits)

lemma auth_scoped:
  assumes "auth gw r reg = Inr t" and "header r ''Authorization'' \<noteq> ''Bearer '' @ gw_master gw" and "url_path r \<noteq> ''/healthz''"
  obtains secret i where "header r ''Authorization'' = ''Bearer '' @ secret" and "ResolveToken (gw_sha256 gw secret) reg = Some (i, True)"
    and "isFilesPath (url_path r) \<and> t = None
      \<or> (hr_method r = ''POST'' \<and> url_path r = ''/v1/execute'' \<and> t = None)
      \<or> (hr_method r = ''GET'' \<and> (url_path r = ''/v1/sessions'' \<or> url_path r = ''/v1/me/limits''))
      \<or> (\<exists>sid. sessionTarget (hr_method r) (url_path r) = Some sid \<and> TokenGrantsSession i sid reg = Inr True \<and> t = Some i)"
proof -
  from assms obtain secret where s: "cut_prefix (header r ''Authorization'') ''Bearer '' = Some secret"
    by (auto simp: auth_def Let_def split: if_splits option.splits)
  then have h: "header r ''Authorization'' = ''Bearer '' @ secret" by (rule cut_prefix_SomeD)
  from assms s obtain i where i: "ResolveToken (gw_sha256 gw secret) reg = Some (i, True)"
    by (auto simp: auth_def Let_def ask_def split: if_splits option.splits prod.splits sum.splits)
  have ne: "secret \<noteq> ''''" "db_up reg"
    using assms s by (auto simp: auth_def Let_def ask_def split: if_splits option.splits)
  have a: "auth gw r reg =
      (if isFilesPath (url_path r) then Inr None
       else if hr_method r = ''POST'' \<and> url_path r = ''/v1/execute'' then Inr None
       else if hr_method r = ''GET'' \<and> (url_path r = ''/v1/sessions'' \<or> url_path r = ''/v1/me/limits'') then Inr (Some i)
       else (case sessionTarget (hr_method r) (url_path r) of
               None \<Rightarrow> Inl (gateway_error 403 ''token limited to session calls; management requires the master token'')
             | Some sid \<Rightarrow> (case ask reg (TokenGrantsSession i sid reg) of
                   Inl e \<Rightarrow> Inl (writeErr_db gw e)
                 | Inr granted \<Rightarrow> if granted then Inr (Some i)
                     else Inl (gateway_error 403 ''token not permitted for this session''))))"
    using assms(2,3) ne s i h by (simp add: auth_def Let_def ask_def [of reg "Inr _"])
  have "isFilesPath (url_path r) \<and> t = None
      \<or> (hr_method r = ''POST'' \<and> url_path r = ''/v1/execute'' \<and> t = None)
      \<or> (hr_method r = ''GET'' \<and> (url_path r = ''/v1/sessions'' \<or> url_path r = ''/v1/me/limits''))
      \<or> (\<exists>sid. sessionTarget (hr_method r) (url_path r) = Some sid \<and> TokenGrantsSession i sid reg = Inr True \<and> t = Some i)"
    using assms(1) unfolding a by (auto simp: ask_def ne split: if_splits option.splits sum.splits)
  then show thesis using that h i by blast
qed

lemma resolveSession_Inr:
  "resolveSession gw c reg = Inr addr \<Longrightarrow> is_uuid reg (path_id c) \<and> session_exists (path_id c) reg \<and> db_up reg"
  by (auto simp: resolveSession_def ask_def SessionRoute_def uuid_arg_def session_exists_iff
      split: sum.splits option.splits if_splits)

lemma gateway_error_no_relay [simp]: "gateway_error st msg \<noteq> Relay a q" "ok_reply j \<noteq> Relay a q" "writeErr_db gw e \<noteq> Relay a q"
  "ok_or_502 gw x \<noteq> Relay a q" "bad_json \<noteq> Relay a q" "plain_text st msg \<noteq> Relay a q" "writeUploadErr fe ue \<noteq> Relay a q"
  "offset_reply off j \<noteq> Relay a q"
  by (auto simp: gateway_error_def ok_reply_def writeErr_db_def ok_or_502_def bad_json_def plain_text_def writeUploadErr_def
      offset_reply_def split: sum.splits up_err.splits)

lemma resolveSession_no_relay: "resolveSession gw c reg = Inl rep \<Longrightarrow> rep \<noteq> Relay a q"
  by (auto simp: resolveSession_def Let_def split: sum.splits option.splits if_splits prod.splits)

lemma header_set: "header (set_header k v r) k = v"
  by (simp add: header_def set_header_def)

lemma forward_relay:
  "forward gw c base = Relay a q \<Longrightarrow>
   q = (if tokenOf c = '''' then del_header tokenIDHeader (rc_req c)
        else set_header tokenIDHeader (tokenOf c) (del_header tokenIDHeader (rc_req c)))"
  by (auto simp: forward_def Let_def split: if_splits)

lemma relayed_session:
  assumes "scoped gw c reg = Relay a q \<or> ownerOrAnyWorker gw c reg = Relay a q"
  shows "is_uuid reg (path_id c) \<and> session_exists (path_id c) reg \<and> (tokenOf c \<noteq> '''' \<longrightarrow> header q tokenIDHeader = tokenOf c)"
  using assms resolveSession_Inr [of gw c reg] resolveSession_no_relay [of gw c reg]
  by (auto simp: scoped_def ownerOrAnyWorker_def Let_def header_set dest!: forward_relay
      split: sum.splits if_splits)

text \<open>The handlers that neither reach a worker nor touch the registry.\<close>

definition quiet :: "handler set" where
  "quiet = {Healthz, ListApps_h, ListProxies_h, ListSessions_h, ListWorkers_h, GetSend_h, GetLimits_h, MyLimits_h,
     ListLimits_h, GetLimit_h, ListSubs_h, GetSub_h, CreateOrUpload_h, AppendChunk_h, FileStatus_h, CompleteUpload_h,
     AbortUpload_h, ListTokens_h}"

lemma quiet_handler:
  assumes "handle gw fe h c s = (rep, s')" "h \<in> quiet"
  shows "gs_reg s' = gs_reg s \<and> rep \<noteq> Relay a q"
  using assms resolveSession_no_relay [of gw c "gs_reg s"]
  by (cases h)
     (auto simp: quiet_def on_vol_def listApps_def listProxies_def listSessions_def listWorkers_def getSend_def getLimits_def
       myLimits_def listLimits_def getLimit_def limitByPath_def listSubscriptions_def getSubscription_def createOrUpload_def
       appendChunk_def fileStatus_def completeUpload_def abortUpload_def listTokens_def Let_def
       split: sum.splits option.splits if_splits prod.splits list.splits)

lemmas route_defs = routes_def management_routes_def file_routes_def session_routes_def login_routes_def

lemma route_shape:
  "(m, p, h) \<in> set routes \<Longrightarrow> h \<notin> quiet \<Longrightarrow>
   \<exists>k ps. p = Lit ''v1'' # Lit k # ps \<and> clean_seg k \<and> k \<notin> {''files'', ''sessions'', ''me''}
     \<and> (k = ''execute'' \<longrightarrow> m = ''POST'' \<and> ps = [] \<and> h = AnyWorker_h)"
  by (auto simp: route_defs quiet_def clean_seg_def)

text \<open>The session routes that reach a worker or touch the registry, by what follows the session's id.\<close>

fun clean_lit :: "segment \<Rightarrow> bool" where
  "clean_lit (Lit x) = clean_seg x"
| "clean_lit (Wild v) = False"

definition session_tail_ok :: "string \<Rightarrow> segment list \<Rightarrow> handler \<Rightarrow> bool" where
  "session_tail_ok m qs h \<longleftrightarrow>
     (m = ''POST'' \<and> h = Scoped_h \<and> (qs = [Lit ''call''] \<or> (length qs = 2 \<and> qs ! 0 = Lit ''login'' \<and> clean_lit (qs ! 1))))
     \<or> (m = ''GET'' \<and> h = Scoped_h \<and> (qs = [] \<or> qs = [Lit ''files'', Wild ''file_id'']))
     \<or> (m = ''DELETE'' \<and> h = OwnerOrAny_h \<and> (qs = [] \<or> qs = [Lit ''limits'', Lit ''cooldowns'', Wild ''scope'']))
     \<or> (m = ''PATCH'' \<and> h = OwnerOrAny_h \<and> qs = [])
     \<or> (m = ''POST'' \<and> h = OwnerOrAny_h \<and> qs = [Lit ''updates'', Lit ''subscriptions''])
     \<or> (m = ''DELETE'' \<and> h = DeleteSub_h \<and> qs = [Lit ''updates'', Lit ''subscriptions'', Wild ''sub''])"

definition session_route_ok :: "string \<Rightarrow> string \<Rightarrow> segment list \<Rightarrow> handler \<Rightarrow> bool" where
  "session_route_ok m k ps h \<longleftrightarrow>
     h \<in> quiet \<or> \<not> (k = ''user'' \<or> k = ''bot'')
     \<or> (case ps of [] \<Rightarrow> True
        | p # qs \<Rightarrow> (case p of Wild i \<Rightarrow> i = ''id'' \<and> session_tail_ok m qs h | Lit _ \<Rightarrow> False))"

lemma session_routes_ok:
  "list_all (\<lambda>(m, p, h). case p of Lit a # Lit k # ps \<Rightarrow> session_route_ok m k ps h | _ \<Rightarrow> True) routes"
  unfolding clean_seg_def by code_simp

lemma session_route_shape:
  assumes "(m, Lit ''v1'' # Lit k # ps, h) \<in> set routes" "h \<notin> quiet" "k = ''user'' \<or> k = ''bot''" "ps \<noteq> []"
  shows "\<exists>qs. ps = Wild ''id'' # qs \<and> session_tail_ok m qs h"
proof -
  have "session_route_ok m k ps h"
    using bspec [OF session_routes_ok [unfolded list_all_iff] assms(1)] by simp
  then show ?thesis
    using assms(2-4) by (cases ps; cases "hd ps") (auto simp: session_route_ok_def)
qed

lemma found_route:
  assumes "mux_lookup routes r = Found h vs" "h \<notin> quiet"
  obtains m k ps rest where "(m, Lit ''v1'' # Lit k # ps, h) \<in> set routes" "hr_segs r = ''v1'' # k # rest"
    "clean_seg k" "k \<notin> {''files'', ''sessions'', ''me''}" "match_segs ps rest = Some vs" "method_matches m (hr_method r)"
    "k = ''execute'' \<longrightarrow> m = ''POST'' \<and> ps = [] \<and> h = AnyWorker_h"
proof -
  obtain m p where r: "(m, p, h) \<in> set routes" "match_segs p (hr_segs r) = Some vs" "method_matches m (hr_method r)"
    using mux_lookup_found [OF assms(1)] by blast
  obtain k ps where p: "p = Lit ''v1'' # Lit k # ps" "clean_seg k" "k \<notin> {''files'', ''sessions'', ''me''}"
      "k = ''execute'' \<longrightarrow> m = ''POST'' \<and> ps = [] \<and> h = AnyWorker_h"
    using route_shape [OF r(1) assms(2)] by blast
  from r(2) obtain rest where "hr_segs r = ''v1'' # k # rest" "match_segs ps rest = Some vs"
    unfolding p(1) match_simps by blast
  then show thesis using that r p by blast
qed

lemma isFilesPath_parts: "isFilesPath path \<Longrightarrow> \<exists>ps. path_parts path = ''v1'' # ''files'' # ps"
proof -
  assume "isFilesPath path"
  then consider "path = ''/v1/files''" | x where "path = ''/v1/files/'' @ x" by (auto simp: isFilesPath_def has_prefix_iff)
  then show ?thesis
  proof cases
    case 1
    then show ?thesis by (simp add: path_parts_def trim_by_def)
  next
    case 2
    define r :: request where "r = \<lparr>hr_method = '''', hr_segs = [''v1'', ''files''] @ [x], hr_headers = [], hr_query = [],
      hr_json = RawEmpty, hr_json_size = 0, hr_length = 0\<rparr>"
    have "url_path r = path" by (simp add: url_path_def r_def 2)
    moreover have "\<exists>ps. path_parts (url_path r) = [''v1'', ''files''] @ ps \<and> ([x] = [] \<longrightarrow> ps = [])"
      by (rule path_parts_prefix) (simp_all add: r_def clean_seg_def)
    ultimately show ?thesis by auto
  qed
qed

lemma parts_of_two: "path_parts ''/v1/execute'' = [''v1'', ''execute'']" "path_parts ''/v1/sessions'' = [''v1'', ''sessions'']"
  "path_parts ''/v1/me/limits'' = [''v1'', ''me'', ''limits'']"
  by (simp_all add: path_parts_def trim_by_def)

text \<open>The handler behind a session's route: it acts only on the session the path names.\<close>

lemma session_handler:
  assumes "handle gw fe h c s = (rep, s')" and "h \<in> {Scoped_h, OwnerOrAny_h, DeleteSub_h}"
    and "rep = Relay a q \<or> gs_reg s' \<noteq> gs_reg s"
  shows "is_uuid (gs_reg s) (path_id c) \<and> session_exists (path_id c) (gs_reg s)
    \<and> (tokenOf c \<noteq> '''' \<longrightarrow> (rep = Relay a q \<longrightarrow> header q tokenIDHeader = tokenOf c)
       \<and> (\<forall>x \<in> set (subs (gs_reg s)). x \<notin> set (subs (gs_reg s')) \<longrightarrow> sub_token x = Some (tokenOf c)))
    \<and> (rep \<noteq> Relay a q \<longrightarrow> h = DeleteSub_h)"
proof (cases "h = DeleteSub_h")
  case True
  have nr: "rep \<noteq> Relay a q"
    using assms(1) True resolveSession_no_relay [of gw c "gs_reg s"]
    by (auto simp: on_reg_def deleteSubscription_def split: sum.splits if_splits prod.splits)
  then have ch: "gs_reg s' \<noteq> gs_reg s" using assms(3) by simp
  obtain addr where res: "resolveSession gw c (gs_reg s) = Inr addr"
    using assms(1) True ch by (auto simp: on_reg_def deleteSubscription_def split: sum.splits)
  obtain found where d: "ask (gs_reg s) (DeleteSubscription (path_id c) (tokenOf c) (path_value (rc_vars c) ''sub'') (gs_reg s))
      = Inr (found, gs_reg s')"
    using assms(1) True ch res by (auto simp: on_reg_def deleteSubscription_def split: sum.splits prod.splits)
  have "sub_token x = Some (tokenOf c)"
    if "tokenOf c \<noteq> ''''" "x \<in> set (subs (gs_reg s))" "x \<notin> set (subs (gs_reg s'))" for x
  proof -
    have "gs_reg s' = delete_subs (\<lambda>x. sub_session x = path_id c \<and> sub_id x = path_value (rc_vars c) ''sub''
        \<and> owned_by (tokenOf c) x) (gs_reg s)"
      using d by (auto simp: ask_def DeleteSubscription_def uuid_arg_def split: if_splits)
    then have "subs (gs_reg s') = filter (\<lambda>x. \<not> (sub_session x = path_id c \<and> sub_id x = path_value (rc_vars c) ''sub''
        \<and> owned_by (tokenOf c) x)) (subs (gs_reg s))" by (simp add: delete_subs_def)
    then show ?thesis using that by (auto simp: owned_by_def)
  qed
  then show ?thesis using resolveSession_Inr [OF res] nr True by blast
next
  case False
  then have h: "s' = s \<and> (rep = scoped gw c (gs_reg s) \<or> rep = ownerOrAnyWorker gw c (gs_reg s))"
    using assms(1,2) by auto
  then have "rep = Relay a q" using assms(3) by auto
  then show ?thesis using relayed_session [of gw c "gs_reg s" a q] h by auto
qed

text \<open>What the route of a session's handler and the gateway's reading of the path agree on.\<close>

lemma session_use_of_route:
  assumes "session_tail_ok m qs h" and "match_segs qs rest = Some ws" and "method_matches m (hr_method r)"
    and "hr_segs r = ''v1'' # k # i # rest" and "clean_seg k" and "clean_seg i"
    and "path_parts (url_path r) = ''v1'' # k # sid # ps" and "session_use (hr_method r) ps"
  shows "sid = i \<and> session_use (hr_method r) rest"
proof -
  have pre: "\<exists>zs. path_parts (url_path r) = ''v1'' # k # i # xs @ zs \<and> (ys = [] \<longrightarrow> zs = [])"
    if "rest = xs @ ys" "list_all clean_seg xs" for xs ys
    using path_parts_prefix [of r "''v1'' # k # i # xs" ys] that assms(4-6) by (simp add: clean_seg_def)
  have sid: "sid = i" using pre [of "[]" rest] assms(7) by auto
  have ps: "\<exists>zs. ps = xs @ zs \<and> (ys = [] \<longrightarrow> zs = [])" if "rest = xs @ ys" "list_all clean_seg xs" for xs ys
    using pre [OF that] assms(7) by auto
  from assms(1) have "session_use (hr_method r) rest"
    unfolding session_tail_ok_def
  proof (elim disjE conjE)
    assume m: "m = ''POST''" and q: "qs = [Lit ''call'']"
    have "rest = [''call'']" using assms(2) unfolding q match_simps by auto
    then show ?thesis using assms(3) m by (simp add: method_matches_def session_use_def)
  next
    assume m: "m = ''POST''" and q: "length qs = 2" "qs ! 0 = Lit ''login''" "clean_lit (qs ! 1)"
    obtain x where "qs = [Lit ''login'', Lit x]" "clean_seg x"
      using q by (cases qs; cases "tl qs"; cases "qs ! 1") auto
    moreover then have "rest = [''login'', x]" using assms(2) by (auto simp: match_simps)
    ultimately have "ps = [''login'', x]" using ps [of "[''login'', x]" "[]"] by (simp add: clean_seg_def)
    then show ?thesis using assms(8) by (simp add: session_use_def)
  next
    assume "qs = []"
    then have "rest = []" using assms(2) by (simp add: match_simps)
    moreover then have "ps = []" using ps [of "[]" "[]"] by simp
    ultimately show ?thesis using assms(8) by simp
  next
    assume q: "qs = [Lit ''files'', Wild ''file_id'']"
    obtain x where x: "rest = [''files'', x]" using assms(2) unfolding q match_simps by auto
    then obtain zs where "ps = ''files'' # zs" using ps [of "[''files'']" "[x]"] by (auto simp: clean_seg_def)
    then show ?thesis using assms(8) x by (auto simp: session_use_def)
  next
    assume "qs = []"
    then have "rest = []" using assms(2) by (simp add: match_simps)
    moreover then have "ps = []" using ps [of "[]" "[]"] by simp
    ultimately show ?thesis using assms(8) by simp
  next
    assume m: "m = ''DELETE''" and q: "qs = [Lit ''limits'', Lit ''cooldowns'', Wild ''scope'']"
    obtain x where "rest = [''limits'', ''cooldowns''] @ [x]" using assms(2) unfolding q match_simps by auto
    then obtain zs where "ps = ''limits'' # ''cooldowns'' # zs"
      using ps [of "[''limits'', ''cooldowns'']" "[x]"] by (auto simp: clean_seg_def)
    then show ?thesis using assms(8) by (simp add: session_use_def)
  next
    assume "qs = []"
    then have "rest = []" using assms(2) by (simp add: match_simps)
    moreover then have "ps = []" using ps [of "[]" "[]"] by simp
    ultimately show ?thesis using assms(8) by simp
  next
    assume m: "m = ''POST''" and q: "qs = [Lit ''updates'', Lit ''subscriptions'']"
    have "rest = [''updates'', ''subscriptions'']" using assms(2) unfolding q match_simps by auto
    then show ?thesis using assms(3) m by (simp add: method_matches_def session_use_def)
  next
    assume m: "m = ''DELETE''" and q: "qs = [Lit ''updates'', Lit ''subscriptions'', Wild ''sub'']"
    obtain x where "rest = [''updates'', ''subscriptions'', x]" using assms(2) unfolding q match_simps by auto
    then show ?thesis using assms(3) m by (simp add: method_matches_def session_use_def)
  qed
  then show ?thesis using sid by blast
qed

lemma serve_acts:
  assumes "serve gw fe r s = (rep, s')" and "rep = Relay a q \<or> gs_reg s' \<noteq> gs_reg s"
  obtains t h vs where "auth gw r (gs_reg s) = Inr t" "mux_lookup routes r = Found h vs" "h \<notin> quiet"
    "handle gw fe h \<lparr>rc_req = r, rc_token = t, rc_vars = vs\<rparr> s = (rep, s')"
proof (cases "auth gw r (gs_reg s)")
  case (Inl e)
  then have "e \<noteq> Relay a q"
    by (auto simp: auth_def Let_def split: if_splits option.splits sum.splits)
  then show ?thesis using assms Inl by (auto simp: serve_def)
next
  case (Inr t)
  show ?thesis
  proof (cases "mux_lookup routes r")
    case (Found h vs)
    then have e: "handle gw fe h \<lparr>rc_req = r, rc_token = t, rc_vars = vs\<rparr> s = (rep, s')"
      using assms(1) Inr by (simp add: serve_def)
    moreover then have "h \<notin> quiet" using quiet_handler assms(2) by blast
    ultimately show ?thesis using that Inr Found by blast
  qed (use assms Inr in \<open>auto simp: serve_def\<close>)
qed

lemma session_tail_handlers: "session_tail_ok m qs h \<Longrightarrow> h \<in> {Scoped_h, OwnerOrAny_h, DeleteSub_h}"
  by (auto simp: session_tail_ok_def)

lemma parts_of_route:
  "hr_segs r = ''v1'' # k # rest \<Longrightarrow> clean_seg k \<Longrightarrow> \<exists>ps. path_parts (url_path r) = ''v1'' # k # ps \<and> (rest = [] \<longrightarrow> ps = [])"
  using path_parts_prefix [of r "[''v1'', k]" rest] by (simp add: clean_seg_def)

text \<open>Where a request without the master token can get.\<close>

lemma scoped_request:
  assumes "serve gw fe r s = (rep, s')" and "header r ''Authorization'' \<noteq> ''Bearer '' @ gw_master gw"
    and "\<forall>i. is_uuid (gs_reg s) i \<longrightarrow> clean_seg i"
    and "rep = Relay a q \<or> gs_reg s' \<noteq> gs_reg s"
  shows "\<exists>secret tok. header r ''Authorization'' = ''Bearer '' @ secret
     \<and> ResolveToken (gw_sha256 gw secret) (gs_reg s) = Some (tok, True)
     \<and> ((hr_method r = ''POST'' \<and> hr_segs r = [''v1'', ''execute''])
        \<or> (\<exists>kind sid rest. hr_segs r = ''v1'' # kind # sid # rest \<and> session_use (hr_method r) rest
             \<and> TokenGrantsSession tok sid (gs_reg s) = Inr True \<and> session_exists sid (gs_reg s)
             \<and> (rep = Relay a q \<longrightarrow> header q tokenIDHeader = tok)
             \<and> (\<forall>x \<in> set (subs (gs_reg s)). x \<notin> set (subs (gs_reg s')) \<longrightarrow> sub_token x = Some tok)))"
proof -
  obtain t h vs where au: "auth gw r (gs_reg s) = Inr t" and mux: "mux_lookup routes r = Found h vs" and nq: "h \<notin> quiet"
    and ha: "handle gw fe h \<lparr>rc_req = r, rc_token = t, rc_vars = vs\<rparr> s = (rep, s')"
    using serve_acts [OF assms(1,4)] by blast
  obtain m k ps rest where ro: "(m, Lit ''v1'' # Lit k # ps, h) \<in> set routes" "hr_segs r = ''v1'' # k # rest" "clean_seg k"
    "k \<notin> {''files'', ''sessions'', ''me''}" "match_segs ps rest = Some vs" "method_matches m (hr_method r)"
    "k = ''execute'' \<longrightarrow> m = ''POST'' \<and> ps = [] \<and> h = AnyWorker_h"
    using found_route [OF mux nq] by blast
  obtain xs where xs: "path_parts (url_path r) = ''v1'' # k # xs" "rest = [] \<longrightarrow> xs = []"
    using parts_of_route [OF ro(2,3)] by blast
  have nh: "url_path r \<noteq> ''/healthz''"
    by (simp add: url_path_def ro(2))
  obtain secret i where tok: "header r ''Authorization'' = ''Bearer '' @ secret"
    "ResolveToken (gw_sha256 gw secret) (gs_reg s) = Some (i, True)"
    and cases: "isFilesPath (url_path r) \<and> t = None
      \<or> (hr_method r = ''POST'' \<and> url_path r = ''/v1/execute'' \<and> t = None)
      \<or> (hr_method r = ''GET'' \<and> (url_path r = ''/v1/sessions'' \<or> url_path r = ''/v1/me/limits''))
      \<or> (\<exists>sid. sessionTarget (hr_method r) (url_path r) = Some sid \<and> TokenGrantsSession i sid (gs_reg s) = Inr True \<and> t = Some i)"
    using auth_scoped [OF au assms(2) nh] by blast
  from cases show ?thesis
  proof (elim disjE conjE exE)
    assume "isFilesPath (url_path r)"
    then show ?thesis using isFilesPath_parts xs(1) ro(4) by fastforce
  next
    assume e: "hr_method r = ''POST''" "url_path r = ''/v1/execute''"
    then have "k = ''execute''" using xs(1) parts_of_two by simp
    then have "rest = []" "hr_segs r = [''v1'', ''execute'']" using ro(2,5,7) by (simp_all add: match_simps)
    then show ?thesis using tok e(1) by blast
  next
    assume "url_path r = ''/v1/sessions''"
    then show ?thesis using xs(1) parts_of_two ro(4) by simp
  next
    assume "url_path r = ''/v1/me/limits''"
    then show ?thesis using xs(1) parts_of_two ro(4) by simp
  next
    fix sid
    assume st: "sessionTarget (hr_method r) (url_path r) = Some sid" and gr: "TokenGrantsSession i sid (gs_reg s) = Inr True"
      and t: "t = Some i"
    obtain ys where ys: "path_parts (url_path r) = ''v1'' # k # sid # ys" "k = ''user'' \<or> k = ''bot''" "session_use (hr_method r) ys"
      using sessionTarget_parts [OF st] xs(1) by auto
    then have "rest \<noteq> []" using xs by auto
    then have "ps \<noteq> []" using ro(5) by (auto simp: match_simps)
    then obtain qs where qs: "ps = Wild ''id'' # qs" "session_tail_ok m qs h"
      using session_route_shape [OF ro(1) nq ys(2)] by blast
    obtain j rest' ws where j: "rest = j # rest'" "match_segs qs rest' = Some ws" "vs = (''id'', j) # ws"
      using ro(5) unfolding qs(1) match_simps by blast
    let ?c = "\<lparr>rc_req = r, rc_token = t, rc_vars = vs\<rparr>"
    have pid: "path_id ?c = j" by (simp add: path_id_def path_value_def j(3))
    have iu: "clean_seg i" using gr assms(3) by (auto simp: TokenGrantsSession_True)
    have to: "tokenOf ?c = i" "i \<noteq> ''''" using iu by (simp_all add: tokenOf_def t clean_seg_def)
    note sh = session_handler [OF ha session_tail_handlers [OF qs(2)] assms(4), unfolded pid to(1)]
    have "clean_seg j" using sh assms(3) by blast
    then have u: "sid = j" "session_use (hr_method r) rest'"
      using session_use_of_route [OF qs(2) j(2) ro(6) _ ro(3) _ ys(1,3)] ro(2) j(1) by blast+
    have "hr_segs r = ''v1'' # k # j # rest'" using ro(2) j(1) by simp
    then show ?thesis using tok u sh gr to(2) by blast
  qed
qed


definition sample_gateway :: gateway where
  "sample_gateway = \<lparr>gw_master = ''root'', gw_stale = 30 * second, gw_sha256 = (\<lambda>s. s), gw_dbtext = (\<lambda>_. ''db''),
     gw_time = (\<lambda>_. ''t''), gw_parse_time = (\<lambda>_. None), gw_newtoken = None, gw_url_ok = (\<lambda>_. True), gw_newid = ''n1'',
     gw_now = 40 * second\<rparr>"

definition sample_request :: request where
  "sample_request = \<lparr>hr_method = ''POST'', hr_segs = [''v1'', ''user'', ''u1'', ''call''],
     hr_headers = [(''Authorization'', ''Bearer t1''), (''X-Tgcontrol-Token-Id'', ''forged'')], hr_query = [],
     hr_json = RawEmpty, hr_json_size = 0, hr_length = 0\<rparr>"

definition sample_gw_state :: gw_state where
  "sample_gw_state = \<lparr>gs_reg = empty_registry\<lparr>
       sessions := [sample_session ''u1'' ''user'' ''authorized'' (Some ''w1'')],
       workers := [\<lparr>w_id = ''w1'', w_addr = ''http://w1'', w_seen = 40 * second\<rparr>],
       tokens := [sample_token ''t1'' False], token_sessions := [(''t1'', ''u1'')],
       is_uuid := clean_seg\<rparr>,
     gs_vol = empty_volume\<rparr>"

definition sample_files :: files_env where
  "sample_files = \<lparr>fe_io = calm_io, fe_store = sample_store, fe_text = (\<lambda>_. ''e''), fe_body = \<lparr>b_data = '''', b_err = None\<rparr>\<rparr>"

lemma sample_serve:
  "serve sample_gateway sample_files sample_request sample_gw_state =
     (Relay ''http://w1'' (set_header tokenIDHeader ''t1'' (del_header tokenIDHeader sample_request)), sample_gw_state)"
proof -
  have au: "auth sample_gateway sample_request (gs_reg sample_gw_state) = Inr (Some ''t1'')"
    by (simp add: auth_def Let_def sample_gateway_def sample_request_def sample_gw_state_def url_path_def header_def
        cut_prefix_def has_prefix_def ask_def ResolveToken_def sample_token_def isFilesPath_def sessionTarget_def
        path_parts_def trim_by_def part_def TokenGrantsSession_def uuid_arg_def empty_registry_def clean_seg_def)
  have mux: "mux_lookup routes sample_request = Found Scoped_h [(''id'', ''u1'')]"
    by (simp add: route_defs sample_request_def method_matches_def)
  have "scoped sample_gateway \<lparr>rc_req = sample_request, rc_token = Some ''t1'', rc_vars = [(''id'', ''u1'')]\<rparr> (gs_reg sample_gw_state)
      = Relay ''http://w1'' (set_header tokenIDHeader ''t1'' (del_header tokenIDHeader sample_request))"
    by (simp add: scoped_def resolveSession_def ask_def SessionRoute_def uuid_arg_def path_id_def path_value_def
        sample_gw_state_def empty_registry_def session_by_id_def sample_session_def live_addr_def sample_gateway_def
        second_def pathKind_def Let_def url_path_def sample_request_def path_parts_def trim_by_def part_def forward_def
        tokenOf_def clean_seg_def)
  then show ?thesis by (simp add: serve_def au mux)
qed


end
