(* ===== verification/Guard.thy ===== *)
theory Guard
  imports Accounts TdJson Quota
begin

section \<open>The call guard\<close>

text \<open>
  \<^verbatim>\<open>internal/session/guard.go\<close> and \<^verbatim>\<open>internal/session/limits.go\<close>: what one session's guard keeps
  (cooldowns, the pace of writes, the account flags), how it learns from Telegram's answers, and how
  it admits or refuses a call. The mutex makes each method one atomic step. A registry write that the
  code starts on a goroutine is a job: the guard hands jobs out and \<open>run_job\<close> is what one does when
  it gets to run, in whatever order.
\<close>

definition paceInterval :: duration where "paceInterval = second"
definition maxPaceWait :: duration where "maxPaceWait = 10 * second"
definition spamLimitCooldown :: duration where "spamLimitCooldown = 24 * hour"

definition pacedGroups :: "string list" where
  "pacedGroups = [''@send'', ''@join'', ''@invite'', ''@create'', ''@contacts'']"

subsection \<open>State\<close>

record guard =
  g_cool :: "(string \<times> cooldown) list"
  g_next :: time
  g_premium :: "bool option"
  g_frozen :: bool
  g_myID :: int

definition new_guard :: guard where
  "new_guard = \<lparr>g_cool = [], g_next = zero_time, g_premium = None, g_frozen = False, g_myID = 0\<rparr>"

definition guard_load :: "limits \<Rightarrow> guard \<Rightarrow> guard" where
  "guard_load l g =
     g\<lparr>g_premium := lm_premium l, g_frozen := lm_frozen l,
       g_cool := foldl (\<lambda>m c. AList.update (c_scope c) c m) [] (lm_cooldowns l)\<rparr>"

definition guard_active :: "string \<Rightarrow> time \<Rightarrow> guard \<Rightarrow> cooldown option" where
  "guard_active scope now g =
     (case map_of (g_cool g) scope of
        None \<Rightarrow> None
      | Some c \<Rightarrow> if now < c_until c then Some c else None)"

definition guard_set :: "cooldown \<Rightarrow> guard \<Rightarrow> bool \<times> guard" where
  "guard_set c g =
     (case map_of (g_cool g) (c_scope c) of
        Some cur \<Rightarrow>
          if \<not> c_until cur < c_until c then (False, g)
          else (True, g\<lparr>g_cool := AList.update (c_scope c) c (g_cool g)\<rparr>)
      | None \<Rightarrow> (True, g\<lparr>g_cool := AList.update (c_scope c) c (g_cool g)\<rparr>))"

definition guard_clear :: "string \<Rightarrow> guard \<Rightarrow> guard" where
  "guard_clear scope g = g\<lparr>g_cool := filter (\<lambda>(k, _). k \<noteq> scope) (g_cool g)\<rparr>"

definition reserve :: "time \<Rightarrow> guard \<Rightarrow> (duration \<times> bool) \<times> guard" where
  "reserve now g =
     (let g1 = (if g_next g < now then g\<lparr>g_next := now\<rparr> else g);
          wait = sub_time (g_next g1) now
      in if maxPaceWait < wait then ((wait, False), g1)
         else ((wait, True), g1\<lparr>g_next := g_next g1 + paceInterval\<rparr>))"

definition guard_flags :: "time \<Rightarrow> guard \<Rightarrow> bool option \<times> bool \<times> bool" where
  "guard_flags now g = (g_premium g, g_frozen g, guard_active SpamLimitScope now g \<noteq> None)"

definition checkCooldown :: "string \<Rightarrow> time \<Rightarrow> guard \<Rightarrow> err option" where
  "checkCooldown scope now g =
     (case guard_active scope now g of
        None \<Rightarrow> None
      | Some c \<Rightarrow> Some (ERefused \<lparr>r_reason = ''cooldown'', r_scope = scope, r_until = c_until c,
                                  r_cause = c_reason c, r_limit = None\<rparr>))"

text \<open>\<^verbatim>\<open>RefusedError.Error\<close> and \<^verbatim>\<open>RefusedError.RetryAfter\<close>.\<close>

definition refused_text :: "refused \<Rightarrow> string" where
  "refused_text e =
     (if r_reason e = ''pace'' then ''too many '' @ r_scope e @ '' calls queued on this session''
      else if r_reason e = ''limit'' then
        (case r_limit e of
           None \<Rightarrow> ''''
         | Some l \<Rightarrow>
             (let name = (case l_label l of None \<Rightarrow> l_id l | Some x \<Rightarrow> if x = '''' then l_id l else x)
              in l_level l @ '' limit \"'' @ name @ ''\": '' @ itoa (l_max l) @ '' per '' @ l_per l @ '' ('' @
                 join_with '', '' (l_methods l) @ '')''))
      else r_scope e @ '' is cooling down: '' @ r_cause e)"

definition refused_RetryAfter :: "time \<Rightarrow> refused \<Rightarrow> int" where
  "refused_RetryAfter now e = ceil_seconds (sub_time (r_until e) now)"

subsection \<open>What Telegram's answers say\<close>

definition signals :: "string \<Rightarrow> err option \<Rightarrow> time \<Rightarrow> cooldown list \<times> bool option" where
  "signals scope e now =
     (case e of
        None \<Rightarrow> if scope \<in> set pacedGroups then ([], Some False) else ([], None)
      | Some e' \<Rightarrow>
          (case as_td e' of
             None \<Rightarrow> ([], None)
           | Some te \<Rightarrow>
               (let flood = (case RetryAfter te of
                               Some secs \<Rightarrow> [\<lparr>c_scope = scope, c_until = now + wrap64 (secs * second),
                                              c_reason = td_message te\<rparr>]
                             | None \<Rightarrow> []);
                    spam = (if contains (td_message te) ''PEER_FLOOD''
                            then [\<lparr>c_scope = SpamLimitScope, c_until = now + spamLimitCooldown,
                                   c_reason = td_message te\<rparr>]
                            else [])
                in (flood @ spam, if contains (td_message te) ''FROZEN_'' then Some True else None))))"

datatype job =
    SaveCooldown cooldown
  | SaveFrozen bool
  | SaveFreeze time time string
  | SavePremium bool

definition run_job :: "time \<Rightarrow> ident \<Rightarrow> job \<Rightarrow> registry \<Rightarrow> registry" where
  "run_job now sid j reg =
     (if \<not> db_up reg then reg
      else (case j of
              SaveCooldown c \<Rightarrow> reg_put sid c reg
            | SaveFrozen b \<Rightarrow> SetSessionFrozen now sid b reg
            | SaveFreeze since del appeal \<Rightarrow> SetSessionFreeze sid since del appeal reg
            | SavePremium b \<Rightarrow> SetSessionPremium sid b reg))"

definition coolDown :: "cooldown \<Rightarrow> guard \<Rightarrow> guard \<times> job list" where
  "coolDown c g = (case guard_set c g of (b, g') \<Rightarrow> (g', if b then [SaveCooldown c] else []))"

definition setFrozen :: "bool \<Rightarrow> guard \<Rightarrow> guard \<times> job list" where
  "setFrozen frozen g =
     (g\<lparr>g_frozen := frozen\<rparr>, if g_frozen g \<noteq> frozen then [SaveFrozen frozen] else [])"

fun coolDowns :: "cooldown list \<Rightarrow> guard \<Rightarrow> guard \<times> job list" where
  "coolDowns [] g = (g, [])"
| "coolDowns (c # cs) g =
     (let (g1, js) = coolDown c g; (g2, js') = coolDowns cs g1 in (g2, js @ js'))"

definition observe :: "string \<Rightarrow> string \<Rightarrow> err option \<Rightarrow> time \<Rightarrow> guard \<Rightarrow> guard \<times> job list" where
  "observe kind scope e now g =
     (if kind \<noteq> ''user'' then (g, [])
      else (let (cds, frozen) = signals scope e now;
                (g1, js) = coolDowns cds g
            in case frozen of
                 None \<Rightarrow> (g1, js)
               | Some b \<Rightarrow> (let (g2, js') = setFrozen b g1 in (g2, js @ js'))))"

text \<open>A message that failed after the call had returned: the error Telegram gave it, if any.\<close>

definition observeSendFailed :: "string \<Rightarrow> td_error option \<Rightarrow> time \<Rightarrow> guard \<Rightarrow> guard \<times> job list" where
  "observeSendFailed kind e now g =
     (case e of None \<Rightarrow> (g, []) | Some te \<Rightarrow> observe kind ''@send'' (Some (ETd te)) now g)"

text \<open>\<^verbatim>\<open>updateFreezeState\<close>: whether frozen, since when, the deletion date (seconds) and the appeal link.\<close>

definition noteFreeze :: "bool \<Rightarrow> int \<Rightarrow> int \<Rightarrow> string \<Rightarrow> guard \<Rightarrow> guard \<times> job list" where
  "noteFreeze frozen since deletion appeal g =
     (if \<not> frozen then setFrozen False g
      else (g\<lparr>g_frozen := True\<rparr>,
            [SaveFreeze (since * second) (if 0 < deletion then deletion * second else zero_time) appeal]))"

datatype option_value = OptBoolean bool | OptInteger int | OptString string | OptEmpty

definition notePremium :: "option_value \<Rightarrow> guard \<Rightarrow> guard \<times> job list" where
  "notePremium v g =
     (let premium = (case v of OptBoolean b \<Rightarrow> b | _ \<Rightarrow> False)
      in (g\<lparr>g_premium := Some premium\<rparr>,
          if g_premium g = Some premium then [] else [SavePremium premium]))"

definition noteMyID :: "option_value \<Rightarrow> guard \<Rightarrow> guard" where
  "noteMyID v g = (case v of OptInteger n \<Rightarrow> g\<lparr>g_myID := n\<rparr> | _ \<Rightarrow> g)"

text \<open>
  \<^verbatim>\<open>readAccount\<close>; \<^verbatim>\<open>client.UnmarshalOptionValue\<close> belongs to go-tdlib and is a parameter.
\<close>

definition readAccount ::
  "(json \<Rightarrow> option_value option) \<Rightarrow> string \<Rightarrow> td_env \<Rightarrow> guard \<Rightarrow> td_env \<times> guard \<times> job list" where
  "readAccount unmarshal_option kind env g =
     (if kind \<noteq> ''user'' then (env, g, [])
      else (let (r1, env1) = td_Call ''getOption'' (RawVal (JObj [(''name'', JStr ''my_id'')])) env;
                g1 = (case r1 of Inl _ \<Rightarrow> g
                      | Inr v \<Rightarrow> (case unmarshal_option v of None \<Rightarrow> g | Some ov \<Rightarrow> noteMyID ov g));
                (r2, env2) = td_Call ''getOption'' (RawVal (JObj [(''name'', JStr ''is_premium'')])) env1
            in case r2 of
                 Inl _ \<Rightarrow> (env2, g1, [])
               | Inr v \<Rightarrow> (case unmarshal_option v of
                            None \<Rightarrow> (env2, g1, [])
                          | Some ov \<Rightarrow> (let (g2, js) = notePremium ov g1 in (env2, g2, js)))))"

text \<open>The operator lifts a cooldown: the live copy, when this worker holds the session, and the row.\<close>

definition ClearCooldown ::
  "ident \<Rightarrow> string \<Rightarrow> guard option \<Rightarrow> registry \<Rightarrow> (db_err + bool) \<times> guard option \<times> registry" where
  "ClearCooldown sid scope live reg =
     (let live' = map_option (guard_clear scope) live
      in if \<not> db_up reg then (Inl DbDown, live', reg)
         else if \<not> is_uuid reg sid then (Inl BadUuid, live', reg)
         else (let (found, reg') = DeleteCooldown sid scope reg in (Inr found, live', reg')))"

definition loadGuard :: "time \<Rightarrow> ident \<Rightarrow> registry \<Rightarrow> guard \<Rightarrow> guard" where
  "loadGuard now sid reg g =
     (if \<not> db_up reg then g
      else (case SessionLimits now sid reg of
              Inl _ \<Rightarrow> g
            | Inr None \<Rightarrow> guard_load \<lparr>lm_premium = None, lm_frozen = False, lm_since = None,
                            lm_deletion = None, lm_appeal = '''', lm_spam = False, lm_cooldowns = []\<rparr> g
            | Inr (Some l) \<Rightarrow> guard_load l g))"

subsection \<open>The guard keeps cooldowns\<close>

definition guard_look :: "guard \<Rightarrow> string \<Rightarrow> (time \<times> string) option" where
  "guard_look g scope = map_option (\<lambda>c. (c_until c, c_reason c)) (map_of (g_cool g) scope)"

definition guard_put :: "cooldown \<Rightarrow> guard \<Rightarrow> guard" where
  "guard_put c g = snd (guard_set c g)"

interpretation live_cooldowns: cooldown_keeper guard_look guard_put "\<lambda>_. True"
  by unfold_locales
     (auto simp: guard_look_def guard_put_def guard_set_def update_conv' split: option.splits)

lemma checkCooldown_iff:
  "checkCooldown scope now g = None \<longleftrightarrow> (case guard_look g scope of None \<Rightarrow> True | Some (t, _) \<Rightarrow> t \<le> now)"
  by (auto simp: checkCooldown_def guard_active_def guard_look_def split: option.splits)

lemma checkCooldown_refuses:
  "guard_look g scope = Some (u, r) \<Longrightarrow> now < u \<Longrightarrow>
   checkCooldown scope now g = Some (ERefused \<lparr>r_reason = ''cooldown'', r_scope = scope, r_until = u,
     r_cause = r, r_limit = None\<rparr>)"
  by (auto simp: checkCooldown_def guard_active_def guard_look_def)

lemma coolDown_guard: "fst (coolDown c g) = guard_put c g"
  by (simp add: coolDown_def guard_put_def split: prod.splits)

lemma coolDowns_guard: "fst (coolDowns cs g) = foldl (\<lambda>g c. guard_put c g) g cs"
proof (induction cs arbitrary: g)
  case Nil
  then show ?case by simp
next
  case (Cons c cs)
  obtain g1 js where g1: "coolDown c g = (g1, js)" by (cases "coolDown c g")
  obtain g2 js' where "coolDowns cs g1 = (g2, js')" by (cases "coolDowns cs g1")
  then show ?case using coolDown_guard [of c g] Cons [of g1] g1 by simp
qed

lemma setFrozen_look: "guard_look (fst (setFrozen b g)) = guard_look g"
  by (simp add: setFrozen_def guard_look_def fun_eq_iff)

lemma observe_look:
  "guard_look (fst (observe kind scope e now g)) =
     (if kind = ''user''
      then guard_look (foldl (\<lambda>g c. guard_put c g) g (fst (signals scope e now))) else guard_look g)"
  using setFrozen_look
  by (auto simp: observe_def coolDowns_guard [symmetric] split: prod.splits option.splits) (metis fst_conv)+

lemma observe_keeps_later:
  "guard_look g s = Some (t, r) \<Longrightarrow>
   \<exists>t' r'. guard_look (fst (observe kind scope e now g)) s = Some (t', r') \<and> t \<le> t'"
  using live_cooldowns.puts_keep_later by (auto simp: observe_look)

text \<open>A session's observations one after the other: scope, outcome and time of each call.\<close>

fun observe_all :: "string \<Rightarrow> (string \<times> err option \<times> time) list \<Rightarrow> guard \<Rightarrow> guard" where
  "observe_all kind [] g = g"
| "observe_all kind ((scope, e, now) # os) g = observe_all kind os (fst (observe kind scope e now g))"

lemma observe_all_keeps_later:
  "guard_look g s = Some (t, r) \<Longrightarrow> \<exists>t' r'. guard_look (observe_all kind os g) s = Some (t', r') \<and> t \<le> t'"
proof (induction kind os g arbitrary: t r rule: observe_all.induct)
  case (1 kind g)
  then show ?case by simp
next
  case (2 kind scope e now os g)
  then show ?case
    using observe_keeps_later [OF "2.prems", of kind scope e now] by (fastforce dest: order_trans)
qed

lemma signals_flood:
  assumes "as_td e = Some te" and "RetryAfter te = Some n" and "n \<le> 9223372036"
  shows "\<exists>rest. fst (signals scope (Some e) now) =
    \<lparr>c_scope = scope, c_until = now + n * second, c_reason = td_message te\<rparr> # rest"
proof -
  have "0 \<le> n" using RetryAfter_nonneg [OF assms(2)] by simp
  then have "wrap64 (n * second) = n * second"
    using assms(3) by (intro wrap64_id) (simp_all add: second_def int_bounds)
  then show ?thesis using assms by (simp add: signals_def)
qed

lemma observe_flood_look:
  assumes "as_td e = Some te" and "RetryAfter te = Some n" and "n \<le> 9223372036"
  shows "\<exists>u r. guard_look (fst (observe ''user'' scope (Some e) now g)) scope = Some (u, r) \<and> now + n * second \<le> u"
proof -
  let ?c = "\<lparr>c_scope = scope, c_until = now + n * second, c_reason = td_message te\<rparr>"
  obtain rest where rest: "fst (signals scope (Some e) now) = ?c # rest"
    using signals_flood [OF assms] by blast
  have "\<exists>u r. guard_look (guard_put ?c g) scope = Some (u, r) \<and> now + n * second \<le> u"
    by (auto simp: live_cooldowns.look_put split: option.splits)
  then obtain u r where u: "guard_look (guard_put ?c g) scope = Some (u, r)" "now + n * second \<le> u" by blast
  then show ?thesis
    using live_cooldowns.puts_keep_later [OF _ u(1), of rest] by (fastforce simp: observe_look rest)
qed

text \<open>
  Once Telegram has answered a call of a user session with a flood wait of n seconds, every later
  call of the same scope is refused until those n seconds are over, whatever the session observes in
  between; the refusal names the scope and a time no earlier than the end of the wait. (The bound is
  what a 64-bit duration in nanoseconds can hold, 292 years.)
\<close>

theorem flood_wait_is_respected:
  assumes "as_td e = Some te" and "RetryAfter te = Some n" and "n \<le> 9223372036"
    and "t < now + n * second"
  shows "\<exists>u r. checkCooldown scope t (observe_all ''user'' os (fst (observe ''user'' scope (Some e) now g)))
           = Some (ERefused \<lparr>r_reason = ''cooldown'', r_scope = scope, r_until = u, r_cause = r, r_limit = None\<rparr>)
           \<and> now + n * second \<le> u"
proof -
  obtain u1 r1 where u1: "guard_look (fst (observe ''user'' scope (Some e) now g)) scope = Some (u1, r1)"
      "now + n * second \<le> u1"
    using observe_flood_look [OF assms(1-3)] by blast
  obtain u2 r2 where "guard_look (observe_all ''user'' os (fst (observe ''user'' scope (Some e) now g))) scope
      = Some (u2, r2)" "u1 \<le> u2"
    using observe_all_keeps_later [OF u1(1)] by blast
  then show ?thesis using checkCooldown_refuses u1 assms(4) by fastforce
qed

theorem flood_wait_is_respected_witness:
  "\<exists>u r. checkCooldown ''@send'' 59000000000
      (fst (observe ''user'' ''@send''
         (Some (ETd \<lparr>td_code = 429, td_message = ''Too Many Requests: retry after 60''\<rparr>)) 0 new_guard))
     = Some (ERefused \<lparr>r_reason = ''cooldown'', r_scope = ''@send'', r_until = u, r_cause = r, r_limit = None\<rparr>)
     \<and> 60 * second \<le> u"
proof -
  have r: "RetryAfter \<lparr>td_code = 429, td_message = ''Too Many Requests: retry after 60''\<rparr> = Some 60"
    by code_simp
  have "59000000000 < 0 + 60 * second" by (simp add: second_def)
  from flood_wait_is_respected [OF _ r _ this, of "ETd _" "''@send''" "[]" new_guard] show ?thesis by simp
qed

text \<open>
  Bots are left alone: whatever Telegram answers a bot's call, its guard stays as it was and
  nothing is written about the account.
\<close>

theorem bots_are_left_alone:
  "observe ''bot'' scope e now g = (g, []) \<and> observeSendFailed ''bot'' te now g = (g, [])"
  by (simp add: observe_def observeSendFailed_def split: option.splits)

subsection \<open>The live guard and the registry agree on the cooldowns\<close>

definition ends_agree :: "ident \<Rightarrow> guard \<Rightarrow> registry \<Rightarrow> bool" where
  "ends_agree sid g reg \<longleftrightarrow>
     (\<forall>scope. map_option fst (guard_look g scope) = map_option fst (reg_look sid reg scope))"

lemma coolDown_agrees:
  assumes "ends_agree sid g reg" and "session_exists sid reg" and "coolDown c g = (g', js)"
  shows "ends_agree sid g' (foldl (\<lambda>r c. reg_put sid c r) reg (if js = [] then [] else [c]))
         \<and> js \<in> {[], [SaveCooldown c]}"
proof -
  have g': "g' = guard_put c g" using coolDown_guard [of c g] assms(3) by simp
  have acc: "js = [SaveCooldown c] \<and> fst (guard_set c g) \<or> js = [] \<and> \<not> fst (guard_set c g)"
    using assms(3) by (auto simp: coolDown_def split: prod.splits if_splits)
  have no: "\<not> fst (guard_set c g) \<Longrightarrow> g' = g"
    by (auto simp: g' guard_put_def guard_set_def split: option.splits if_splits)
  have "fst (guard_set c g) \<Longrightarrow> ends_agree sid g' (reg_put sid c reg)"
    using assms(1,2)
    by (auto simp: ends_agree_def g' live_cooldowns.look_put reg_look_put split: option.splits)
       (metis fst_conv option.distinct(1) option.inject option.map_disc_iff option.simps(9))+
  then show ?thesis using acc no assms(1) by auto
qed

lemma coolDowns_agree:
  assumes "ends_agree sid g reg" and "session_exists sid reg" and "coolDowns cs g = (g', js)"
  shows "\<exists>ds. js = map SaveCooldown ds \<and> ends_agree sid g' (foldl (\<lambda>r c. reg_put sid c r) reg ds)"
  using assms
proof (induction cs arbitrary: g reg js)
  case Nil
  then show ?case by (auto intro: exI [of _ "[]"])
next
  case (Cons c cs)
  obtain g1 js1 js2 where s: "coolDown c g = (g1, js1)" "coolDowns cs g1 = (g', js2)" "js = js1 @ js2"
    using Cons.prems(3) by (auto split: prod.splits)
  define ds where "ds = (if js1 = [] then [] else [c])"
  have a: "ends_agree sid g1 (foldl (\<lambda>r c. reg_put sid c r) reg ds)" "js1 = map SaveCooldown ds"
    using coolDown_agrees [OF Cons.prems(1,2) s(1)] by (auto simp: ds_def)
  have "session_exists sid (foldl (\<lambda>r c. reg_put sid c r) reg ds)"
    using Cons.prems(2) by (rule reg_cooldowns.puts_ok)
  then obtain ds' where "js2 = map SaveCooldown ds'"
    "ends_agree sid g' (foldl (\<lambda>r c. reg_put sid c r) (foldl (\<lambda>r c. reg_put sid c r) reg ds) ds')"
    using Cons.IH [OF a(1) _ s(2)] by blast
  then show ?case using a(2) s(3) by (intro exI [of _ "ds @ ds'"]) simp
qed

lemma run_cooldown_jobs:
  "db_up reg \<Longrightarrow> foldl (\<lambda>r j. run_job now sid j r) reg (map SaveCooldown ds) = foldl (\<lambda>r c. reg_put sid c r) reg ds"
proof (induction ds arbitrary: reg)
  case Nil
  then show ?case by simp
next
  case (Cons d ds)
  have "db_up (reg_put sid d reg) = db_up reg"
    by (auto simp: reg_put_def SetCooldown_def split: option.splits)
  then show ?case using Cons by (simp add: run_job_def)
qed

text \<open>
  C32: the cooldowns of the live guard and those of the registry end at the same times: from a state
  in which they agree, however the registry writes of a batch of cooldowns are reordered by the
  goroutines that carry them, once they have all run every scope ends in the registry exactly when it
  ends in the guard, so a session that moves to another worker takes its cooldowns along.
\<close>

theorem registry_follows_cooldowns:
  assumes "ends_agree sid g reg" and "session_exists sid reg" and "db_up reg"
    and "coolDowns cs g = (g', js)" and "mset js' = mset js"
  shows "ends_agree sid g' (foldl (\<lambda>r j. run_job now sid j r) reg js')"
proof -
  obtain ds where ds: "js = map SaveCooldown ds" "ends_agree sid g' (foldl (\<lambda>r c. reg_put sid c r) reg ds)"
    using coolDowns_agree [OF assms(1,2,4)] by blast
  have "set js' = SaveCooldown ` set ds" using assms(5) ds(1) by (metis list.set_map mset_eq_setD)
  then obtain ds' where ds': "js' = map SaveCooldown ds'"
    by (metis (no_types, lifting) ex_map_conv imageE)
  define un where "un j = (case j of SaveCooldown c \<Rightarrow> c | _ \<Rightarrow> undefined)" for j
  have "mset (map un js') = mset (map un js)" using assms(5) by simp
  moreover have "map un (map SaveCooldown xs) = xs" for xs by (simp add: un_def comp_def)
  ultimately have "mset ds' = mset ds" using ds(1) ds' by metis
  then have "map_option fst (reg_look sid (foldl (\<lambda>r c. reg_put sid c r) reg ds') scope)
           = map_option fst (reg_look sid (foldl (\<lambda>r c. reg_put sid c r) reg ds) scope)" for scope
    by (rule reg_cooldowns.puts_perm [OF assms(2)])
  then show ?thesis using ds(2) assms(3) by (simp add: ends_agree_def ds' run_cooldown_jobs)
qed

theorem registry_follows_cooldowns_witness:
  "ends_agree ''s1''
     (fst (coolDowns [\<lparr>c_scope = ''@send'', c_until = 5, c_reason = ''a''\<rparr>,
                      \<lparr>c_scope = ''@send'', c_until = 9, c_reason = ''b''\<rparr>] new_guard))
     (foldl (\<lambda>r j. run_job 0 ''s1'' j r)
        (empty_registry\<lparr>sessions := [sample_session ''s1'' ''user'' ''authorized'' None]\<rparr>)
        [SaveCooldown \<lparr>c_scope = ''@send'', c_until = 9, c_reason = ''b''\<rparr>,
         SaveCooldown \<lparr>c_scope = ''@send'', c_until = 5, c_reason = ''a''\<rparr>])"
    (is "ends_agree _ (fst (coolDowns ?cs _)) (foldl _ ?reg ?run)")
proof -
  let ?js0 = "[SaveCooldown \<lparr>c_scope = ''@send'', c_until = 5, c_reason = ''a''\<rparr>,
               SaveCooldown \<lparr>c_scope = ''@send'', c_until = 9, c_reason = ''b''\<rparr>]"
  have "ends_agree ''s1'' new_guard ?reg"
    by (simp add: ends_agree_def guard_look_def new_guard_def reg_look_def cooldown_row_of_def empty_registry_def)
  moreover have "session_exists ''s1'' ?reg" "db_up ?reg"
    by (simp_all add: session_exists_def sample_session_def empty_registry_def)
  moreover have "coolDowns ?cs new_guard = (fst (coolDowns ?cs new_guard), ?js0)"
    by (simp add: coolDown_def guard_set_def new_guard_def)
  moreover have "mset ?run = mset ?js0" by (simp add: add_mset_commute)
  ultimately show ?thesis by (rule registry_follows_cooldowns)
qed

text \<open>
  The flags have no such order-free write: two changes of the freeze flag whose goroutines run in the
  other order leave the registry with the older value.
\<close>

lemma frozen_writes_race:
  "\<exists>reg g2 j1 j2.
     setFrozen True new_guard = (new_guard\<lparr>g_frozen := True\<rparr>, [j1])
     \<and> setFrozen False (new_guard\<lparr>g_frozen := True\<rparr>) = (g2, [j2])
     \<and> \<not> g_frozen g2
     \<and> map_option s_frozen_at (session_by_id ''s1'' (run_job 0 ''s1'' j1 (run_job 0 ''s1'' j2 reg))) = Some (Some 0)"
  by (rule exI [of _ "empty_registry\<lparr>sessions := [sample_session ''s1'' ''user'' ''authorized'' None]\<rparr>"])
     (simp add: setFrozen_def new_guard_def run_job_def SetSessionFrozen_def update_session_def
        session_by_id_def sample_session_def empty_registry_def)

subsection \<open>The pace of writes\<close>

lemma reserve_eq:
  "reserve now g =
     (let slot = max (g_next g) now
      in if now + maxPaceWait < slot then ((min max_int64 (slot - now), False), g)
         else ((slot - now, True), g\<lparr>g_next := slot + paceInterval\<rparr>))"
  by (cases "g_next g < now") (auto simp: reserve_def sub_time_def Let_def maxPaceWait_def duration_defs int_bounds)

text \<open>The slots granted to writes that ask at the given times, with the times they asked.\<close>

fun reserve_run :: "time list \<Rightarrow> guard \<Rightarrow> (time \<times> time) list" where
  "reserve_run [] g = []"
| "reserve_run (t # ts) g =
     (case reserve t g of
        ((wait, True), g') \<Rightarrow> (t, t + wait) # reserve_run ts g'
      | ((wait, False), g') \<Rightarrow> reserve_run ts g')"

lemma reserve_run_after: "(t, slot) \<in> set (reserve_run ts g) \<Longrightarrow> g_next g \<le> slot"
proof (induction ts arbitrary: g)
  case Nil
  then show ?case by simp
next
  case (Cons u ts)
  show ?case
  proof (cases "u + maxPaceWait < max (g_next g) u")
    case True
    then show ?thesis using Cons by (simp add: reserve_eq Let_def)
  next
    case False
    have p: "0 < paceInterval" by (simp add: paceInterval_def duration_defs)
    then show ?thesis
      using False Cons.prems Cons.IH [of "g\<lparr>g_next := max (g_next g) u + paceInterval\<rparr>"]
      by (auto simp: reserve_eq Let_def)
  qed
qed

text \<open>
  C33: whatever times the paced writes of a session ask at, and however the clock moves, the starts
  they are granted are at least one second apart in the order of asking, none lies before its request
  and none more than ten seconds after it.
\<close>

theorem reserve_paces:
  "sorted_wrt (\<lambda>a b. snd a + paceInterval \<le> snd b) (reserve_run ts g)
   \<and> (\<forall>p \<in> set (reserve_run ts g). fst p \<le> snd p \<and> snd p \<le> fst p + maxPaceWait)"
proof (induction ts arbitrary: g)
  case Nil
  then show ?case by simp
next
  case (Cons t ts)
  show ?case
  proof (cases "t + maxPaceWait < max (g_next g) t")
    case True
    then show ?thesis using Cons by (simp add: reserve_eq Let_def)
  next
    case False
    let ?g = "g\<lparr>g_next := max (g_next g) t + paceInterval\<rparr>"
    have "\<forall>p \<in> set (reserve_run ts ?g). max (g_next g) t + paceInterval \<le> snd p"
      using reserve_run_after [where g = ?g] by fastforce
    moreover have "0 \<le> maxPaceWait" by (simp add: maxPaceWait_def duration_defs)
    ultimately show ?thesis using False Cons [of ?g] by (simp add: reserve_eq Let_def)
  qed
qed

theorem reserve_paces_witness:
  "reserve_run [0, 0, 0] new_guard = [(0, 0), (0, second), (0, 2 * second)] \<and>
   sorted_wrt (\<lambda>a b. snd a + paceInterval \<le> snd b) (reserve_run [0, 0, 0] new_guard)"
proof
  show "reserve_run [0, 0, 0] new_guard = [(0, 0), (0, second), (0, 2 * second)]"
    by (simp add: reserve_eq Let_def new_guard_def zero_time_def maxPaceWait_def paceInterval_def duration_defs)
qed (use reserve_paces in blast)

text \<open>
  A write refused for pace has booked nothing, and the time its refusal names
  (\<open>now + (wait - maxPaceWait)\<close>) is the right one: it lies ahead, and a write that asks then is
  granted if no other came in between, while one that asks any earlier would still be refused.
\<close>

theorem reserve_refusal_time:
  assumes "reserve now g = ((wait, False), g')" and "wait < max_int64"
  shows "g' = g \<and> now < now + (wait - maxPaceWait)
         \<and> fst (reserve (now + (wait - maxPaceWait)) g) = (maxPaceWait, True)
         \<and> (\<forall>t. now \<le> t \<and> t < now + (wait - maxPaceWait) \<longrightarrow> \<not> snd (fst (reserve t g)))"
proof -
  have r: "g' = g" "now + maxPaceWait < max (g_next g) now" "wait = min max_int64 (max (g_next g) now - now)"
    using assms(1) by (auto simp: reserve_eq Let_def split: if_splits)
  have p: "0 < maxPaceWait" by (simp add: maxPaceWait_def duration_defs)
  have n: "g_next g = now + wait" "maxPaceWait < wait" using r p assms(2) by (auto simp: max_def min_def split: if_splits)
  then show ?thesis using r(1) p by (auto simp: reserve_eq Let_def)
qed

theorem reserve_refusal_time_witness:
  "fst (reserve (2 * second) (new_guard\<lparr>g_next := 12 * second\<rparr>)) = (maxPaceWait, True)"
proof -
  have "reserve 0 (new_guard\<lparr>g_next := 12 * second\<rparr>) = ((12 * second, False), new_guard\<lparr>g_next := 12 * second\<rparr>)"
    by (simp add: reserve_eq Let_def maxPaceWait_def duration_defs int_bounds)
  from reserve_refusal_time [OF this] show ?thesis
    by (simp add: maxPaceWait_def duration_defs int_bounds)
qed

end
