(* ===== verification/Chats.thy ===== *)
theory Chats
  imports Guard
begin

section \<open>Chat ids in the parameters of a call\<close>

text \<open>
  The helpers of \<^verbatim>\<open>internal/session/manager.go\<close> that look at \<^verbatim>\<open>chat_id\<close>: a username to resolve, a
  numeric id, and the td\_api call that makes TDLib materialise the chat of a numeric id. Also the text of
  an error, since \<^verbatim>\<open>isChatUnresolved\<close> looks for phrases in it; the texts of database errors come from
  the driver and are a parameter.
\<close>

fun err_text :: "(db_err \<Rightarrow> string) \<Rightarrow> err \<Rightarrow> string" where
  "err_text dbt (EMsg s) = s"
| "err_text dbt (EWrap s e) = s @ err_text dbt e"
| "err_text dbt (ETd te) = ''tdlib '' @ itoa (td_code te) @ '': '' @ td_message te"
| "err_text dbt (ERefused re) = refused_text re"
| "err_text dbt ELocalPathDenied = ''inputFileLocal path must be within the uploads volume''"
| "err_text dbt EBadFileRef = ''file_id must be an integer, or pass ?remote_id=''"
| "err_text dbt (ELoginPending sid) =
     ''a login for this phone is already waiting for input (session '' @ sid @ '')''"
| "err_text dbt ERehydrateExpired = ''session not authorized in binlog (needs re-login)''"
| "err_text dbt ELoginCanceled = ''login canceled''"
| "err_text dbt ELoginRestart = ''login attempt expired; start a new login''"
| "err_text dbt EContext = ''context canceled''"
| "err_text dbt (EDb e) = dbt e"

definition isChatUnresolved :: "(db_err \<Rightarrow> string) \<Rightarrow> err option \<Rightarrow> bool" where
  "isChatUnresolved dbt e =
     (case e of
        None \<Rightarrow> False
      | Some e' \<Rightarrow>
          (let msg = err_text dbt e'
           in contains msg ''Chat not found'' \<or> contains msg ''Chat info not found''
              \<or> contains msg ''CHANNEL_INVALID''))"

definition chat_id_field :: "int field list" where
  "chat_id_field = [(''chat_id'', on_field (\<lambda>x. x) (\<lambda>x _. x) dec_int64)]"

definition numericChatID :: "raw \<Rightarrow> int option" where
  "numericChatID params =
     (if params = RawEmpty then None
      else (case unmarshal (dec_struct chat_id_field) params 0 of
              (ok, n) \<Rightarrow> if \<not> ok \<or> n = 0 then None else Some n))"

definition chat_id_raw_field :: "raw field list" where
  "chat_id_raw_field = [(''chat_id'', on_field (\<lambda>x. x) (\<lambda>x _. x) dec_raw)]"

definition stringChatID :: "raw \<Rightarrow> string option" where
  "stringChatID params =
     (if params = RawEmpty then None
      else (case unmarshal (dec_struct chat_id_raw_field) params RawEmpty of
              (ok, r) \<Rightarrow> if \<not> ok then None else (case r of RawVal (JStr s) \<Rightarrow> Some s | _ \<Rightarrow> None)))"

definition chanBase :: int where "chanBase = - 1000000000000"
definition secretBase :: int where "secretBase = - 2000000000000"

definition forceLoadChat :: "raw \<Rightarrow> (string \<times> json) option" where
  "forceLoadChat params =
     (case numericChatID params of
        None \<Rightarrow> None
      | Some n \<Rightarrow>
          if 0 < n then Some (''createPrivateChat'', JObj [(''force'', JBool True), (''user_id'', JInt n)])
          else if n \<le> secretBase then None
          else if n \<le> chanBase then Some (''createSupergroupChat'', JObj [(''supergroup_id'', JInt (chanBase - n))])
          else Some (''createBasicGroupChat'', JObj [(''basic_group_id'', JInt (- n))]))"

subsection \<open>The encoding of peers\<close>

text \<open>
  TDLib packs the type of a peer into its chat id: a user as its own id, a basic group as the negated
  id, a supergroup or channel below minus one trillion.
\<close>

datatype peer = User int | BasicGroup int | Supergroup int

fun peer_ok :: "peer \<Rightarrow> bool" where
  "peer_ok (User n) \<longleftrightarrow> 0 < n \<and> n \<le> max_int64"
| "peer_ok (BasicGroup n) \<longleftrightarrow> 0 < n \<and> n < 1000000000000"
| "peer_ok (Supergroup n) \<longleftrightarrow> 0 \<le> n \<and> n < 1000000000000"

fun chat_id_of :: "peer \<Rightarrow> int" where
  "chat_id_of (User n) = n"
| "chat_id_of (BasicGroup n) = - n"
| "chat_id_of (Supergroup n) = chanBase - n"

fun load_call :: "peer \<Rightarrow> string \<times> json" where
  "load_call (User n) = (''createPrivateChat'', JObj [(''force'', JBool True), (''user_id'', JInt n)])"
| "load_call (BasicGroup n) = (''createBasicGroupChat'', JObj [(''basic_group_id'', JInt n)])"
| "load_call (Supergroup n) = (''createSupergroupChat'', JObj [(''supergroup_id'', JInt n)])"

text \<open>
  C39: the force-load decodes every chat id back to its peer: for a user, a basic group or a supergroup
  it makes exactly the td\_api call that creates that peer's chat, and it never mistakes a secret
  chat's id, at or below minus two trillion, for a channel.
\<close>

theorem forceLoadChat_decodes:
  assumes "peer_ok p"
  shows "forceLoadChat (RawVal (JObj [(''chat_id'', JInt (chat_id_of p))])) = Some (load_call p)
         \<and> (n \<le> secretBase \<longrightarrow> forceLoadChat (RawVal (JObj [(''chat_id'', JInt n)])) = None)"
  using assms
  by (cases p) (auto simp: forceLoadChat_def numericChatID_def unmarshal_def dec_struct_def find_field_def
      chat_id_field_def on_field_def chanBase_def secretBase_def int_bounds)

theorem forceLoadChat_decodes_witness:
  "forceLoadChat (RawVal (JObj [(''chat_id'', JInt (- 1001234567890))]))
     = Some (''createSupergroupChat'', JObj [(''supergroup_id'', JInt 1234567890)])"
proof -
  have "peer_ok (Supergroup 1234567890)" by simp
  from forceLoadChat_decodes [OF this] show ?thesis by (simp add: chanBase_def)
qed

text \<open>
  The decoder matches member names without regard to case and lets a later one win, while the request
  goes out with the members as written: the chat the guard looks at need not be the chat the message
  goes to.
\<close>

lemma folded_chat_id_differs:
  "numericChatID (RawVal (JObj [(''chat_id'', JInt 42), (''CHAT_ID'', JInt (- 5))])) = Some (- 5)
   \<and> obj_get (MarshalJSON \<lparr>rq_method = ''sendMessage'',
        rq_params = [(''chat_id'', JInt 42), (''CHAT_ID'', JInt (- 5))], rq_extra = x\<rparr>) ''chat_id'' = Some (JInt 42)"
proof
  have "fold_name ''CHAT_ID'' = fold_name ''chat_id''" by code_simp
  then show "numericChatID (RawVal (JObj [(''chat_id'', JInt 42), (''CHAT_ID'', JInt (- 5))])) = Some (- 5)"
    by (simp add: numericChatID_def unmarshal_def dec_struct_def find_field_def chat_id_field_def
        on_field_def int_bounds del: fold_name.simps)
  show "obj_get (MarshalJSON \<lparr>rq_method = ''sendMessage'',
        rq_params = [(''chat_id'', JInt 42), (''CHAT_ID'', JInt (- 5))], rq_extra = x\<rparr>) ''chat_id'' = Some (JInt 42)"
    by (simp add: MarshalJSON_other)
qed

end
