(* ===== verification/Admission.thy ===== *)
theory Admission
  imports Chats
begin

section \<open>Admitting a call\<close>

text \<open>
  \<^verbatim>\<open>internal/session/limits.go\<close> and \<^verbatim>\<open>admit\<close>, \<^verbatim>\<open>spamBlocked\<close> of \<^verbatim>\<open>guard.go\<close>. The state a call
  works on is its session's guard, the TDLib client, the registry, the worker's cache of the rules,
  the registry writes started on goroutines, and the clock: \<open>cs_clock n\<close> is what the n-th reading of
  \<^verbatim>\<open>time.Now()\<close> returns, so nothing is assumed about how time passes between two readings.
\<close>

record rule_cache =
  rc_rules :: "limit list"
  rc_at :: time

definition ruleRefresh :: duration where "ruleRefresh = 2 * second"

record call_state =
  cs_guard :: guard
  cs_td :: td_env
  cs_reg :: registry
  cs_cache :: rule_cache
  cs_jobs :: "job list"
  cs_clock :: "nat \<Rightarrow> time"
  cs_tick :: nat

definition read_clock :: "call_state \<Rightarrow> time \<times> call_state" where
  "read_clock st = (cs_clock st (cs_tick st), st\<lparr>cs_tick := Suc (cs_tick st)\<rparr>)"

text \<open>The caller of a call: its session, the session's kind and the scoped token (empty for the master).\<close>

record caller =
  cl_session :: ident
  cl_kind :: string
  cl_token :: ident

subsection \<open>The operator's limits\<close>

definition limitRules :: "call_state \<Rightarrow> limit list \<times> call_state" where
  "limitRules st =
     (let (now, st1) = read_clock st
      in if sub_time now (rc_at (cs_cache st1)) < ruleRefresh then (rc_rules (cs_cache st1), st1)
         else if \<not> db_up (cs_reg st1) then (rc_rules (cs_cache st1), st1)
         else (let all = ListLimits (quota (cs_reg st1));
                   (now', st2) = read_clock st1
               in (all, st2\<lparr>cs_cache := \<lparr>rc_rules = all, rc_at = now'\<rparr>\<rparr>)))"

fun quota_uses :: "applied list \<Rightarrow> ident \<Rightarrow> string \<Rightarrow> raw \<Rightarrow> time \<Rightarrow> (counter_use \<times> limit) list" where
  "quota_uses [] sid method params now = []"
| "quota_uses (a # as) sid method params now =
     (let rest = quota_uses as sid method params now
      in if ReplacedBy a \<noteq> '''' then rest
         else (let n = Count (a_limit a) method params
               in if n = 0 then rest
                  else (\<lparr>u_key = \<lparr>k_limit = l_id (a_limit a), k_bucket = sid,
                                 k_start = fst (Window (l_per (a_limit a)) now)\<rparr>,
                         u_n = n, u_max = l_max (a_limit a)\<rparr>, a_limit a) # rest))"

text \<open>
  Either a refusal, or the uses that were counted (none when no rule bore on the call or the store
  failed), which is what \<^verbatim>\<open>release\<close> gives back.
\<close>

definition takeQuota :: "caller \<Rightarrow> string \<Rightarrow> raw \<Rightarrow> call_state \<Rightarrow> (refused + counter_use list) \<times> call_state" where
  "takeQuota cl method params st =
     (let (rules, st1) = limitRules st
      in if rules = [] then (Inr [], st1)
         else (let (now, st2) = read_clock st1;
                   uh = quota_uses (Applicable rules (cl_session cl) (cl_kind cl) (cl_token cl))
                          (cl_session cl) method params now;
                   uses = map fst uh
               in if uses = [] then (Inr [], st2)
                  else if \<not> db_up (cs_reg st2) then (Inr [], st2)
                  else (case TakeCounters uses (quota (cs_reg st2)) of
                          Inl _ \<Rightarrow> (Inr [], st2)
                        | Inr (i, db) \<Rightarrow>
                            (let st3 = st2\<lparr>cs_reg := (cs_reg st2)\<lparr>quota := db\<rparr>\<rparr>
                             in if 0 \<le> i
                                then (let l = snd (uh ! nat i)
                                      in (Inl \<lparr>r_reason = ''limit'', r_scope = '''',
                                               r_until = snd (Window (l_per l) now), r_cause = '''',
                                               r_limit = Some l\<rparr>, st3))
                                else (Inr uses, st3)))))"

definition release :: "counter_use list \<Rightarrow> call_state \<Rightarrow> call_state" where
  "release uses st =
     (if uses = [] \<or> \<not> db_up (cs_reg st) then st
      else st\<lparr>cs_reg := (cs_reg st)\<lparr>quota := GiveBackCounters uses (quota (cs_reg st))\<rparr>\<rparr>)"

subsection \<open>A spam-limited account\<close>

definition mutual_field :: "bool field list" where
  "mutual_field = [(''is_mutual_contact'', on_field (\<lambda>x. x) (\<lambda>x _. x) dec_bool)]"

definition spamBlocked :: "string \<Rightarrow> raw \<Rightarrow> call_state \<Rightarrow> bool \<times> call_state" where
  "spamBlocked scope params st =
     (if scope = ''@invite'' \<or> scope = ''@contacts'' then (True, st)
      else if scope \<noteq> ''@send'' then (False, st)
      else (case numericChatID params of
              None \<Rightarrow> (False, st)
            | Some n \<Rightarrow>
                if n \<le> 0 then (False, st)
                else if n = g_myID (cs_guard st) then (False, st)
                else (case td_Call ''getUser'' (RawVal (JObj [(''user_id'', JInt n)])) (cs_td st) of
                        (Inl _, env) \<Rightarrow> (True, st\<lparr>cs_td := env\<rparr>)
                      | (Inr res, env) \<Rightarrow>
                          (case unmarshal (dec_struct mutual_field) (RawVal res) False of
                             (ok, mutual) \<Rightarrow> (\<not> ok \<or> \<not> mutual, st\<lparr>cs_td := env\<rparr>)))))"

subsection \<open>admit\<close>

text \<open>\<open>waits d\<close> tells whether the caller stays for a wait of d or its context ends first.\<close>

definition admit ::
  "(duration \<Rightarrow> bool) \<Rightarrow> caller \<Rightarrow> string \<Rightarrow> string \<Rightarrow> raw \<Rightarrow> call_state \<Rightarrow> err option \<times> call_state" where
  "admit waits cl method scope params st =
     (let (spam, st1) =
            (if cl_kind cl = ''user''
             then (let (now, s1) = read_clock st
                   in case guard_active SpamLimitScope now (cs_guard s1) of
                        None \<Rightarrow> (None, s1)
                      | Some c \<Rightarrow> (let (b, s2) = spamBlocked scope params s1
                                  in (if b then Some c else None, s2)))
             else (None, st))
      in case spam of
           Some c \<Rightarrow> (Some (ERefused \<lparr>r_reason = ''cooldown'', r_scope = SpamLimitScope, r_until = c_until c,
                                     r_cause = c_reason c, r_limit = None\<rparr>), st1)
         | None \<Rightarrow>
             (case takeQuota cl method params st1 of
                (Inl re, st2) \<Rightarrow> (Some (ERefused re), st2)
              | (Inr uses, st2) \<Rightarrow>
                  if cl_kind cl \<noteq> ''user'' \<or> scope \<notin> set pacedGroups then (None, st2)
                  else (let (now, st3) = read_clock st2
                        in case reserve now (cs_guard st3) of
                             ((wait, ok), g) \<Rightarrow>
                               (let st4 = st3\<lparr>cs_guard := g\<rparr>
                                in if \<not> ok
                                   then (Some (ERefused \<lparr>r_reason = ''pace'', r_scope = scope,
                                                         r_until = now + (wait - maxPaceWait), r_cause = '''',
                                                         r_limit = None\<rparr>), release uses st4)
                                   else if wait = 0 then (None, st4)
                                   else if waits wait then (None, st4)
                                   else (Some EContext, release uses st4)))))"

subsection \<open>Frame lemmas\<close>

lemma read_clock_simps [simp]:
  "snd (read_clock st) = st\<lparr>cs_tick := Suc (cs_tick st)\<rparr>"
  by (simp add: read_clock_def)

lemma read_clock_frame:
  assumes "read_clock st = (now, st')"
  shows "cs_reg st' = cs_reg st" "cs_td st' = cs_td st" "cs_guard st' = cs_guard st"
    "cs_jobs st' = cs_jobs st" "cs_cache st' = cs_cache st" "cs_clock st' = cs_clock st"
  using assms by (auto simp: read_clock_def)

lemma limitRules_frame:
  assumes "limitRules st = (rules, st')"
  shows "cs_reg st' = cs_reg st" "cs_td st' = cs_td st" "cs_guard st' = cs_guard st" "cs_jobs st' = cs_jobs st"
  using assms by (auto simp: limitRules_def read_clock_def Let_def split: if_splits)

lemma spamBlocked_frame:
  assumes "spamBlocked scope params st = (b, st')"
  shows "cs_reg st' = cs_reg st" "cs_guard st' = cs_guard st" "cs_jobs st' = cs_jobs st"
  using assms by (auto simp: spamBlocked_def split: if_splits option.splits prod.splits sum.splits)

lemma takeQuota_frame:
  assumes "takeQuota cl method params st = (r, st')"
  shows "cs_td st' = cs_td st" "cs_guard st' = cs_guard st" "cs_jobs st' = cs_jobs st"
    "db_up (cs_reg st') = db_up (cs_reg st)"
proof -
  obtain rules st1 where l: "limitRules st = (rules, st1)" by (cases "limitRules st")
  note f = limitRules_frame [OF l]
  show "cs_td st' = cs_td st" "cs_guard st' = cs_guard st" "cs_jobs st' = cs_jobs st"
    "db_up (cs_reg st') = db_up (cs_reg st)"
    using assms f by (auto simp: takeQuota_def l read_clock_def Let_def split: if_splits sum.splits prod.splits)
qed

lemma quota_uses_nonneg: "u \<in> set (map fst (quota_uses as sid m ps now)) \<Longrightarrow> 0 < u_n u"
proof (induction as)
  case Nil
  then show ?case by simp
next
  case (Cons a as)
  have "0 \<le> Count (a_limit a) m ps" by (simp add: Count_def Let_def le_max_iff_disj)
  then show ?case using Cons by (auto simp: Let_def split: if_splits)
qed

text \<open>What \<^verbatim>\<open>takeQuota\<close> does to the counters, through the contract of the ledger.\<close>

lemma takeQuota_ledger:
  assumes "takeQuota cl method params st = (r, st')" and "counters_ok (quota (cs_reg st))"
  shows "counters_ok (quota (cs_reg st'))"
    and "r = Inl re \<Longrightarrow> quota (cs_reg st') = quota (cs_reg st)"
    and "r = Inr uses \<Longrightarrow> \<forall>u \<in> set uses. 0 \<le> u_n u"
    and "r = Inr uses \<Longrightarrow> calls_of (quota (cs_reg st')) k = calls_of (quota (cs_reg st)) k + uses_on k uses"
    and "r = Inr uses \<Longrightarrow> uses \<noteq> [] \<Longrightarrow> db_up (cs_reg st) \<and>
           TakeCounters uses (quota (cs_reg st)) = Inr (- 1, quota (cs_reg st'))"
proof -
  obtain rules st1 where l: "limitRules st = (rules, st1)" by (cases "limitRules st")
  have reg: "cs_reg st1 = cs_reg st" using limitRules_frame [OF l] by simp
  obtain now st2 where c: "read_clock st1 = (now, st2)" by (cases "read_clock st1")
  have reg2: "cs_reg st2 = cs_reg st" using read_clock_frame [OF c] reg by simp
  define uh where "uh = quota_uses (Applicable rules (cl_session cl) (cl_kind cl) (cl_token cl))
                          (cl_session cl) method params now"
  have nn: "\<forall>u \<in> set (map fst uh). 0 \<le> u_n u"
    using quota_uses_nonneg unfolding uh_def by (metis less_imp_le)

  consider (none) "r = Inr []" "quota (cs_reg st') = quota (cs_reg st)"
    | (refused) i db where "\<exists>re. r = Inl re" "TakeCounters (map fst uh) (quota (cs_reg st)) = Inr (i, db)" "0 \<le> i"
        "quota (cs_reg st') = db"
    | (counted) i db where "r = Inr (map fst uh)" "TakeCounters (map fst uh) (quota (cs_reg st)) = Inr (i, db)"
        "i < 0" "quota (cs_reg st') = db" "db_up (cs_reg st)"
    using assms(1) reg reg2
    by (auto simp: takeQuota_def l c Let_def uh_def [symmetric] split: if_splits sum.splits prod.splits)
  note cases = this
  note idx = TakeCounters_index
  show "counters_ok (quota (cs_reg st'))"
    using cases assms(2) by cases (auto dest: counters.ok_take [OF assms(2) nn])
  show "r = Inl re \<Longrightarrow> quota (cs_reg st') = quota (cs_reg st)"
    using cases by cases (auto dest: counters.refused)
  show "r = Inr uses \<Longrightarrow> \<forall>u \<in> set uses. 0 \<le> u_n u"
    using cases nn by cases auto
  show "r = Inr uses \<Longrightarrow> calls_of (quota (cs_reg st')) k = calls_of (quota (cs_reg st)) k + uses_on k uses"
    using cases by cases (auto dest: idx counters.counted)
  show "r = Inr uses \<Longrightarrow> uses \<noteq> [] \<Longrightarrow> db_up (cs_reg st) \<and>
           TakeCounters uses (quota (cs_reg st)) = Inr (- 1, quota (cs_reg st'))"
    using cases by cases (auto dest: idx)
qed

subsection \<open>What takeQuota refuses\<close>

lemma set_quota_uses:
  "u \<in> set (map fst (quota_uses as sid m ps now)) \<longleftrightarrow>
     (\<exists>l \<in> set (map a_limit (filter (\<lambda>a. ReplacedBy a = '''') as)). Count l m ps \<noteq> 0 \<and>
        u = \<lparr>u_key = \<lparr>k_limit = l_id l, k_bucket = sid, k_start = fst (Window (l_per l) now)\<rparr>,
             u_n = Count l m ps, u_max = l_max l\<rparr>)"
  by (induction as) (auto simp: Let_def)

lemma quota_uses_distinct:
  "distinct (map l_id (map a_limit (filter (\<lambda>a. ReplacedBy a = '''') as))) \<Longrightarrow>
   distinct (map u_key (map fst (quota_uses as sid m ps now)))"
proof (induction as)
  case Nil
  then show ?case by simp
next
  case (Cons a as)
  have "k \<noteq> u_key u" if "k_limit k = l_id (a_limit a)" and "ReplacedBy a = ''''"
    and "u \<in> set (map fst (quota_uses as sid m ps now))" for k u
    using that Cons.prems unfolding set_quota_uses by (auto simp: image_iff)
  then show ?case using Cons
    by (auto simp: Let_def split: if_splits)
       (metis (no_types, lifting) counter_key.select_convs(1) fst_conv image_eqI list.set_map)
qed

text \<open>The counter a rule of the session counts in at a time.\<close>

definition rule_key :: "ident \<Rightarrow> time \<Rightarrow> limit \<Rightarrow> counter_key" where
  "rule_key sid now l = \<lparr>k_limit = l_id l, k_bucket = sid, k_start = fst (Window (l_per l) now)\<rparr>"

text \<open>
  C4: with the rules at hand and the store answering, a call is refused by the operator's limits
  exactly when some rule in force counts it and has no room left for what it would count in the
  current window.
\<close>

theorem takeQuota_refuses_iff:
  fixes cl m ps st rules now db
  defines "rules \<equiv> rc_rules (cs_cache st)" and "now \<equiv> cs_clock st (Suc (cs_tick st))"
    and "db \<equiv> quota (cs_reg st)"
  assumes fresh: "sub_time (cs_clock st (cs_tick st)) (rc_at (cs_cache st)) < ruleRefresh"
    and ids: "distinct (map l_id rules)" "\<forall>l \<in> set rules. l_id l \<noteq> ''''"
    and up: "db_up (cs_reg st)" "counters_ok db"
    and rows: "\<forall>l \<in> set rules. list_ex (\<lambda>r. l_id r = l_id l) (rate_limit db)
                 \<and> calls_of db (rule_key (cl_session cl) now l) + Count l m ps \<le> max_int32"
  shows "(\<exists>re. fst (takeQuota cl m ps st) = Inl re) \<longleftrightarrow>
         (\<exists>l \<in> set rules. in_force rules (cl_session cl) (cl_kind cl) (cl_token cl) l \<and> Count l m ps \<noteq> 0
            \<and> l_max l < calls_of db (rule_key (cl_session cl) now l) + Count l m ps)"
proof -
  define as where "as = Applicable rules (cl_session cl) (cl_kind cl) (cl_token cl)"
  define us where "us = map fst (quota_uses as (cl_session cl) m ps now)"
  have force: "map a_limit (filter (\<lambda>a. ReplacedBy a = '''') as)
      = filter (in_force rules (cl_session cl) (cl_kind cl) (cl_token cl)) rules"
    unfolding as_def by (rule Applicable_not_replaced [OF ids(2)])
  have mem: "u \<in> set us \<longleftrightarrow> (\<exists>l \<in> set rules. in_force rules (cl_session cl) (cl_kind cl) (cl_token cl) l
      \<and> Count l m ps \<noteq> 0 \<and> u = \<lparr>u_key = rule_key (cl_session cl) now l, u_n = Count l m ps, u_max = l_max l\<rparr>)" for u
    unfolding us_def set_quota_uses force rule_key_def by auto
  have dist: "distinct (map u_key us)"
    unfolding us_def by (rule quota_uses_distinct) (simp add: force ids(1) distinct_map_filter del: map_map)
  have nn: "\<forall>u \<in> set us. 0 \<le> u_n u" unfolding us_def using quota_uses_nonneg by (metis less_imp_le)
  have "\<exists>i d. TakeCounters us db = Inr (i, d)"
    by (rule TakeCounters_total [OF dist up(2)]) (use nn rows in \<open>auto simp: mem rule_key_def\<close>)
  then obtain i d where t: "TakeCounters us db = Inr (i, d)" by blast
  have "(\<exists>re. fst (takeQuota cl m ps st) = Inl re) \<longleftrightarrow> us \<noteq> [] \<and> i \<noteq> - 1"
    using fresh up(1) t TakeCounters_index [OF t]
    by (auto simp: takeQuota_def limitRules_def read_clock_def Let_def us_def as_def rules_def now_def db_def
        Applicable_def split: prod.splits if_splits)
  also have "\<dots> \<longleftrightarrow> (\<exists>u \<in> set us. u_max u < calls_of db (u_key u) + u_n u)"
    using TakeCounters_refused_iff [OF t dist up(2) nn] by auto
  also have "\<dots> \<longleftrightarrow> (\<exists>l \<in> set rules. in_force rules (cl_session cl) (cl_kind cl) (cl_token cl) l
      \<and> Count l m ps \<noteq> 0 \<and> l_max l < calls_of db (rule_key (cl_session cl) now l) + Count l m ps)"
    unfolding Bex_def mem by (intro iffI) (force, metis counter_use.select_convs)
  finally show ?thesis .
qed

definition sample_td :: td_env where
  "sample_td = \<lparr>td_log = [], td_answer = (\<lambda>log q. Inr (''ok'', JObj [(''@type'', JStr ''ok'')])),
     td_extra = (\<lambda>n. replicate n CHR ''x''), td_text = (\<lambda>_. '''')\<rparr>"

text \<open>A session whose daily rule of ten sends is used up.\<close>

definition sample_call :: call_state where
  "sample_call = \<lparr>cs_guard = new_guard, cs_td = sample_td,
     cs_reg = empty_registry\<lparr>quota := \<lparr>rate_limit = [sample_rule ''r'' [''@send'']],
                rate_counter = [(rule_key ''s1'' 0 (sample_rule ''r'' [''@send'']), 10)]\<rparr>\<rparr>,
     cs_cache = \<lparr>rc_rules = [sample_rule ''r'' [''@send'']], rc_at = 0\<rparr>, cs_jobs = [],
     cs_clock = (\<lambda>_. 0), cs_tick = 0\<rparr>"

definition sample_caller :: caller where
  "sample_caller = \<lparr>cl_session = ''s1'', cl_kind = ''user'', cl_token = ''''\<rparr>"

lemma sample_call_ok: "counters_ok (quota (cs_reg sample_call))"
  by (simp add: sample_call_def counters_ok_def)

lemma sample_count: "Count (sample_rule ''r'' [''@send'']) ''sendMessage'' RawEmpty = 1"
  by code_simp

lemma sample_calls:
  "calls_of (quota (cs_reg sample_call)) (rule_key ''s1'' 0 (sample_rule ''r'' [''@send''])) = 10"
  by (simp add: sample_call_def calls_of_def)

lemma sample_in_force:
  "in_force [sample_rule ''r'' [''@send'']] ''s1'' ''user'' '''' (sample_rule ''r'' [''@send''])"
  by (simp add: in_force_def Let_def rule_defs sample_rule_def)

theorem takeQuota_refuses_iff_witness:
  "\<exists>re. fst (takeQuota sample_caller ''sendMessage'' RawEmpty sample_call) = Inl re"
proof -
  let ?r = "sample_rule ''r'' [''@send'']"
  have s: "rc_rules (cs_cache sample_call) = [?r]" "rc_at (cs_cache sample_call) = 0"
    "cs_clock sample_call n = 0" "db_up (cs_reg sample_call)" "rate_limit (quota (cs_reg sample_call)) = [?r]"
    "cl_session sample_caller = ''s1''" "cl_kind sample_caller = ''user''" "cl_token sample_caller = ''''" for n
    by (simp_all add: sample_call_def sample_caller_def empty_registry_def)
  have r: "l_id ?r = ''r''" "l_max ?r = 10" by (simp_all add: sample_rule_def)
  show ?thesis
    using takeQuota_refuses_iff [of sample_call sample_caller "''sendMessage''" RawEmpty] sample_call_ok
    by (simp add: s r sample_count sample_calls sample_in_force sub_time_def ruleRefresh_def second_def int_bounds)
qed

subsection \<open>What a refused call costs\<close>

lemma release_frame:
  "cs_td (release us st) = cs_td st" "cs_guard (release us st) = cs_guard st" "cs_jobs (release us st) = cs_jobs st"
  by (simp_all add: release_def)

text \<open>Counting a batch and giving it back leaves every counter as it was.\<close>

lemma takeQuota_release:
  assumes t: "takeQuota cl m ps st = (Inr uses, st1)" and ok: "counters_ok (quota (cs_reg st))"
    and q: "cs_reg st2 = cs_reg st1"
  shows "calls_of (quota (cs_reg (release uses st2))) k = calls_of (quota (cs_reg st)) k"
proof (cases "uses = []")
  case True
  then show ?thesis using takeQuota_ledger(4) [OF t ok refl, of k] q by (simp add: release_def)
next
  case False
  note l = takeQuota_ledger(5) [OF t ok refl False] takeQuota_ledger(3) [OF t ok refl]
  have "db_up (cs_reg st2)" using takeQuota_frame(4) [OF t] l(1) q by simp
  then show ?thesis using counters.take_give_back [OF ok l(2), of "quota (cs_reg st1)" k] l(1) False q
    by (simp add: release_def)
qed

text \<open>
  C5: a call that is refused before it goes out - by the spam limit, by a rule, by the pace, or because
  its caller left while it waited - spends no quota: every counter reads as before.
\<close>

theorem admit_refused_spends_nothing:
  assumes "admit waits cl m scope ps st = (Some e, st')" and "counters_ok (quota (cs_reg st))"
  shows "calls_of (quota (cs_reg st')) k = calls_of (quota (cs_reg st)) k"
proof -
  obtain spam st1 where sp: "(if cl_kind cl = ''user''
             then (let (now, s1) = read_clock st
                   in case guard_active SpamLimitScope now (cs_guard s1) of
                        None \<Rightarrow> (None, s1)
                      | Some c \<Rightarrow> (let (b, s2) = spamBlocked scope ps s1 in (if b then Some c else None, s2)))
             else (None, st)) = (spam, st1)" by fastforce
  then have r1: "cs_reg st1 = cs_reg st"
    by (auto simp: Let_def split: if_splits prod.splits option.splits
        dest!: read_clock_frame(1) spamBlocked_frame(1))
  show ?thesis
  proof (cases spam)
    case (Some c)
    then show ?thesis using assms(1) r1 by (simp add: admit_def sp)
  next
    case None
    obtain r st2 where t: "takeQuota cl m ps st1 = (r, st2)" by (cases "takeQuota cl m ps st1")
    have ok: "counters_ok (quota (cs_reg st1))" using assms(2) r1 by simp
    show ?thesis
    proof (cases r)
      case (Inl re)
      then show ?thesis using assms(1) None t takeQuota_ledger(2) [OF t ok] r1 by (simp add: admit_def sp)
    next
      case (Inr uses)
      have "\<exists>st4. st' = release uses st4 \<and> cs_reg st4 = cs_reg st2"
        using assms(1) None t Inr
        by (auto simp: admit_def sp read_clock_def Let_def split: if_splits prod.splits)
      then show ?thesis using takeQuota_release [of cl m ps st1 uses st2] t Inr ok r1 by auto
    qed
  qed
qed

definition sample_paced :: call_state where
  "sample_paced = sample_call\<lparr>cs_guard := new_guard\<lparr>g_next := 60 * second\<rparr>,
     cs_reg := empty_registry\<lparr>quota := \<lparr>rate_limit = [sample_rule ''r'' [''@send'']],
                rate_counter = [(rule_key ''s1'' 0 (sample_rule ''r'' [''@send'']), 3)]\<rparr>\<rparr>\<rparr>"

lemma sample_paced_refused:
  "fst (admit (\<lambda>_. True) sample_caller ''sendMessage'' ''@send'' RawEmpty sample_paced) \<noteq> None"
  by code_simp

theorem admit_refused_spends_nothing_witness:
  "\<exists>e st'. admit (\<lambda>_. True) sample_caller ''sendMessage'' ''@send'' RawEmpty sample_paced = (Some e, st')
     \<and> calls_of (quota (cs_reg st')) (rule_key ''s1'' 0 (sample_rule ''r'' [''@send''])) = 3"
proof -
  obtain e st' where a: "admit (\<lambda>_. True) sample_caller ''sendMessage'' ''@send'' RawEmpty sample_paced = (Some e, st')"
    using sample_paced_refused by (metis option.exhaust prod.collapse)
  have "counters_ok (quota (cs_reg sample_paced))"
    and "calls_of (quota (cs_reg sample_paced)) (rule_key ''s1'' 0 (sample_rule ''r'' [''@send''])) = 3"
    by (simp_all add: sample_paced_def counters_ok_def calls_of_def)
  then show ?thesis using admit_refused_spends_nothing [OF a] a by auto
qed


definition sample_limited :: call_state where
  "sample_limited = sample_paced\<lparr>cs_guard := new_guard\<lparr>g_cool := [(SpamLimitScope,
       \<lparr>c_scope = SpamLimitScope, c_until = 1, c_reason = ''PEER_FLOOD''\<rparr>)]\<rparr>\<rparr>"


end
