(* ===== verification/LocalFiles.thy ===== *)
theory LocalFiles
  imports Upload Sends
begin

section \<open>Local files in the parameters of a call\<close>

text \<open>
  \<^verbatim>\<open>internal/session/uploads.go\<close>: confining the \<^verbatim>\<open>inputFileLocal\<close> paths of a call to the uploads volume,
  remembering which upload directories a send used, and removing them once TDLib reports the send.
\<close>

subsection \<open>Decoding into any\<close>

text \<open>
  Decoded into \<^verbatim>\<open>any\<close>, a number becomes a float64, and a literal beyond its range is an error of the
  whole decoding: from the midpoint between the largest float64 and \<open>2 ^ 1024\<close> on.
\<close>

definition float_bound :: int where "float_bound = 2 ^ 1024 - 2 ^ 970"

definition signed_val :: "string \<Rightarrow> int" where
  "signed_val s =
     (case s of
        c # cs \<Rightarrow> if c = CHR ''-'' then - int (foldl (\<lambda>n d. 10 * n + (of_char d - 48)) 0 cs)
                 else if c = CHR ''+'' then int (foldl (\<lambda>n d. 10 * n + (of_char d - 48)) 0 cs)
                 else int (foldl (\<lambda>n d. 10 * n + (of_char d - 48)) 0 s)
      | [] \<Rightarrow> 0)"

definition float_ok :: "string \<Rightarrow> bool" where
  "float_ok s =
     (let (m, e) = (takeWhile (\<lambda>c. c \<noteq> CHR ''e'' \<and> c \<noteq> CHR ''E'') s,
                    drop 1 (dropWhile (\<lambda>c. c \<noteq> CHR ''e'' \<and> c \<noteq> CHR ''E'') s));
          whole = takeWhile (\<lambda>c. c \<noteq> CHR ''.'') m; frac = drop 1 (dropWhile (\<lambda>c. c \<noteq> CHR ''.'') m);
          digits = \<bar>signed_val (whole @ frac)\<bar>;
          scale = signed_val e - int (length frac)
      in if 0 \<le> scale then digits * 10 ^ nat scale < float_bound
         else digits < float_bound * 10 ^ nat (- scale))"

fun any_ok :: "json \<Rightarrow> bool" where
  "any_ok (JInt n) = (\<bar>n\<bar> < float_bound)"
| "any_ok (JFloat s) = float_ok s"
| "any_ok (JArr xs) = list_all any_ok xs"
| "any_ok (JObj kvs) = list_all (\<lambda>kv. any_ok (snd kv)) kvs"
| "any_ok _ = True"

subsection \<open>The paths of a call\<close>

lemma size_member: "(k, v) \<in> set kvs \<Longrightarrow> size v < Suc (size_list (size_prod (\<lambda>x. 0) size) kvs)"
  by (induction kvs) auto

text \<open>
  The members of a map are walked in the order of the runtime; here in the order of the text. The order
  shows only in the order of the result.
\<close>

function walk :: "json \<Rightarrow> string list" where
  "walk (JObj kvs) =
     (let t = last_wins kvs
      in (if map_of t ''@type'' = Some (JStr ''inputFileLocal'')
          then (case map_of t ''path'' of Some (JStr p) \<Rightarrow> [p] | _ \<Rightarrow> []) else [])
         @ concat (map (\<lambda>kv. walk (snd kv)) t))"
| "walk (JArr xs) = concat (map walk xs)"
| "walk JNull = []"
| "walk (JBool b) = []"
| "walk (JInt n) = []"
| "walk (JFloat s) = []"
| "walk (JStr s) = []"
  by pat_completeness auto
termination
proof (relation "measure size")
  fix kvs :: "(string \<times> json) list" and t kv
  assume t: "t = last_wins kvs" and kv: "kv \<in> set t"
  obtain k v where "kv = (k, v)" by (cases kv)
  then have "(k, v) \<in> set kvs" using t kv last_wins_subset by blast
  then show "(snd kv, JObj kvs) \<in> measure size" using size_member \<open>kv = (k, v)\<close> by simp
qed (auto simp: less_Suc_eq_le size_list_estimation')

definition collectLocalFilePaths :: "raw \<Rightarrow> string list" where
  "collectLocalFilePaths params =
     (case params of RawVal j \<Rightarrow> if any_ok j then walk j else [] | _ \<Rightarrow> [])"

fun local_dirs :: "string \<Rightarrow> string list \<Rightarrow> string list \<Rightarrow> err + string list" where
  "local_dirs root [] dirs = Inr dirs"
| "local_dirs root (p # ps) dirs =
     (if \<not> Within p root then Inl ELocalPathDenied
      else (let d = Dir p in local_dirs root ps (if d \<in> set dirs then dirs else dirs @ [d])))"

definition guardLocalPaths :: "string \<Rightarrow> raw \<Rightarrow> err + string list" where
  "guardLocalPaths uploadsDir params =
     (let paths = collectLocalFilePaths params in if paths = [] then Inr [] else local_dirs uploadsDir paths [])"

subsection \<open>Uploads waiting for their send\<close>

definition trackUpload :: "json \<Rightarrow> string list \<Rightarrow> (int \<times> string list) list \<Rightarrow> (int \<times> string list) list" where
  "trackUpload res dirs pend = foldl (\<lambda>m r. AList.update (ref_id r) dirs m) pend (extractSentRefs res)"

definition old_id_field :: "int field list" where
  "old_id_field = [(''old_message_id'', on_field (\<lambda>x. x) (\<lambda>x _. x) dec_int64)]"

definition finishUpload ::
  "io_env \<Rightarrow> json \<Rightarrow> (int \<times> string list) list \<Rightarrow> volume \<Rightarrow> (int \<times> string list) list \<times> volume" where
  "finishUpload io upd pend v =
     (case unmarshal (dec_struct old_id_field) (RawVal upd) 0 of
        (ok, old) \<Rightarrow>
          if \<not> ok \<or> old = 0 then (pend, v)
          else (let dirs = (case map_of pend old of None \<Rightarrow> [] | Some ds \<Rightarrow> ds)
                in (filter (\<lambda>(i, _). i \<noteq> old) pend, foldl (\<lambda>v d. snd (RemoveAll io d v)) v dirs)))"

definition sweepUploads :: "io_env \<Rightarrow> upload_store \<Rightarrow> duration \<Rightarrow> volume \<Rightarrow> volume" where
  "sweepUploads io s uploadTTL v =
     (if st_dir s = '''' then v else snd (Sweep io s (io_now io - uploadTTL) v))"

subsection \<open>What the check lets through\<close>

text \<open>The values inside a value, and values in which no object names a member twice.\<close>

inductive part_of :: "json \<Rightarrow> json \<Rightarrow> bool" where
  self: "part_of j j"
| elem: "x \<in> set xs \<Longrightarrow> part_of o' x \<Longrightarrow> part_of o' (JArr xs)"
| member: "(k, x) \<in> set kvs \<Longrightarrow> part_of o' x \<Longrightarrow> part_of o' (JObj kvs)"

inductive_cases part_of_objE: "part_of x (JObj kvs)"

fun no_dups :: "json \<Rightarrow> bool" where
  "no_dups (JArr xs) = list_all no_dups xs"
| "no_dups (JObj kvs) = (distinct (map fst kvs) \<and> list_all (\<lambda>kv. no_dups (snd kv)) kvs)"
| "no_dups _ = True"

lemma walk_finds:
  "part_of ob j \<Longrightarrow> no_dups j \<Longrightarrow> obj_get ob ''@type'' = Some (JStr ''inputFileLocal'') \<Longrightarrow>
   obj_get ob ''path'' = Some (JStr p) \<Longrightarrow> p \<in> set (walk j)"
proof (induction rule: part_of.induct)
  case (self j)
  then show ?case by (cases j) (simp_all add: Let_def)
next
  case (elem x xs ob)
  then show ?case by (auto simp: list_all_iff)
next
  case (member k x kvs ob)
  then have "last_wins kvs = kvs" "p \<in> set (walk x)" by (auto simp: last_wins_id list_all_iff)
  then have lw: "last_wins kvs = kvs" and "p \<in> set (concat (map (\<lambda>kv. walk (snd kv)) kvs))"
    using member.hyps(1) by (auto intro!: bexI [of _ "(k, x)"])
  then show ?case unfolding walk.simps Let_def lw set_append by blast
qed

lemma local_dirs_ok:
  "local_dirs root ps ds = Inr dirs \<Longrightarrow> list_all (\<lambda>p. Within p root) ps \<and> set dirs = set ds \<union> Dir ` set ps"
  by (induction root ps ds rule: local_dirs.induct) (auto simp: Let_def split: if_splits)

lemma local_dirs_distinct: "local_dirs root ps ds = Inr dirs \<Longrightarrow> distinct ds \<Longrightarrow> distinct dirs"
  by (induction root ps ds rule: local_dirs.induct) (auto simp: Let_def split: if_splits)


definition local_file :: "string \<Rightarrow> json" where
  "local_file p = JObj [(''@type'', JStr ''inputFileLocal''), (''path'', JStr p)]"


text \<open>
  The two provisos are needed. A number beyond float64 anywhere in the parameters makes the decoding
  fail, and the check then lets every path through; of a member named twice only the last is checked,
  while both are forwarded.
\<close>

lemma large_number_skips_the_check:
  "guardLocalPaths ''/uploads'' (RawVal (JObj [(''x'', JFloat ''1e309''), (''photo'', local_file ''/etc/passwd'')])) = Inr []"
proof -
  have "signed_val ''1'' = 1" "signed_val ''309'' = 309" by code_simp+
  then have "\<not> float_ok ''1e309''" by (simp add: float_ok_def float_bound_def)
  then show ?thesis by (simp add: guardLocalPaths_def collectLocalFilePaths_def)
qed

lemma duplicate_member_skips_the_check:
  "guardLocalPaths ''/uploads'' (RawVal (JObj [(''photo'', local_file ''/etc/passwd''), (''photo'', JNull)])) = Inr []"
  by code_simp

lemma nested_duplicate_is_forwarded:
  "MarshalJSON \<lparr>rq_method = ''sendMessage'',
       rq_params = [(''content'', JObj [(''photo'', local_file ''/etc/passwd''), (''photo'', JNull)])], rq_extra = ''1''\<rparr>
   = JObj [(''@extra'', JStr ''1''), (''@type'', JStr ''sendMessage''),
           (''content'', JObj [(''photo'', local_file ''/etc/passwd''), (''photo'', JNull)])]"
  by code_simp

text \<open>A file kept directly in the volume: its directory is the volume itself, which is what is removed.\<close>

lemma file_in_the_root_claims_the_volume:
  "guardLocalPaths ''/uploads'' (RawVal (local_file ''/uploads/f.txt'')) = Inr [''/uploads'']"
  by code_simp

subsection \<open>What a finished send removes\<close>

lemma remove_trees:
  assumes "no_faults io"
  shows "file_at (foldl (\<lambda>v d. snd (RemoveAll io d v)) v ds) p
     = (if list_ex (\<lambda>d. under d p) ds then None else file_at v p)"
  using assms by (induction ds arbitrary: v) (auto simp: RemoveAll_def no_faults_def file_at_remove)

text \<open>
  C38: when TDLib reports a tracked send as done, exactly the files in the upload directories recorded for
  its temporary id are removed, and the record with them; every other file of the volume stays.
\<close>

theorem finishUpload_removes_exactly:
  assumes "no_faults io" and "unmarshal (dec_struct old_id_field) (RawVal upd) 0 = (True, old)" and "old \<noteq> 0"
    and "map_of pend old = Some dirs"
  shows "file_at (snd (finishUpload io upd pend v)) p = (if list_ex (\<lambda>d. under d p) dirs then None else file_at v p)
    \<and> map_of (fst (finishUpload io upd pend v)) = (map_of pend)(old := None)"
proof
  show "file_at (snd (finishUpload io upd pend v)) p = (if list_ex (\<lambda>d. under d p) dirs then None else file_at v p)"
    using assms remove_trees [OF assms(1)] by (simp add: finishUpload_def)
  have "map_of (filter (\<lambda>(i, _). i \<noteq> old) pend) k = ((map_of pend)(old := None)) k" for k
    using map_of_filter_key [of "\<lambda>i. i \<noteq> old" pend k] by simp
  then show "map_of (fst (finishUpload io upd pend v)) = (map_of pend)(old := None)"
    using assms by (auto simp: finishUpload_def fun_eq_iff)
qed

theorem finishUpload_removes_exactly_witness:
  "file_at (snd (finishUpload calm_io (JObj [(''old_message_id'', JInt 7)]) [(7, [''/u/a''])]
      \<lparr>v_dirs = [], v_files = [(''/u/a/f'', Bytes ''x''), (''/u/b/f'', Bytes ''y'')]\<rparr>)) ''/u/b/f'' = Some (Bytes ''y'')"
proof -
  have "unmarshal (dec_struct old_id_field) (RawVal (JObj [(''old_message_id'', JInt 7)])) 0 = (True, 7)"
    "\<not> list_ex (\<lambda>d. under d ''/u/b/f'') [''/u/a'']" by code_simp+
  then show ?thesis
    using finishUpload_removes_exactly [OF sample_store_ok(6), of "JObj [(''old_message_id'', JInt 7)]" 7
        "[(7, [''/u/a''])]" "[''/u/a'']"
        "\<lparr>v_dirs = [], v_files = [(''/u/a/f'', Bytes ''x''), (''/u/b/f'', Bytes ''y'')]\<rparr>" "''/u/b/f''"]
    by (simp add: file_at_def)
qed

text \<open>
  Temporary ids are unique only within a chat, yet the record is keyed by the id alone: of two sends with
  the same id in different chats the later takes the place of the earlier, and the end of the earlier one
  removes the files of the later, still being sent.
\<close>

definition sent_answer :: "int \<Rightarrow> int \<Rightarrow> json" where
  "sent_answer chat i = JObj [(''@type'', JStr ''message''), (''id'', JInt i), (''chat_id'', JInt chat)]"

lemma same_temporary_id_removes_the_other_upload:
  "file_at (snd (finishUpload calm_io (JObj [(''old_message_id'', JInt 7), (''message'', sent_answer 1 99)])
      (trackUpload (sent_answer 2 7) [''/u/b''] (trackUpload (sent_answer 1 7) [''/u/a''] []))
      \<lparr>v_dirs = [], v_files = [(''/u/a/f'', Bytes ''x''), (''/u/b/f'', Bytes ''y'')]\<rparr>)) ''/u/b/f'' = None"
  by code_simp

end
