(* ===== verification/Login.thy ===== *)
theory Login
  imports Chats
begin

section \<open>Live sessions and the login flow\<close>

text \<open>
  \<^verbatim>\<open>liveSession\<close> of \<^verbatim>\<open>internal/session/manager.go\<close>, the authorizer of \<^verbatim>\<open>authorizer.go\<close> and the calls that
  feed it (\<^verbatim>\<open>submit\<close>, \<^verbatim>\<open>ResendCode\<close>). A client is only present or absent here. The two input channels
  hold one value each. Every submitted value has a channel of its own for its verdict: channels are
  numbered, \<open>ls_attempt\<close> is the one armed, \<open>ls_verdicts\<close> what has been sent on each.
\<close>

record liveSession =
  ls_id :: ident
  ls_kind :: string
  ls_status :: string
  ls_cl :: bool
  ls_err :: "err option"
  ls_loggingIn :: bool
  ls_codeInfo :: "json option"
  ls_lastErr :: string
  ls_attempt :: "nat option"
  ls_chans :: nat
  ls_verdicts :: "(nat \<times> err option) list"
  ls_canceled :: bool
  ls_loginDone :: "bool option"
  ls_codeCh :: "string option"
  ls_passwordCh :: "string option"

definition newLiveSession :: "ident \<Rightarrow> string \<Rightarrow> bool \<Rightarrow> liveSession" where
  "newLiveSession sid kind interactive =
     \<lparr>ls_id = sid, ls_kind = kind, ls_status = ''connecting'', ls_cl = False, ls_err = None, ls_loggingIn = False,
      ls_codeInfo = None, ls_lastErr = '''', ls_attempt = None, ls_chans = 0, ls_verdicts = [],
      ls_canceled = False, ls_loginDone = (if interactive then Some False else None), ls_codeCh = None,
      ls_passwordCh = None\<rparr>"

text \<open>A status change is mirrored into the registry; a write that fails is only logged.\<close>

definition persist :: "time \<Rightarrow> ident \<Rightarrow> string \<Rightarrow> registry \<Rightarrow> registry" where
  "persist now sid st reg =
     (if db_up reg \<and> is_uuid reg sid then UpdateSessionStatus now sid st reg else reg)"

definition setStatus :: "time \<Rightarrow> string \<Rightarrow> liveSession \<times> registry \<Rightarrow> liveSession \<times> registry" where
  "setStatus now st x =
     (case x of (s, reg) \<Rightarrow>
        if ls_status s = st then (s, reg) else (s\<lparr>ls_status := st\<rparr>, persist now (ls_id s) st reg))"

definition setClient :: "time \<Rightarrow> liveSession \<times> registry \<Rightarrow> liveSession \<times> registry" where
  "setClient now x =
     (case x of (s, reg) \<Rightarrow> setStatus now ''authorized'' (s\<lparr>ls_cl := True, ls_loggingIn := False\<rparr>, reg))"

definition readyClient :: "liveSession \<Rightarrow> bool" where
  "readyClient s = (if ls_loggingIn s \<or> ls_status s \<noteq> ''authorized'' then False else ls_cl s)"

definition beginLogin :: "liveSession \<Rightarrow> liveSession" where
  "beginLogin s = s\<lparr>ls_cl := True, ls_loggingIn := True\<rparr>"

definition failLogin :: "(db_err \<Rightarrow> string) \<Rightarrow> time \<Rightarrow> err \<Rightarrow> liveSession \<times> registry \<Rightarrow> liveSession \<times> registry" where
  "failLogin dbt now e x =
     (case x of (s, reg) \<Rightarrow>
        (let s1 = s\<lparr>ls_err := Some e, ls_cl := False, ls_loggingIn := False, ls_lastErr := err_text dbt e\<rparr>
         in if ls_status s = ''authorized'' then (s1, reg) else setStatus now ''error'' (s1, reg)))"

definition armAttempt :: "liveSession \<Rightarrow> nat \<times> liveSession" where
  "armAttempt s = (ls_chans s, s\<lparr>ls_attempt := Some (ls_chans s), ls_chans := Suc (ls_chans s), ls_lastErr := ''''\<rparr>)"

definition reportAttempt :: "(db_err \<Rightarrow> string) \<Rightarrow> err option \<Rightarrow> liveSession \<Rightarrow> liveSession" where
  "reportAttempt dbt e s =
     (let s1 = s\<lparr>ls_attempt := None, ls_lastErr := (case e of None \<Rightarrow> ls_lastErr s | Some x \<Rightarrow> err_text dbt x)\<rparr>
      in case ls_attempt s of None \<Rightarrow> s1 | Some ch \<Rightarrow> s1\<lparr>ls_verdicts := ls_verdicts s @ [(ch, e)]\<rparr>)"

definition setLastErr :: "(db_err \<Rightarrow> string) \<Rightarrow> err \<Rightarrow> liveSession \<Rightarrow> liveSession" where
  "setLastErr dbt e s = s\<lparr>ls_lastErr := err_text dbt e\<rparr>"

definition setCodeInfo :: "json option \<Rightarrow> liveSession \<Rightarrow> liveSession" where
  "setCodeInfo info s = (case info of None \<Rightarrow> s | Some j \<Rightarrow> s\<lparr>ls_codeInfo := Some j\<rparr>)"

definition abortLogin :: "liveSession \<Rightarrow> bool \<times> liveSession" where
  "abortLogin s =
     (if ls_loginDone s = None \<or> ls_canceled s then (False, s)
      else if ls_loginDone s = Some True then (False, s)
      else (True, s\<lparr>ls_canceled := True\<rparr>))"

record SessionState =
  ss_status :: string
  ss_codeInfo :: "json option"
  ss_lastError :: string
  ss_premium :: "bool option"
  ss_frozen :: bool
  ss_spam :: bool

definition session_state :: "time \<Rightarrow> guard \<Rightarrow> liveSession \<Rightarrow> SessionState" where
  "session_state now g s =
     (case guard_flags now g of (premium, frozen, spam) \<Rightarrow>
        \<lparr>ss_status = ls_status s,
         ss_codeInfo = (if ls_status s = ''awaiting_code'' then ls_codeInfo s else None),
         ss_lastError = (if ls_status s = ''authorized'' then '''' else ls_lastErr s),
         ss_premium = premium, ss_frozen = frozen, ss_spam = spam\<rparr>)"

subsection \<open>The authorizer\<close>

datatype auth_state =
    WaitTdlibParameters
  | WaitPhoneNumber
  | WaitCode "json option"
  | WaitPassword
  | AuthReady
  | AuthClosing
  | AuthClosed
  | AuthOther

record authHandler =
  ah_proxy :: bool
  ah_botToken :: string
  ah_phone :: string
  ah_phoneSent :: bool
  ah_rehydrate :: bool

text \<open>
  The login of one session: its live state, its handler, the registry and the client. \<open>lw_wait\<close> is the
  input the authorizer is blocked on, \<open>lw_checking\<close> the value it has taken and TDLib is checking;
  \<open>lw_over\<close> the error that ended the login (go-tdlib then closes the client) or its success.
\<close>

datatype input = CodeInput | PasswordInput
datatype verdict = Failed err | Authorized

record login =
  lw_ls :: liveSession
  lw_h :: authHandler
  lw_reg :: registry
  lw_td :: td_env
  lw_wait :: "input option"
  lw_checking :: "(input \<times> string) option"
  lw_over :: "verdict option"

fun input_status :: "input \<Rightarrow> string" where
  "input_status CodeInput = ''awaiting_code''"
| "input_status PasswordInput = ''awaiting_password''"

fun input_method :: "input \<Rightarrow> string \<times> string" where
  "input_method CodeInput = (''checkAuthenticationCode'', ''code'')"
| "input_method PasswordInput = (''checkAuthenticationPassword'', ''password'')"

definition fatal :: "(db_err \<Rightarrow> string) \<Rightarrow> err option \<Rightarrow> login \<Rightarrow> err option \<times> login" where
  "fatal dbt e w =
     (case e of None \<Rightarrow> (None, w) | Some x \<Rightarrow> (Some x, w\<lparr>lw_ls := setLastErr dbt x (lw_ls w)\<rparr>))"

text \<open>
  The first part of \<^verbatim>\<open>await\<close>, up to its \<^verbatim>\<open>select\<close>; then a value is taken and, with TDLib's answer,
  reported (\<open>await_value\<close>). A cancellation instead ends the login.
\<close>

definition await_begin :: "time \<Rightarrow> input \<Rightarrow> login \<Rightarrow> login" where
  "await_begin now i w =
     (case setStatus now (input_status i) (beginLogin (lw_ls w), lw_reg w) of
        (s, reg) \<Rightarrow> w\<lparr>lw_ls := s, lw_reg := reg, lw_wait := Some i\<rparr>)"

fun take_input :: "input \<Rightarrow> liveSession \<Rightarrow> string option \<times> liveSession" where
  "take_input CodeInput s = (ls_codeCh s, s\<lparr>ls_codeCh := None\<rparr>)"
| "take_input PasswordInput s = (ls_passwordCh s, s\<lparr>ls_passwordCh := None\<rparr>)"

definition await_value :: "(db_err \<Rightarrow> string) \<Rightarrow> input \<Rightarrow> string \<Rightarrow> login \<Rightarrow> login" where
  "await_value dbt i value w =
     (case input_method i of (method, field) \<Rightarrow>
        (case td_Call method (RawVal (JObj [(field, JStr value)])) (lw_td w) of
           (r, env) \<Rightarrow> w\<lparr>lw_ls := reportAttempt dbt (case r of Inl e \<Rightarrow> Some e | Inr _ \<Rightarrow> None) (lw_ls w),
                         lw_td := env, lw_checking := None\<rparr>))"

text \<open>
  \<^verbatim>\<open>Handle\<close>. A call through go-tdlib's typed client is the parameter \<open>typed\<close>: the method, and the
  client before and after it. The result is the error returned to go-tdlib; while the authorizer waits
  for input (\<open>lw_wait\<close>) there is no result yet.
\<close>

definition Handle ::
  "(string \<Rightarrow> td_env \<Rightarrow> err option \<times> td_env) \<Rightarrow> (db_err \<Rightarrow> string) \<Rightarrow> time \<Rightarrow> auth_state \<Rightarrow> login \<Rightarrow> err option \<times> login" where
  "Handle typed dbt now st w =
     (case st of
        WaitTdlibParameters \<Rightarrow>
          (case typed ''setTdlibParameters'' (lw_td w) of
             (Some e, env) \<Rightarrow> fatal dbt (Some e) (w\<lparr>lw_td := env\<rparr>)
           | (None, env) \<Rightarrow>
               if ah_proxy (lw_h w)
               then (case typed ''addProxy'' env of (r, env') \<Rightarrow> fatal dbt r (w\<lparr>lw_td := env'\<rparr>))
               else (None, w\<lparr>lw_td := env\<rparr>))
      | WaitPhoneNumber \<Rightarrow>
          if ah_rehydrate (lw_h w) then (Some ERehydrateExpired, w)
          else if ah_botToken (lw_h w) \<noteq> ''''
          then (case typed ''checkAuthenticationBotToken'' (lw_td w) of (r, env) \<Rightarrow> fatal dbt r (w\<lparr>lw_td := env\<rparr>))
          else if ah_phoneSent (lw_h w) then fatal dbt (Some ELoginRestart) w
          else (case typed ''setAuthenticationPhoneNumber'' (lw_td w) of
                  (r, env) \<Rightarrow> fatal dbt r (w\<lparr>lw_h := (lw_h w)\<lparr>ah_phoneSent := True\<rparr>,
                                            lw_ls := beginLogin (lw_ls w), lw_td := env\<rparr>))
      | WaitCode info \<Rightarrow>
          if ah_rehydrate (lw_h w) then (Some ERehydrateExpired, w)
          else (None, await_begin now CodeInput (w\<lparr>lw_ls := setCodeInfo info (lw_ls w)\<rparr>))
      | WaitPassword \<Rightarrow>
          if ah_rehydrate (lw_h w) then (Some ERehydrateExpired, w)
          else (None, await_begin now PasswordInput w)
      | AuthReady \<Rightarrow> (None, w)
      | AuthClosing \<Rightarrow> (None, w)
      | AuthClosed \<Rightarrow> (None, w)
      | AuthOther \<Rightarrow> fatal dbt (Some (EMsg ''not supported'')) w)"

subsection \<open>The operator's side\<close>

definition push_input :: "input \<Rightarrow> string \<Rightarrow> liveSession \<Rightarrow> liveSession option" where
  "push_input i v s =
     (case i of
        CodeInput \<Rightarrow> if ls_codeCh s = None then Some (s\<lparr>ls_codeCh := Some v\<rparr>) else None
      | PasswordInput \<Rightarrow> if ls_passwordCh s = None then Some (s\<lparr>ls_passwordCh := Some v\<rparr>) else None)"

text \<open>
  \<^verbatim>\<open>submit\<close> up to its wait: an error, or the channel on which it waits for the verdict; and what it
  answers then, \<open>None\<close> being a wait that timed out. A receiver that stands ready takes the value from the
  channel at once; here it is put into the channel and taken by the next step of the login.
\<close>

definition submit :: "input \<Rightarrow> string \<Rightarrow> liveSession \<Rightarrow> (err + nat) \<times> liveSession" where
  "submit i value s =
     (if ls_status s \<noteq> input_status i
      then (Inl (EMsg (''session is '' @ ls_status s @ '', not '' @ input_status i)), s)
      else (case armAttempt s of
              (ch, s1) \<Rightarrow>
                (case push_input i value s1 of
                   None \<Rightarrow> (Inl (EMsg ''login is not accepting input right now''), s1)
                 | Some s2 \<Rightarrow> (Inr ch, s2))))"

definition submit_answer :: "err option option \<Rightarrow> err option" where
  "submit_answer v = (case v of None \<Rightarrow> Some (EMsg ''timed out waiting for Telegram'') | Some r \<Rightarrow> r)"

definition ResendCode :: "(db_err \<Rightarrow> string) \<Rightarrow> liveSession \<Rightarrow> td_env \<Rightarrow> err option \<times> liveSession \<times> td_env" where
  "ResendCode dbt s env =
     (if ls_status s \<noteq> ''awaiting_code''
      then (Some (EMsg (''session is '' @ ls_status s @ '', not awaiting_code'')), s, env)
      else if \<not> ls_cl s then (Some (EMsg ''login is not ready for a resend''), s, env)
      else (case td_Call ''resendAuthenticationCode'' RawEmpty env of
              (Inl e, env') \<Rightarrow> (Some e, setLastErr dbt e s, env')
            | (Inr _, env') \<Rightarrow> (None, s, env')))"

subsection \<open>The login as a state machine\<close>

text \<open>
  TDLib moves the authorizer from state to state, the operator submits values, asks for another code or
  gives up, at any time and in any order.
\<close>

definition end_login :: "(db_err \<Rightarrow> string) \<Rightarrow> time \<Rightarrow> err \<Rightarrow> login \<Rightarrow> login" where
  "end_login dbt now e w =
     (case failLogin dbt now e (lw_ls w, lw_reg w) of
        (s, reg) \<Rightarrow> w\<lparr>lw_ls := s\<lparr>ls_loginDone := Some True\<rparr>, lw_reg := reg, lw_wait := None, lw_over := Some (Failed e)\<rparr>)"

definition complete_login :: "time \<Rightarrow> login \<Rightarrow> login" where
  "complete_login now w =
     (case setClient now (lw_ls w, lw_reg w) of
        (s, reg) \<Rightarrow> w\<lparr>lw_ls := s\<lparr>ls_loginDone := Some True\<rparr>, lw_reg := reg, lw_over := Some Authorized\<rparr>)"

definition idle :: "login \<Rightarrow> bool" where
  "idle w \<longleftrightarrow> lw_over w = None \<and> lw_wait w = None \<and> lw_checking w = None"

inductive login_step ::
  "(string \<Rightarrow> td_env \<Rightarrow> err option \<times> td_env) \<Rightarrow> (db_err \<Rightarrow> string) \<Rightarrow> login \<Rightarrow> login \<Rightarrow> bool"
  for typed dbt where
  enter: "idle w \<Longrightarrow> Handle typed dbt now st w = (None, w') \<Longrightarrow> login_step typed dbt w w'"
| refuse: "idle w \<Longrightarrow> Handle typed dbt now st w = (Some e, w') \<Longrightarrow> login_step typed dbt w (end_login dbt now e w')"
| finish: "idle w \<Longrightarrow> login_step typed dbt w (complete_login now w)"
| take: "lw_over w = None \<Longrightarrow> lw_wait w = Some i \<Longrightarrow> take_input i (lw_ls w) = (Some v, s) \<Longrightarrow>
     login_step typed dbt w (w\<lparr>lw_ls := s, lw_wait := None, lw_checking := Some (i, v)\<rparr>)"
| report: "lw_over w = None \<Longrightarrow> lw_checking w = Some (i, v) \<Longrightarrow> login_step typed dbt w (await_value dbt i v w)"
| cancel: "lw_over w = None \<Longrightarrow> lw_wait w = Some i \<Longrightarrow> ls_canceled (lw_ls w) \<Longrightarrow>
     login_step typed dbt w (end_login dbt now ELoginCanceled w)"
| submitted: "submit i v (lw_ls w) = (r, s) \<Longrightarrow> login_step typed dbt w (w\<lparr>lw_ls := s\<rparr>)"
| aborted: "abortLogin (lw_ls w) = (b, s) \<Longrightarrow> login_step typed dbt w (w\<lparr>lw_ls := s\<rparr>)"
| resent: "ResendCode dbt (lw_ls w) (lw_td w) = (r, s, env) \<Longrightarrow> login_step typed dbt w (w\<lparr>lw_ls := s, lw_td := env\<rparr>)"

inductive login_reach ::
  "(string \<Rightarrow> td_env \<Rightarrow> err option \<times> td_env) \<Rightarrow> (db_err \<Rightarrow> string) \<Rightarrow> login \<Rightarrow> login \<Rightarrow> bool"
  for typed dbt w0 where
  start: "login_reach typed dbt w0 w0"
| step: "login_reach typed dbt w0 w \<Longrightarrow> login_step typed dbt w w' \<Longrightarrow> login_reach typed dbt w0 w'"

definition login_start :: "ident \<Rightarrow> authHandler \<Rightarrow> registry \<Rightarrow> td_env \<Rightarrow> login" where
  "login_start sid h reg env =
     \<lparr>lw_ls = newLiveSession sid ''user'' True, lw_h = h\<lparr>ah_phoneSent := False\<rparr>, lw_reg = reg, lw_td = env,
      lw_wait = None, lw_checking = None, lw_over = None\<rparr>"

text \<open>What the status, the client and the state of the login have to do with each other.\<close>

definition login_ok :: "login \<Rightarrow> bool" where
  "login_ok w \<longleftrightarrow>
     (case lw_over w of
        None \<Rightarrow> ls_status (lw_ls w) \<in> {''connecting'', ''awaiting_code'', ''awaiting_password''}
      | Some (Failed _) \<Rightarrow> ls_status (lw_ls w) = ''error'' \<and> \<not> ls_cl (lw_ls w)
      | Some Authorized \<Rightarrow> ls_status (lw_ls w) = ''authorized'' \<and> ls_cl (lw_ls w) \<and> \<not> ls_loggingIn (lw_ls w))
     \<and> (\<forall>i. (lw_wait w = Some i \<or> (\<exists>v. lw_checking w = Some (i, v))) \<longrightarrow>
           lw_over w = None \<and> ls_cl (lw_ls w) \<and> ls_loggingIn (lw_ls w) \<and> ls_status (lw_ls w) = input_status i)
     \<and> (lw_wait w = None \<or> lw_checking w = None)"

lemma setStatus_fields:
  "setStatus now st (s, reg) = (s', reg') \<Longrightarrow> s' = s\<lparr>ls_status := st\<rparr>"
  by (auto simp: setStatus_def split: if_splits)

lemma fatal_fields:
  "fatal dbt e w = (r, w') \<Longrightarrow> lw_over w' = lw_over w \<and> lw_checking w' = lw_checking w \<and> lw_wait w' = lw_wait w
     \<and> ls_status (lw_ls w') = ls_status (lw_ls w) \<and> lw_h w' = lw_h w \<and> lw_td w' = lw_td w"
  by (auto simp: fatal_def setLastErr_def split: option.splits)

lemma await_begin_fields:
  "lw_over (await_begin now i w) = lw_over w \<and> lw_checking (await_begin now i w) = lw_checking w
   \<and> lw_wait (await_begin now i w) = Some i \<and> ls_cl (lw_ls (await_begin now i w))
   \<and> ls_loggingIn (lw_ls (await_begin now i w)) \<and> ls_status (lw_ls (await_begin now i w)) = input_status i
   \<and> lw_h (await_begin now i w) = lw_h w \<and> lw_td (await_begin now i w) = lw_td w"
  by (auto simp: await_begin_def beginLogin_def dest!: setStatus_fields split: prod.splits)

lemma Handle_fields:
  assumes "Handle typed dbt now st w = (r, w')"
  shows "lw_over w' = lw_over w \<and> lw_checking w' = lw_checking w \<and>
    ((lw_wait w' = lw_wait w \<and> ls_status (lw_ls w') = ls_status (lw_ls w)) \<or>
     (\<exists>i. lw_wait w' = Some i \<and> ls_cl (lw_ls w') \<and> ls_loggingIn (lw_ls w') \<and> ls_status (lw_ls w') = input_status i))"
proof (cases st)
  case (WaitCode info)
  then show ?thesis
    using assms await_begin_fields [of now CodeInput "w\<lparr>lw_ls := setCodeInfo info (lw_ls w)\<rparr>"]
    by (auto simp: Handle_def split: if_splits)
next
  case WaitPassword
  then show ?thesis
    using assms await_begin_fields [of now PasswordInput w] by (auto simp: Handle_def split: if_splits)
qed (use assms in \<open>auto simp: Handle_def beginLogin_def dest!: fatal_fields split: prod.splits option.splits if_splits\<close>)

lemma Handle_ok:
  assumes "Handle typed dbt now st w = (r, w')" and "login_ok w" and "idle w"
  shows "login_ok w'" and "lw_over w' = None" and "lw_checking w' = None"
proof -
  note h = Handle_fields [OF assms(1)]
  show "lw_over w' = None" "lw_checking w' = None" using h assms(3) by (auto simp: idle_def)
  from h show "login_ok w'"
  proof (elim conjE disjE exE)
    fix i
    assume "lw_wait w' = Some i" "ls_cl (lw_ls w')" "ls_loggingIn (lw_ls w')" "ls_status (lw_ls w') = input_status i"
    then show ?thesis using h assms(3) by (cases i) (auto simp: login_ok_def idle_def)
  qed (use assms(2,3) in \<open>simp add: login_ok_def idle_def\<close>)
qed

lemma end_login_ok:
  "login_ok w \<Longrightarrow> lw_over w = None \<Longrightarrow> lw_checking w = None \<Longrightarrow> login_ok (end_login dbt now e w)"
  by (auto simp: end_login_def login_ok_def failLogin_def Let_def dest!: setStatus_fields split: prod.splits if_splits)

lemma complete_login_ok: "idle w \<Longrightarrow> login_ok (complete_login now w)"
  by (auto simp: idle_def complete_login_def login_ok_def setClient_def dest!: setStatus_fields split: prod.splits)

lemma await_value_ok:
  assumes "login_ok w" and "lw_over w = None" and "lw_checking w = Some (i, v)"
  shows "login_ok (await_value dbt i v w)"
  using assms by (cases i) (auto simp: await_value_def login_ok_def reportAttempt_def Let_def split: prod.splits option.splits)

lemma take_input_ok:
  assumes "login_ok w" and "lw_over w = None" and "lw_wait w = Some i" and "take_input i (lw_ls w) = (x, s)"
  shows "login_ok (w\<lparr>lw_ls := s, lw_wait := None, lw_checking := Some (i, v)\<rparr>)"
  using assms by (cases i) (auto simp: login_ok_def)

lemma ls_only_ok:
  assumes "login_ok w" and "ls_status s = ls_status (lw_ls w)" "ls_cl s = ls_cl (lw_ls w)"
    "ls_loggingIn s = ls_loggingIn (lw_ls w)"
  shows "login_ok (w\<lparr>lw_ls := s\<rparr>)" and "login_ok (w\<lparr>lw_ls := s, lw_td := env\<rparr>)"
  using assms by (auto simp: login_ok_def split: option.splits verdict.splits)

lemma submit_fields:
  "submit i v s = (r, s') \<Longrightarrow> ls_status s' = ls_status s \<and> ls_cl s' = ls_cl s \<and> ls_loggingIn s' = ls_loggingIn s"
  by (auto simp: submit_def armAttempt_def push_input_def split: if_splits option.splits input.splits)

lemma ResendCode_fields:
  "ResendCode dbt s env = (r, s', env') \<Longrightarrow>
   ls_status s' = ls_status s \<and> ls_cl s' = ls_cl s \<and> ls_loggingIn s' = ls_loggingIn s"
  by (auto simp: ResendCode_def setLastErr_def split: if_splits prod.splits sum.splits)

lemma login_step_ok: "login_step typed dbt w w' \<Longrightarrow> login_ok w \<Longrightarrow> login_ok w'"
proof (induction rule: login_step.induct)
  case (refuse w now st e w')
  then show ?case by (intro end_login_ok) (auto dest: Handle_ok)
next
  case (cancel w i now)
  then show ?case by (intro end_login_ok) (auto simp: login_ok_def)
next
  case (submitted i v w r s)
  then show ?case using submit_fields [OF submitted(1)] by (intro ls_only_ok(1)) auto
next
  case (aborted w b s)
  then show ?case by (intro ls_only_ok(1)) (auto simp: abortLogin_def split: if_splits)
next
  case (resent w r s env)
  then show ?case using ResendCode_fields [OF resent(1)] by (intro ls_only_ok(2)) auto
qed (auto intro: Handle_ok complete_login_ok await_value_ok take_input_ok)

lemma login_reach_ok: "login_reach typed dbt (login_start sid h reg env) w \<Longrightarrow> login_ok w"
proof (induction rule: login_reach.induct)
  case start
  then show ?case by (simp add: login_ok_def login_start_def newLiveSession_def)
qed (auto intro: login_step_ok)

text \<open>
  C9: through every interleaving of TDLib's states and the operator's submits, resends and aborts, the
  session hands out a client for calls exactly when its login has completed: never while the login
  waits for input, though the client exists by then, and never after it has failed.
\<close>

theorem login_ready_iff_authorized:
  assumes "login_reach typed dbt (login_start sid h reg env) w"
  shows "readyClient (lw_ls w) \<longleftrightarrow> lw_over w = Some Authorized"
  using login_reach_ok [OF assms]
  by (auto simp: login_ok_def readyClient_def split: option.splits verdict.splits)

text \<open>One way to make go-tdlib's typed calls, and a login to try things on.\<close>

definition plain_typed :: "string \<Rightarrow> td_env \<Rightarrow> err option \<times> td_env" where
  "plain_typed m env = (case td_Call m RawEmpty env of (r, env') \<Rightarrow> (case r of Inl e \<Rightarrow> Some e | Inr _ \<Rightarrow> None, env'))"

definition sample_login :: login where
  "sample_login = login_start ''s1''
     \<lparr>ah_proxy = False, ah_botToken = '''', ah_phone = ''+1'', ah_phoneSent = False, ah_rehydrate = False\<rparr>
     (empty_registry\<lparr>sessions := [sample_session ''s1'' ''user'' ''connecting'' None]\<rparr>)
     \<lparr>td_log = [], td_answer = (\<lambda>log q. Inr (''ok'', JObj [])), td_extra = (\<lambda>n. ''''), td_text = (\<lambda>_. '''')\<rparr>"

theorem login_ready_iff_authorized_witness:
  "readyClient (lw_ls (complete_login 0 sample_login))
   \<and> \<not> readyClient (lw_ls (snd (Handle plain_typed (\<lambda>_. '''') 0 WaitPhoneNumber sample_login)))"
proof -
  have i: "idle sample_login" by (simp add: idle_def sample_login_def login_start_def)
  have h: "fst (Handle plain_typed (\<lambda>_. '''') 0 WaitPhoneNumber sample_login) = None"
    "lw_over (snd (Handle plain_typed (\<lambda>_. '''') 0 WaitPhoneNumber sample_login)) = None" by code_simp+
  have "login_reach plain_typed (\<lambda>_. '''') sample_login (complete_login 0 sample_login)"
    "login_reach plain_typed (\<lambda>_. '''') sample_login (snd (Handle plain_typed (\<lambda>_. '''') 0 WaitPhoneNumber sample_login))"
    using finish [OF i] enter [OF i, of plain_typed "\<lambda>_. ''''" 0 WaitPhoneNumber] h(1)
    by (metis login_reach.intros prod.collapse)+
  moreover have "lw_over (complete_login 0 sample_login) = Some Authorized"
    by (simp add: complete_login_def split: prod.splits)
  ultimately show ?thesis using login_ready_iff_authorized h(2) unfolding sample_login_def by fastforce
qed

subsection \<open>One code per login\<close>

definition sent_count :: "string \<Rightarrow> td_env \<Rightarrow> nat" where
  "sent_count m env = length (filter (\<lambda>q. obj_get q ''@type'' = Some (JStr m)) (td_log env))"

text \<open>What is relied on of go-tdlib: a typed call sends one request, of the method it is named after.\<close>

definition sends_its_method :: "(string \<Rightarrow> td_env \<Rightarrow> err option \<times> td_env) \<Rightarrow> bool" where
  "sends_its_method typed \<longleftrightarrow>
     (\<forall>m env. \<exists>q. td_log (snd (typed m env)) = td_log env @ [q] \<and> obj_get q ''@type'' = Some (JStr m))"

lemma typed_count:
  assumes "sends_its_method typed" and "typed m env = (r, env')"
  shows "sent_count k env' = sent_count k env + (if k = m then 1 else 0)"
proof -
  obtain q where "td_log env' = td_log env @ [q]" "obj_get q ''@type'' = Some (JStr m)"
    using assms by (metis sends_its_method_def snd_conv)
  then show ?thesis by (auto simp: sent_count_def)
qed

lemma td_Call_count:
  "td_Call m ps env = (r, env') \<Longrightarrow> k \<noteq> m \<Longrightarrow> sent_count k env' = sent_count k env"
  using td_Call_log [of m ps env r env'] by (auto simp: sent_count_def)

definition codes_requested :: "login \<Rightarrow> nat" where
  "codes_requested w = sent_count ''setAuthenticationPhoneNumber'' (lw_td w)"

lemma Handle_codes:
  assumes "sends_its_method typed" and "Handle typed dbt now st w = (r, w')"
  shows "codes_requested w' + (if ah_phoneSent (lw_h w) then 1 else 0)
       = codes_requested w + (if ah_phoneSent (lw_h w') then 1 else 0)"
proof (cases st)
  case WaitTdlibParameters
  obtain r1 env1 where t1: "typed ''setTdlibParameters'' (lw_td w) = (r1, env1)" by fastforce
  obtain r2 env2 where t2: "typed ''addProxy'' env1 = (r2, env2)" by fastforce
  show ?thesis
    using assms(2) typed_count [OF assms(1) t1, of "''setAuthenticationPhoneNumber''"]
      typed_count [OF assms(1) t2, of "''setAuthenticationPhoneNumber''"]
    by (auto simp: Handle_def WaitTdlibParameters t1 t2 codes_requested_def dest!: fatal_fields
        split: if_splits option.splits)
next
  case WaitPhoneNumber
  obtain r1 env1 where t1: "typed ''checkAuthenticationBotToken'' (lw_td w) = (r1, env1)" by fastforce
  obtain r2 env2 where t2: "typed ''setAuthenticationPhoneNumber'' (lw_td w) = (r2, env2)" by fastforce
  show ?thesis
    using assms(2) typed_count [OF assms(1) t1, of "''setAuthenticationPhoneNumber''"]
      typed_count [OF assms(1) t2, of "''setAuthenticationPhoneNumber''"]
    by (auto simp: Handle_def WaitPhoneNumber t1 t2 codes_requested_def dest!: fatal_fields split: if_splits)
next
  case (WaitCode info)
  then show ?thesis using assms(2) await_begin_fields [of now CodeInput "w\<lparr>lw_ls := setCodeInfo info (lw_ls w)\<rparr>"]
    by (auto simp: Handle_def codes_requested_def split: if_splits)
next
  case WaitPassword
  then show ?thesis using assms(2) await_begin_fields [of now PasswordInput w]
    by (auto simp: Handle_def codes_requested_def split: if_splits)
qed (use assms(2) in \<open>auto simp: Handle_def codes_requested_def dest!: fatal_fields\<close>)

lemma await_value_codes:
  "codes_requested (await_value dbt i v w) = codes_requested w \<and> lw_h (await_value dbt i v w) = lw_h w"
proof -
  obtain r env where c: "td_Call (fst (input_method i)) (RawVal (JObj [(snd (input_method i), JStr v)])) (lw_td w) = (r, env)"
    by fastforce
  have "''setAuthenticationPhoneNumber'' \<noteq> fst (input_method i)" by (cases i) simp_all
  from td_Call_count [OF c this] c show ?thesis by (simp add: await_value_def codes_requested_def case_prod_beta)
qed

lemma login_step_codes:
  assumes "sends_its_method typed"
  shows "login_step typed dbt w w' \<Longrightarrow>
    codes_requested w' + (if ah_phoneSent (lw_h w) then 1 else 0) = codes_requested w + (if ah_phoneSent (lw_h w') then 1 else 0)"
proof (induction rule: login_step.induct)
  case (enter w now st w')
  then show ?case using Handle_codes [OF assms] by blast
next
  case (refuse w now st e w')
  have "codes_requested (end_login dbt now e w') = codes_requested w'" "lw_h (end_login dbt now e w') = lw_h w'"
    by (simp_all add: end_login_def codes_requested_def split: prod.splits)
  then show ?case using Handle_codes [OF assms refuse(2)] by simp
next
  case (resent w r s env)
  then have "sent_count ''setAuthenticationPhoneNumber'' env = sent_count ''setAuthenticationPhoneNumber'' (lw_td w)"
    by (auto simp: ResendCode_def dest!: td_Call_count [where k = "''setAuthenticationPhoneNumber''"]
        split: if_splits prod.splits sum.splits)
  then show ?case by (simp add: codes_requested_def)
next
  case (report w i v)
  then show ?case using await_value_codes [of dbt i v w] by simp
qed (auto simp: codes_requested_def complete_login_def end_login_def split: prod.splits)

text \<open>
  C29: one login asks Telegram for a code at most once, whatever states TDLib goes through and whatever
  the operator submits: when TDLib falls back to the phone step, the login fails instead of sending a
  code nobody asked for. (Another code goes out only through an explicit resend.)
\<close>

theorem login_requests_one_code:
  assumes "sends_its_method typed" and "login_reach typed dbt (login_start sid h reg env) w"
  shows "codes_requested w \<le> codes_requested (login_start sid h reg env) + 1"
proof -
  have "codes_requested w = codes_requested (login_start sid h reg env) + (if ah_phoneSent (lw_h w) then 1 else 0)"
    using assms(2)
  proof (induction rule: login_reach.induct)
    case start
    then show ?case by (simp add: login_start_def)
  next
    case (step w w')
    then show ?case using login_step_codes [OF assms(1) step(2)] by simp
  qed
  then show ?thesis by simp
qed

lemma plain_typed_sends: "sends_its_method plain_typed"
  using MarshalJSON_type
  by (auto simp: sends_its_method_def plain_typed_def td_Call_def request_params_def td_send_def Let_def
      split: prod.splits sum.splits)

theorem login_requests_one_code_witness:
  "codes_requested (snd (Handle plain_typed (\<lambda>_. '''') 0 WaitPhoneNumber sample_login)) \<le> 1"
proof -
  have i: "idle sample_login" by (simp add: idle_def sample_login_def login_start_def)
  have h: "fst (Handle plain_typed (\<lambda>_. '''') 0 WaitPhoneNumber sample_login) = None" by code_simp
  have "login_reach plain_typed (\<lambda>_. '''') sample_login (snd (Handle plain_typed (\<lambda>_. '''') 0 WaitPhoneNumber sample_login))"
    using enter [OF i, of plain_typed "\<lambda>_. ''''" 0 WaitPhoneNumber] h by (metis login_reach.intros prod.collapse)
  moreover have "codes_requested sample_login = 0" by code_simp
  ultimately show ?thesis using login_requests_one_code [OF plain_typed_sends] unfolding sample_login_def by fastforce
qed

subsection \<open>Wrong input is cheap\<close>


definition rejecting :: login where
  "rejecting = sample_login\<lparr>lw_td := (lw_td sample_login)\<lparr>td_answer :=
     (\<lambda>log q. if obj_get q ''@type'' = Some (JStr ''checkAuthenticationCode'')
              then Inr (''error'', JObj [(''code'', JInt 400), (''message'', JStr ''PHONE_CODE_INVALID'')])
              else Inr (''ok'', JObj []))\<rparr>\<rparr>"

text \<open>The login waits for a code, the operator submits one, and the authorizer takes it.\<close>

definition waiting_for_code :: login where
  "waiting_for_code = snd (Handle plain_typed (\<lambda>_. '''') 0 (WaitCode None) rejecting)"

definition submitted_code :: login where
  "submitted_code = waiting_for_code\<lparr>lw_ls := snd (submit CodeInput ''111'' (lw_ls waiting_for_code))\<rparr>"

definition checking_code :: login where
  "checking_code = submitted_code\<lparr>lw_ls := snd (take_input CodeInput (lw_ls submitted_code)), lw_wait := None,
     lw_checking := Some (CodeInput, ''111'')\<rparr>"

lemma checking_code_reached: "login_reach plain_typed (\<lambda>_. '''') rejecting checking_code"
proof -
  have "idle rejecting" by (simp add: idle_def rejecting_def sample_login_def login_start_def)
  moreover have "fst (Handle plain_typed (\<lambda>_. '''') 0 (WaitCode None) rejecting) = None" by code_simp
  ultimately have "login_step plain_typed (\<lambda>_. '''') rejecting waiting_for_code"
    unfolding waiting_for_code_def by (metis enter prod.collapse)
  moreover have "login_step plain_typed (\<lambda>_. '''') waiting_for_code submitted_code"
    unfolding submitted_code_def by (metis submitted prod.collapse)
  moreover have "fst (take_input CodeInput (lw_ls submitted_code)) = Some ''111''" "lw_over submitted_code = None"
    "lw_wait submitted_code = Some CodeInput" by code_simp+
  then have "login_step plain_typed (\<lambda>_. '''') submitted_code checking_code"
    unfolding checking_code_def by (metis take prod.collapse)
  ultimately show ?thesis by (meson login_reach.intros)
qed


text \<open>
  A second value submitted while TDLib still checks the first takes over the first one's place: the
  verdict on the first value is delivered to the second submitter, and the first submitter gets none.
\<close>

lemma verdict_goes_to_the_wrong_submitter:
  "fst (submit CodeInput ''111'' (lw_ls waiting_for_code)) = Inr 0 \<and>
   fst (submit CodeInput ''222'' (lw_ls checking_code)) = Inr 1 \<and>
   ls_verdicts (lw_ls (await_value (\<lambda>_. '''') CodeInput ''111''
     (checking_code\<lparr>lw_ls := snd (submit CodeInput ''222'' (lw_ls checking_code))\<rparr>)))
   = [(1, Some (ETd \<lparr>td_code = 400, td_message = ''PHONE_CODE_INVALID''\<rparr>))]"
  by code_simp

end
