(* ===== verification/Calls.thy ===== *)
theory Calls
  imports Admission LocalFiles Login
begin

section \<open>Calls\<close>

text \<open>
  \<^verbatim>\<open>Manager.Call\<close> of \<^verbatim>\<open>internal/session/manager.go\<close>: the whole way of a td_api method through a worker.
  Besides the state of \<open>call_state\<close> a call works on the record of uploads waiting for their send.
  Arguments: which waits the caller stays for, the texts of the driver's errors, the uploads volume and
  the live session (\<open>None\<close> when the worker does not hold it).
\<close>

definition blockedMethods :: "string list" where
  "blockedMethods =
     [''close'', ''destroy'', ''logOut'', ''setTdlibParameters'', ''setDatabaseEncryptionKey'',
      ''setAuthenticationPhoneNumber'', ''checkAuthenticationCode'', ''checkAuthenticationPassword'',
      ''checkAuthenticationBotToken'', ''checkAuthenticationEmailCode'', ''resendAuthenticationCode'',
      ''registerUser'', ''requestQrCodeAuthentication'', ''addProxy'', ''editProxy'', ''removeProxy'',
      ''enableProxy'', ''disableProxy'', ''setLogStream'', ''setLogVerbosityLevel'', ''setLogTagVerbosityLevel'']"

definition IsBlockedMethod :: "string \<Rightarrow> bool" where
  "IsBlockedMethod method \<longleftrightarrow> method \<in> set blockedMethods"

definition check_cooldown :: "string \<Rightarrow> call_state \<Rightarrow> err option \<times> call_state" where
  "check_cooldown scope st = (let (now, st') = read_clock st in (checkCooldown scope now (cs_guard st'), st'))"

definition note_answer :: "caller \<Rightarrow> string \<Rightarrow> err option \<Rightarrow> call_state \<Rightarrow> call_state" where
  "note_answer cl scope e st =
     (if cl_kind cl \<noteq> ''user'' then st
      else (let (now, st1) = read_clock st; (g, js) = observe (cl_kind cl) scope e now (cs_guard st1)
            in st1\<lparr>cs_guard := g, cs_jobs := cs_jobs st1 @ js\<rparr>))"

definition td_request :: "string \<Rightarrow> raw \<Rightarrow> call_state \<Rightarrow> (err + json) \<times> call_state" where
  "td_request method params st =
     (case td_Call method params (cs_td st) of (r, env) \<Rightarrow> (r, st\<lparr>cs_td := env\<rparr>))"

definition err_of :: "(err + 'a) \<Rightarrow> err option" where
  "err_of r = (case r of Inl e \<Rightarrow> Some e | Inr _ \<Rightarrow> None)"

definition chat_fields :: "int field list" where
  "chat_fields = [(''id'', on_field (\<lambda>x. x) (\<lambda>x _. x) dec_int64)]"

definition resolveChatUsername ::
  "(duration \<Rightarrow> bool) \<Rightarrow> caller \<Rightarrow> raw \<Rightarrow> call_state \<Rightarrow> (err + raw) \<times> call_state" where
  "resolveChatUsername waits cl params st =
     (case stringChatID params of
        None \<Rightarrow> (Inr params, st)
      | Some u \<Rightarrow>
          (let uname = trim_prefix (trim_space u) ''@''
           in if uname = '''' then (Inr params, st)
              else (case check_cooldown ''@resolve'' st of
                      (Some e, st1) \<Rightarrow> (Inl e, st1)
                    | (None, st1) \<Rightarrow>
                        (let q = RawVal (JObj [(''username'', JStr uname)])
                         in case admit waits cl ''searchPublicChat'' ''@resolve'' q st1 of
                              (Some e, st2) \<Rightarrow> (Inl e, st2)
                            | (None, st2) \<Rightarrow>
                                (case td_request ''searchPublicChat'' q st2 of
                                   (r, st3) \<Rightarrow>
                                     (let st4 = note_answer cl ''@resolve'' (err_of r) st3
                                      in case r of
                                           Inl e \<Rightarrow> (Inl (EWrap (''resolve @'' @ uname @ '': '') e), st4)
                                         | Inr res \<Rightarrow>
                                             (case unmarshal (dec_struct chat_fields) (RawVal res) 0 of
                                                (ok, cid) \<Rightarrow>
                                                  if \<not> ok \<or> cid = 0
                                                  then (Inl (EMsg (''resolve @'' @ uname @ '': no chat id'')), st4)
                                                  else (case unmarshal_map params of
                                                          None \<Rightarrow> (Inl (EMsg ''json''), st4)
                                                        | Some obj \<Rightarrow>
                                                            (Inr (RawVal (marshal_map (map_put ''chat_id'' (JInt cid) obj))),
                                                             st4)))))))))"

text \<open>The dispatch: one request, and a second one only when the chat was unknown and could be loaded.\<close>

definition dispatch :: "(db_err \<Rightarrow> string) \<Rightarrow> string \<Rightarrow> raw \<Rightarrow> call_state \<Rightarrow> (err + json) \<times> call_state" where
  "dispatch dbt method params st =
     (case td_request method params st of
        (r, st1) \<Rightarrow>
          if isChatUnresolved dbt (err_of r)
          then (case forceLoadChat params of
                  None \<Rightarrow> (r, st1)
                | Some (loadMethod, loadParams) \<Rightarrow>
                    (case td_request loadMethod (RawVal loadParams) st1 of
                       (Inl _, st2) \<Rightarrow> (r, st2)
                     | (Inr _, st2) \<Rightarrow> td_request method params st2))
          else (r, st1))"

record call_ctx =
  cc_state :: call_state
  cc_pending :: "(int \<times> string list) list"

definition Call ::
  "(duration \<Rightarrow> bool) \<Rightarrow> (db_err \<Rightarrow> string) \<Rightarrow> string \<Rightarrow> liveSession option \<Rightarrow> caller \<Rightarrow> string \<Rightarrow> raw \<Rightarrow> call_ctx
   \<Rightarrow> (err + json) \<times> call_ctx" where
  "Call waits dbt uploadsDir live cl method params0 cc =
     (case live of
        None \<Rightarrow> (Inl (EMsg ''session not found''), cc)
      | Some ls \<Rightarrow>
          if \<not> readyClient ls then (Inl (EMsg (''session is '' @ ls_status ls @ '', not authorized'')), cc)
          else (case guardLocalPaths uploadsDir params0 of
                  Inl e \<Rightarrow> (Inl e, cc)
                | Inr uploadDirs \<Rightarrow>
                    (let scope = Scope method
                     in case check_cooldown scope (cc_state cc) of
                          (Some e, st1) \<Rightarrow> (Inl e, cc\<lparr>cc_state := st1\<rparr>)
                        | (None, st1) \<Rightarrow>
                            (case resolveChatUsername waits cl params0 st1 of
                               (Inl e, st2) \<Rightarrow> (Inl e, cc\<lparr>cc_state := st2\<rparr>)
                             | (Inr params, st2) \<Rightarrow>
                                 (case admit waits cl method scope params st2 of
                                    (Some e, st3) \<Rightarrow> (Inl e, cc\<lparr>cc_state := st3\<rparr>)
                                  | (None, st3) \<Rightarrow>
                                      (case dispatch dbt method params st3 of
                                         (r, st4) \<Rightarrow>
                                           (let st5 = note_answer cl scope (err_of r) st4
                                            in case r of
                                                 Inl e \<Rightarrow> (Inl e, cc\<lparr>cc_state := st5\<rparr>)
                                               | Inr res \<Rightarrow>
                                                   (let pend = (if uploadDirs \<noteq> [] then trackUpload res uploadDirs (cc_pending cc)
                                                                else cc_pending cc);
                                                        (now, st6) = read_clock st5
                                                    in (Inr res, \<lparr>cc_state = st6\<lparr>cs_reg :=
                                                                    registerSends now (cl_session cl) res (cs_reg st6)\<rparr>,
                                                                  cc_pending = pend\<rparr>)))))))))"

subsection \<open>What reaches TDLib\<close>

text \<open>The requests a step adds to the log; the client behind it does not change.\<close>

definition sends_only :: "string set \<Rightarrow> td_env \<Rightarrow> td_env \<Rightarrow> bool" where
  "sends_only ms env env' \<longleftrightarrow>
     td_answer env' = td_answer env \<and>
     (\<exists>qs. td_log env' = td_log env @ qs \<and> (\<forall>q \<in> set qs. \<exists>m \<in> ms. obj_get q ''@type'' = Some (JStr m)))"

lemma sends_only_refl [simp]: "sends_only ms env env"
  by (simp add: sends_only_def)

lemma sends_only_trans: "sends_only ms a b \<Longrightarrow> sends_only ms b c \<Longrightarrow> sends_only ms a c"
proof -
  assume 1: "sends_only ms a b" and 2: "sends_only ms b c"
  obtain p q where p: "td_log b = td_log a @ p" "\<forall>x \<in> set p. \<exists>m \<in> ms. obj_get x ''@type'' = Some (JStr m)"
    and q: "td_log c = td_log b @ q" "\<forall>x \<in> set q. \<exists>m \<in> ms. obj_get x ''@type'' = Some (JStr m)"
    using 1 2 unfolding sends_only_def by blast
  have "td_answer c = td_answer a" using 1 2 by (simp add: sends_only_def)
  moreover have "td_log c = td_log a @ (p @ q)" "\<forall>x \<in> set (p @ q). \<exists>m \<in> ms. obj_get x ''@type'' = Some (JStr m)"
    using p q by auto
  ultimately show ?thesis unfolding sends_only_def by blast
qed

lemma sends_only_mono: "sends_only ms a b \<Longrightarrow> ms \<subseteq> ms' \<Longrightarrow> sends_only ms' a b"
  unfolding sends_only_def by blast

lemma td_Call_answer: "td_Call m ps env = (r, env') \<Longrightarrow> td_answer env' = td_answer env"
  by (auto simp: td_Call_def td_send_def Let_def split: sum.splits prod.splits if_splits)

lemma td_Call_sends: "td_Call m ps env = (r, env') \<Longrightarrow> sends_only {m} env env'"
  using td_Call_log [of m ps env r env'] td_Call_answer [of m ps env r env'] by (auto simp: sends_only_def)

lemma td_request_sends: "td_request m ps st = (r, st') \<Longrightarrow> sends_only {m} (cs_td st) (cs_td st')"
  by (auto simp: td_request_def dest: td_Call_sends split: prod.splits)

lemma spamBlocked_sends: "spamBlocked scope ps st = (b, st') \<Longrightarrow> sends_only {''getUser''} (cs_td st) (cs_td st')"
  by (auto simp: spamBlocked_def dest!: td_Call_sends split: if_splits option.splits prod.splits sum.splits)

lemma admit_sends:
  assumes "admit waits cl m scope ps st = (r, st')"
  shows "sends_only {''getUser''} (cs_td st) (cs_td st')"
proof -
  define pre where "pre = (if cl_kind cl = ''user''
             then (let (now, s1) = read_clock st
                   in case guard_active SpamLimitScope now (cs_guard s1) of
                        None \<Rightarrow> (None, s1)
                      | Some c \<Rightarrow> (let (b, s2) = spamBlocked scope ps s1 in (if b then Some c else None, s2)))
             else (None, st))"
  obtain spam st1 where sp: "pre = (spam, st1)" by (cases pre)
  have s1: "sends_only {''getUser''} (cs_td st) (cs_td st1)"
    using sp by (auto simp: pre_def read_clock_def Let_def dest!: spamBlocked_sends
        split: if_splits prod.splits option.splits)
  obtain q st2 where q: "takeQuota cl m ps st1 = (q, st2)" by (cases "takeQuota cl m ps st1")
  have "cs_td st' = cs_td st1"
    using assms takeQuota_frame(1) [OF q] unfolding admit_def pre_def [symmetric]
    by (auto simp: sp q read_clock_def release_frame Let_def split: option.splits sum.splits if_splits prod.splits)
  then show ?thesis using s1 by simp
qed

lemma note_answer_td: "cs_td (note_answer cl scope e st) = cs_td st"
  by (auto simp: note_answer_def read_clock_def Let_def split: prod.splits)

lemma check_cooldown_td: "check_cooldown scope st = (r, st') \<Longrightarrow> cs_td st' = cs_td st"
  by (auto simp: check_cooldown_def read_clock_def Let_def)

definition helpers :: "string set" where "helpers = {''getUser'', ''searchPublicChat''}"

lemma resolve_sends:
  assumes "resolveChatUsername waits cl ps st = (r, st')"
  shows "sends_only helpers (cs_td st) (cs_td st')"
proof (cases "\<exists>u. stringChatID ps = Some u \<and> trim_prefix (trim_space u) ''@'' \<noteq> ''''")
  case False
  then show ?thesis using assms by (auto simp: resolveChatUsername_def split: option.splits)
next
  case True
  then obtain u where u: "stringChatID ps = Some u" "trim_prefix (trim_space u) ''@'' \<noteq> ''''" by blast
  let ?q = "RawVal (JObj [(''username'', JStr (trim_prefix (trim_space u) ''@''))])"
  obtain c st1 where c: "check_cooldown ''@resolve'' st = (c, st1)" by (cases "check_cooldown ''@resolve'' st")
  obtain a st2 where a: "admit waits cl ''searchPublicChat'' ''@resolve'' ?q st1 = (a, st2)"
    by (cases "admit waits cl ''searchPublicChat'' ''@resolve'' ?q st1")
  obtain t st3 where t: "td_request ''searchPublicChat'' ?q st2 = (t, st3)"
    by (cases "td_request ''searchPublicChat'' ?q st2")
  have s2: "sends_only helpers (cs_td st) (cs_td st2)"
    using admit_sends [OF a] check_cooldown_td [OF c] by (auto simp: helpers_def elim: sends_only_mono)
  have s3: "sends_only helpers (cs_td st) (cs_td st3)"
    by (rule sends_only_trans [OF s2 sends_only_mono [OF td_request_sends [OF t]]]) (simp add: helpers_def)
  have "st' = st1 \<or> st' = st2 \<or> cs_td st' = cs_td st3"
    using assms u by (auto simp: resolveChatUsername_def c a t Let_def note_answer_td
        split: option.splits sum.splits prod.splits if_splits)
  then show ?thesis using s2 s3 check_cooldown_td [OF c] by auto
qed

subsection \<open>Refused calls\<close>

text \<open>What is relied on of go-tdlib: the errors it returns itself are not the guard's refusals.\<close>

definition answers_no_refusal :: "td_env \<Rightarrow> bool" where
  "answers_no_refusal env \<longleftrightarrow> (\<forall>log q e. td_answer env log q = Inl e \<longrightarrow> as_refused e = None)"

lemma td_Call_no_refusal:
  assumes "answers_no_refusal env" and "td_Call m ps env = (Inl e, env')"
  shows "as_refused e = None"
  using assms
  by (auto simp: answers_no_refusal_def td_Call_def td_send_def request_params_def parseTdError_def Let_def
      split: sum.splits prod.splits if_splits option.splits)

lemma dispatch_no_refusal:
  assumes "answers_no_refusal (cs_td st)" and "dispatch dbt m ps st = (Inl e, st')"
  shows "as_refused e = None"
proof -
  have req: "as_refused x = None" if "answers_no_refusal (cs_td s)" "td_request k p s = (Inl x, s')" for k p s x s'
    using that td_Call_no_refusal by (auto simp: td_request_def split: prod.splits)
  have keep: "answers_no_refusal (cs_td s')" if "answers_no_refusal (cs_td s)" "td_request k p s = (x, s')" for k p s x s'
    using that td_Call_answer [of k p "cs_td s"] by (fastforce simp: td_request_def answers_no_refusal_def split: prod.splits)
  show ?thesis using assms
    by (auto simp: dispatch_def split: prod.splits if_splits option.splits sum.splits intro: req keep)
qed

text \<open>The errors that are answered before the dispatch are never TDLib's own.\<close>

lemma checkCooldown_err: "checkCooldown scope now g = Some e \<Longrightarrow> e \<noteq> ETd te"
  by (auto simp: checkCooldown_def split: option.splits)

lemma check_cooldown_err: "check_cooldown scope st = (Some e, st') \<Longrightarrow> e \<noteq> ETd te"
  by (auto simp: check_cooldown_def Let_def dest: checkCooldown_err split: prod.splits)

lemma admit_err: "admit waits cl m scope ps st = (Some e, st') \<Longrightarrow> e \<noteq> ETd te"
  by (auto simp: admit_def Let_def split: prod.splits option.splits sum.splits if_splits)

lemma resolve_err: "resolveChatUsername waits cl ps st = (Inl e, st') \<Longrightarrow> e \<noteq> ETd te"
  by (auto simp: resolveChatUsername_def Let_def dest: check_cooldown_err admit_err
      split: prod.splits option.splits sum.splits if_splits)

lemma local_dirs_err: "local_dirs root ps ds = Inl e \<Longrightarrow> e = ELocalPathDenied"
  by (induction root ps ds rule: local_dirs.induct) (auto simp: Let_def split: if_splits)

lemma Call_cases:
  assumes "Call waits dbt dir live cl m ps cc = (Inl e, cc')"
  shows "sends_only helpers (cs_td (cc_state cc)) (cs_td (cc_state cc')) \<and> (\<forall>te. e \<noteq> ETd te)
    \<or> (\<exists>ps' st3 st4. sends_only helpers (cs_td (cc_state cc)) (cs_td st3) \<and> dispatch dbt m ps' st3 = (Inl e, st4)
         \<and> cc_state cc' = note_answer cl (Scope m) (Some e) st4)"
proof (cases "\<exists>ls dirs. live = Some ls \<and> readyClient ls \<and> guardLocalPaths dir ps = Inr dirs")
  case False
  then have "cc' = cc \<and> (\<forall>te. e \<noteq> ETd te)"
    using assms by (auto simp: Call_def guardLocalPaths_def Let_def dest!: local_dirs_err split: option.splits sum.splits if_splits)
  then show ?thesis by simp
next
  case True
  then obtain ls dirs where l: "live = Some ls" "readyClient ls" "guardLocalPaths dir ps = Inr dirs" by blast
  obtain c st1 where c: "check_cooldown (Scope m) (cc_state cc) = (c, st1)" by (cases "check_cooldown (Scope m) (cc_state cc)")
  obtain r st2 where r: "resolveChatUsername waits cl ps st1 = (r, st2)" by (cases "resolveChatUsername waits cl ps st1")
  have s2: "sends_only helpers (cs_td (cc_state cc)) (cs_td st2)"
    using resolve_sends [OF r] check_cooldown_td [OF c] by simp
  show ?thesis
  proof (cases "c = None \<and> (\<exists>ps'. r = Inr ps')")
    case False
    then have "(cc_state cc' = st1 \<and> c = Some e) \<or> (cc_state cc' = st2 \<and> r = Inl e)"
      using assms by (auto simp: Call_def l c r Let_def split: option.splits sum.splits)
    moreover have "c = Some e \<Longrightarrow> e \<noteq> ETd te" "r = Inl e \<Longrightarrow> e \<noteq> ETd te" for te
      using check_cooldown_err c resolve_err r by blast+
    ultimately show ?thesis using s2 check_cooldown_td [OF c] by auto
  next
    case True
    then obtain ps' where p: "c = None" "r = Inr ps'" by blast
    obtain a st3 where a: "admit waits cl m (Scope m) ps' st2 = (a, st3)" by (cases "admit waits cl m (Scope m) ps' st2")
    have s3: "sends_only helpers (cs_td (cc_state cc)) (cs_td st3)"
      by (rule sends_only_trans [OF s2 sends_only_mono [OF admit_sends [OF a]]]) (simp add: helpers_def)
    obtain d st4 where d: "dispatch dbt m ps' st3 = (d, st4)" by (cases "dispatch dbt m ps' st3")
    have "(cc_state cc' = st3 \<and> a = Some e) \<or> (d = Inl e \<and> cc_state cc' = note_answer cl (Scope m) (Some e) st4)"
      using assms by (auto simp: Call_def l c r p a d Let_def err_of_def split: option.splits sum.splits prod.splits)
    then show ?thesis using s3 d a admit_err by blast
  qed
qed

text \<open>
  C2: a refused call does not reach Telegram. When a call ends in one of the guard's refusals - cooldown,
  spam limit, operator's limit or pace - all that was sent for it is at most the resolution of a
  username and the local look at a contact; the method itself was never sent.
\<close>

theorem refused_call_is_not_sent:
  assumes "Call waits dbt dir live cl m ps cc = (Inl e, cc')" and "as_refused e = Some re"
    and "answers_no_refusal (cs_td (cc_state cc))" and "m \<noteq> ''getUser''" and "m \<noteq> ''searchPublicChat''"
  shows "sent_count m (cs_td (cc_state cc')) = sent_count m (cs_td (cc_state cc))"
proof -
  have "sends_only helpers (cs_td (cc_state cc)) (cs_td (cc_state cc'))"
    using Call_cases [OF assms(1)]
  proof (elim disjE exE conjE)
    fix ps' st3 st4
    assume s3: "sends_only helpers (cs_td (cc_state cc)) (cs_td st3)" and d: "dispatch dbt m ps' st3 = (Inl e, st4)"
    have "answers_no_refusal (cs_td st3)" using assms(3) s3 by (simp add: answers_no_refusal_def sends_only_def)
    from dispatch_no_refusal [OF this d] show ?thesis using assms(2) by simp
  qed
  then obtain qs where "td_log (cs_td (cc_state cc')) = td_log (cs_td (cc_state cc)) @ qs"
    "\<forall>q \<in> set qs. \<exists>k \<in> helpers. obj_get q ''@type'' = Some (JStr k)"
    by (auto simp: sends_only_def)
  moreover from this(2) have "filter (\<lambda>q. obj_get q ''@type'' = Some (JStr m)) qs = []"
    using assms(4,5) by (fastforce simp: filter_empty_conv helpers_def)
  ultimately show ?thesis by (simp add: sent_count_def)
qed

definition sample_live :: liveSession where
  "sample_live = (newLiveSession ''s1'' ''user'' False)\<lparr>ls_status := ''authorized'', ls_cl := True\<rparr>"

definition sample_ctx :: call_ctx where
  "sample_ctx = \<lparr>cc_state = sample_call, cc_pending = []\<rparr>"

lemma sample_ctx_refused:
  "map_option (\<lambda>e. map_option r_reason (as_refused e))
     (err_of (fst (Call (\<lambda>_. True) (\<lambda>_. '''') ''/u'' (Some sample_live) sample_caller ''sendMessage'' RawEmpty sample_ctx)))
   = Some (Some ''limit'')"
  by code_simp

theorem refused_call_is_not_sent_witness:
  "sent_count ''sendMessage'' (cs_td (cc_state (snd
     (Call (\<lambda>_. True) (\<lambda>_. '''') ''/u'' (Some sample_live) sample_caller ''sendMessage'' RawEmpty sample_ctx)))) = 0"
proof -
  obtain e cc' where c: "Call (\<lambda>_. True) (\<lambda>_. '''') ''/u'' (Some sample_live) sample_caller ''sendMessage'' RawEmpty sample_ctx
      = (Inl e, cc')" and r: "as_refused e \<noteq> None"
    using sample_ctx_refused
    by (cases "Call (\<lambda>_. True) (\<lambda>_. '''') ''/u'' (Some sample_live) sample_caller ''sendMessage'' RawEmpty sample_ctx")
       (auto simp: err_of_def split: sum.splits)
  have "answers_no_refusal (cs_td (cc_state sample_ctx))" "sent_count ''sendMessage'' (cs_td (cc_state sample_ctx)) = 0"
    by (simp_all add: sample_ctx_def sample_call_def sample_td_def answers_no_refusal_def sent_count_def)
  then show ?thesis using refused_call_is_not_sent [OF c] r c by auto
qed

subsection \<open>Flood waits from call to call\<close>

lemma note_answer_user:
  assumes "cl_kind cl = ''user''"
  shows "cs_tick (note_answer cl scope e st) = Suc (cs_tick st)"
    and "cs_clock (note_answer cl scope e st) = cs_clock st"
    and "cs_guard (note_answer cl scope e st) = fst (observe ''user'' scope e (cs_clock st (cs_tick st)) (cs_guard st))"
  using assms by (auto simp: note_answer_def read_clock_def Let_def split: prod.splits)

lemma Call_cooling:
  assumes "guard_look (cs_guard (cc_state cc)) (Scope m) = Some (u, r)"
    and "cs_clock (cc_state cc) (cs_tick (cc_state cc)) < u"
    and "readyClient ls" and "guardLocalPaths dir ps = Inr dirs"
  shows "Call waits dbt dir (Some ls) cl m ps cc =
    (Inl (ERefused \<lparr>r_reason = ''cooldown'', r_scope = Scope m, r_until = u, r_cause = r, r_limit = None\<rparr>),
     cc\<lparr>cc_state := (cc_state cc)\<lparr>cs_tick := Suc (cs_tick (cc_state cc))\<rparr>\<rparr>)"
  using checkCooldown_refuses [OF assms(1,2)] assms(3,4)
  by (simp add: Call_def check_cooldown_def read_clock_def Let_def)

text \<open>
  C7: flood waits hold from one call to the next. When a user session's call comes back from Telegram
  with a flood wait of n seconds, any further call of the same scope made before those seconds have
  passed is refused at once, with a time no earlier than the end of the wait, and without a request,
  a username resolution or a unit of quota being spent.
\<close>

theorem flood_wait_blocks_the_next_call:
  assumes "Call waits dbt dir live cl m ps cc = (Inl (ETd te), cc')" and "cl_kind cl = ''user''"
    and "RetryAfter te = Some n" and "n \<le> 9223372036" and "Scope m' = Scope m"
    and "cs_clock (cc_state cc') (cs_tick (cc_state cc')) < cs_clock (cc_state cc') (cs_tick (cc_state cc') - 1) + n * second"
    and "readyClient ls" and "guardLocalPaths dir ps' = Inr dirs"
  shows "\<exists>u r. Call waits dbt dir (Some ls) cl m' ps' cc' =
      (Inl (ERefused \<lparr>r_reason = ''cooldown'', r_scope = Scope m, r_until = u, r_cause = r, r_limit = None\<rparr>),
       cc'\<lparr>cc_state := (cc_state cc')\<lparr>cs_tick := Suc (cs_tick (cc_state cc'))\<rparr>\<rparr>)
    \<and> cs_clock (cc_state cc') (cs_tick (cc_state cc') - 1) + n * second \<le> u"
proof -
  obtain st4 where n: "cc_state cc' = note_answer cl (Scope m) (Some (ETd te)) st4"
    using Call_cases [OF assms(1)] by auto
  note u = note_answer_user [OF assms(2), of "Scope m" "Some (ETd te)" st4]
  obtain u r where "guard_look (cs_guard (cc_state cc')) (Scope m) = Some (u, r)"
      "cs_clock (cc_state cc') (cs_tick (cc_state cc') - 1) + n * second \<le> u"
    using observe_flood_look [OF _ assms(3,4), of "ETd te" "Scope m" "cs_clock st4 (cs_tick st4)" "cs_guard st4"] n u
    by auto
  then show ?thesis using Call_cooling [of cc' m' u r ls dir ps' dirs waits dbt cl] assms(5-8) by auto
qed

text \<open>Telegram answers the session's first send with a flood wait of a minute.\<close>

definition flooded_ctx :: call_ctx where
  "flooded_ctx = \<lparr>cc_state = sample_call\<lparr>cs_cache := \<lparr>rc_rules = [], rc_at = 0\<rparr>,
     cs_td := sample_td\<lparr>td_answer := (\<lambda>log q. Inr (''error'', JObj [(''code'', JInt 429),
       (''message'', JStr ''Too Many Requests: retry after 60'')]))\<rparr>\<rparr>, cc_pending = []\<rparr>"

definition flood_error :: td_error where
  "flood_error = \<lparr>td_code = 429, td_message = ''Too Many Requests: retry after 60''\<rparr>"

definition flooded_call :: "(err + json) \<times> call_ctx" where
  "flooded_call = Call (\<lambda>_. True) (\<lambda>_. '''') ''/u'' (Some sample_live) sample_caller ''sendMessage'' RawEmpty flooded_ctx"

theorem flood_wait_blocks_the_next_call_witness:
  "\<exists>u r. fst (Call (\<lambda>_. True) (\<lambda>_. '''') ''/u'' (Some sample_live) sample_caller ''forwardMessages'' RawEmpty (snd flooded_call))
     = Inl (ERefused \<lparr>r_reason = ''cooldown'', r_scope = ''@send'', r_until = u, r_cause = r, r_limit = None\<rparr>)
     \<and> 60 * second \<le> u"
proof -
  let ?s = "cc_state (snd flooded_call)"
  have e: "fst flooded_call = Inl (ETd flood_error)" by code_simp
  have c: "Call (\<lambda>_. True) (\<lambda>_. '''') ''/u'' (Some sample_live) sample_caller ''sendMessage'' RawEmpty flooded_ctx
      = (Inl (ETd flood_error), snd flooded_call)" using e unfolding flooded_call_def by (metis prod.collapse)
  have t: "cs_clock ?s (cs_tick ?s) < cs_clock ?s (cs_tick ?s - 1) + 60 * second" "cs_clock ?s (cs_tick ?s - 1) = 0"
    by code_simp+
  have k: "cl_kind sample_caller = ''user''" "RetryAfter flood_error = Some 60" "Scope ''forwardMessages'' = Scope ''sendMessage''"
    "Scope ''sendMessage'' = ''@send''" "readyClient sample_live" "guardLocalPaths ''/u'' RawEmpty = Inr []"
    by code_simp+
  from flood_wait_blocks_the_next_call [OF c k(1,2) _ k(3) t(1) k(5,6)] t(2) k(4) show ?thesis by auto
qed

subsection \<open>No double sends\<close>

text \<open>
  C31: a call is dispatched at most twice, and a second time only when the first request came back as an
  error that says TDLib does not know the chat. In particular a request that TDLib accepted, or refused
  for any other reason such as a flood wait, is never repeated.
\<close>

theorem dispatch_repeats_only_unresolved:
  assumes "dispatch dbt m ps st = (r, st')"
    and "m \<notin> {''createPrivateChat'', ''createSupergroupChat'', ''createBasicGroupChat''}"
  shows "sent_count m (cs_td st') \<le> sent_count m (cs_td st) + 2 \<and>
    (sent_count m (cs_td st') = sent_count m (cs_td st) + 2 \<longrightarrow>
       (\<exists>e. fst (td_Call m ps (cs_td st)) = Inl e \<and> isChatUnresolved dbt (Some e)))"
proof -
  have one: "sent_count m (cs_td s') \<le> sent_count m (cs_td s) + 1" if "td_request m ps s = (x, s')" for s s' x
    using that td_Call_log [of m ps "cs_td s"] by (auto simp: td_request_def sent_count_def split: prod.splits)
  have other: "sent_count m (cs_td s') = sent_count m (cs_td s)" if "td_request k p s = (x, s')" "k \<noteq> m" for k p s s' x
    using that td_Call_count [of k p "cs_td s" _ _ m] by (auto simp: td_request_def split: prod.splits)
  have load: "k \<noteq> m" if "forceLoadChat ps = Some (k, p)" for k p
    using that assms(2) by (auto simp: forceLoadChat_def split: option.splits if_splits)
  obtain r1 st1 where r1: "td_request m ps st = (r1, st1)" by (cases "td_request m ps st")
  have f: "fst (td_Call m ps (cs_td st)) = r1" using r1 by (auto simp: td_request_def split: prod.splits)
  show ?thesis
  proof (cases "isChatUnresolved dbt (err_of r1)")
    case False
    then show ?thesis using assms(1) one [OF r1] by (auto simp: dispatch_def r1)
  next
    case True
    then obtain e where e: "r1 = Inl e" "isChatUnresolved dbt (Some e)"
      by (auto simp: err_of_def isChatUnresolved_def split: sum.splits)
    have "sent_count m (cs_td st') \<le> sent_count m (cs_td st) + 2"
    proof (cases "forceLoadChat ps")
      case None
      then show ?thesis using assms(1) one [OF r1] True by (auto simp: dispatch_def r1)
    next
      case (Some kp)
      obtain k p where kp: "kp = (k, p)" by (cases kp)
      obtain r2 st2 where r2: "td_request k (RawVal p) st1 = (r2, st2)" by (cases "td_request k (RawVal p) st1")
      have c2: "sent_count m (cs_td st2) = sent_count m (cs_td st1)" using other [OF r2] load Some kp by simp
      obtain r3 st3 where r3: "td_request m ps st2 = (r3, st3)" by (cases "td_request m ps st2")
      have "st' = st2 \<or> st' = st3" using assms(1) True Some kp r2 r3 by (auto simp: dispatch_def r1 split: sum.splits)
      then show ?thesis using one [OF r1] one [OF r3] c2 by auto
    qed
    then show ?thesis using f e by auto
  qed
qed

theorem dispatch_repeats_only_unresolved_witness:
  "sent_count ''sendMessage'' (cs_td (snd (dispatch (\<lambda>_. '''') ''sendMessage'' RawEmpty sample_call))) \<le> 2"
proof -
  have "sent_count ''sendMessage'' (cs_td sample_call) = 0" by (simp add: sample_call_def sample_td_def sent_count_def)
  then show ?thesis
    using dispatch_repeats_only_unresolved [of "\<lambda>_. ''''" "''sendMessage''" RawEmpty sample_call
        "fst (dispatch (\<lambda>_. '''') ''sendMessage'' RawEmpty sample_call)"
        "snd (dispatch (\<lambda>_. '''') ''sendMessage'' RawEmpty sample_call)"] by simp
qed

end
