(* ===== verification/Deliveries.thy ===== *)
theory Deliveries
  imports Subscriptions Workers
begin

section \<open>The delivery queue\<close>

text \<open>
  Durable update delivery: table \<open>webhook_delivery\<close> of \<^verbatim>\<open>internal/store/store.go\<close> and the dispatcher
  of \<^verbatim>\<open>internal/session/deliver.go\<close>. Posting to a receiver is a parameter: given the delivery and the
  time, the reason it failed, if it did (HTTP client, URL parser, decryption and HMAC are libraries).
  The dispatcher's goroutines post one row each at a time; a round here runs them one after the other,
  which changes no row of another subscription.
\<close>

record Delivery =
  dl_id :: ident
  dl_session :: ident
  dl_kind :: string
  dl_sub :: ident
  dl_payload :: json
  dl_attempts :: int
  dl_url :: string
  dl_secret_enc :: bytes

definition PurgeDeliveries :: "time \<Rightarrow> registry \<Rightarrow> nat \<times> registry" where
  "PurgeDeliveries before reg =
     (length (filter (\<lambda>d. d_created d < before) (deliveries reg)),
      reg\<lparr>deliveries := filter (\<lambda>d. \<not> d_created d < before) (deliveries reg)\<rparr>)"

text \<open>One row for each of the named subscriptions that still exists; the ids are Postgres's.\<close>

definition EnqueueDeliveries ::
  "(ident \<Rightarrow> ident) \<Rightarrow> time \<Rightarrow> ident \<Rightarrow> ident list \<Rightarrow> json \<Rightarrow> registry \<Rightarrow> db_err + registry" where
  "EnqueueDeliveries newid now sid subIDs payload reg =
     (if \<not> is_uuid reg sid \<or> \<not> list_all (is_uuid reg) subIDs then Inl BadUuid
      else Inr (reg\<lparr>deliveries := deliveries reg @
        map (\<lambda>x. \<lparr>d_id = newid (sub_id x), d_session = sid, d_sub = sub_id x, d_payload = payload,
                 d_status = ''pending'', d_attempts = 0, d_next_try = now, d_created = now\<rparr>)
          (filter (\<lambda>x. sub_id x \<in> set subIDs \<and> sub_session x = sid) (subs reg))\<rparr>))"

text \<open>
  A row is due when it is pending, its time has come, this worker owns its session, its receiver is
  not busy, and the token that owns the subscription still covers the session.
\<close>

definition sub_authorized :: "registry \<Rightarrow> sub_row \<Rightarrow> session_row \<Rightarrow> bool" where
  "sub_authorized reg x s \<longleftrightarrow>
     (case sub_token x of
        None \<Rightarrow> True
      | Some tok \<Rightarrow> list_ex (\<lambda>t. t_id t = tok \<and> t_enabled t \<and> grants_row reg t s) (tokens reg))"

definition sub_of :: "registry \<Rightarrow> delivery_row \<Rightarrow> sub_row option" where
  "sub_of reg d = find (\<lambda>x. sub_id x = d_sub d) (subs reg)"

definition due :: "time \<Rightarrow> ident \<Rightarrow> ident list \<Rightarrow> registry \<Rightarrow> delivery_row \<Rightarrow> bool" where
  "due now w busy reg d \<longleftrightarrow>
     d_status d = ''pending'' \<and> d_next_try d \<le> now \<and> d_sub d \<notin> set busy
     \<and> (case (sub_of reg d, session_by_id (d_session d) reg) of
          (Some x, Some s) \<Rightarrow> s_worker s = Some w \<and> sub_authorized reg x s
        | _ \<Rightarrow> False)"

text \<open>\<^verbatim>\<open>row_number() OVER (PARTITION BY subscription_id)\<close>, at most \<open>perSub\<close> of each.\<close>

fun cap_per_sub :: "nat \<Rightarrow> ident list \<Rightarrow> delivery_row list \<Rightarrow> delivery_row list" where
  "cap_per_sub n seen [] = []"
| "cap_per_sub n seen (d # ds) =
     (if length (filter (\<lambda>i. i = d_sub d) seen) < n
      then d # cap_per_sub n (d_sub d # seen) ds else cap_per_sub n (d_sub d # seen) ds)"

definition delivery_of :: "registry \<Rightarrow> delivery_row \<Rightarrow> Delivery" where
  "delivery_of reg d =
     \<lparr>dl_id = d_id d, dl_session = d_session d,
      dl_kind = (case session_by_id (d_session d) reg of None \<Rightarrow> '''' | Some s \<Rightarrow> s_kind s),
      dl_sub = d_sub d, dl_payload = d_payload d, dl_attempts = d_attempts d,
      dl_url = (case sub_of reg d of None \<Rightarrow> '''' | Some x \<Rightarrow> sub_url x),
      dl_secret_enc = (case sub_of reg d of None \<Rightarrow> '''' | Some x \<Rightarrow> sub_secret_enc x)\<rparr>"

definition claimed_rows :: "time \<Rightarrow> ident \<Rightarrow> ident list \<Rightarrow> nat \<Rightarrow> nat \<Rightarrow> registry \<Rightarrow> delivery_row list" where
  "claimed_rows now w busy perSub lim reg =
     take lim (sort_key d_next_try (cap_per_sub perSub []
       (sort_key d_next_try (sort_key d_created (filter (due now w busy reg) (deliveries reg))))))"

definition ClaimDeliveries :: "time \<Rightarrow> ident \<Rightarrow> ident list \<Rightarrow> nat \<Rightarrow> nat \<Rightarrow> registry \<Rightarrow> Delivery list" where
  "ClaimDeliveries now w busy perSub lim reg = map (delivery_of reg) (claimed_rows now w busy perSub lim reg)"

definition touch_sub :: "ident \<Rightarrow> (sub_row \<Rightarrow> sub_row) \<Rightarrow> registry \<Rightarrow> registry" where
  "touch_sub i f reg =
     reg\<lparr>subs := map (\<lambda>x. if list_ex (\<lambda>d. d_id d = i \<and> d_sub d = sub_id x) (deliveries reg) then f x else x)
                  (subs reg)\<rparr>"

definition update_delivery :: "ident \<Rightarrow> (delivery_row \<Rightarrow> delivery_row) \<Rightarrow> registry \<Rightarrow> registry" where
  "update_delivery i f reg =
     reg\<lparr>deliveries := map (\<lambda>d. if d_id d = i then f d else d) (deliveries reg)\<rparr>"

definition MarkDelivered :: "time \<Rightarrow> ident \<Rightarrow> registry \<Rightarrow> registry" where
  "MarkDelivered now i reg =
     update_delivery i (\<lambda>d. d\<lparr>d_status := ''delivered'', d_attempts := d_attempts d + 1\<rparr>)
       (touch_sub i (\<lambda>x. x\<lparr>sub_last_delivered := Some now\<rparr>) reg)"

definition FailDelivery :: "time \<Rightarrow> ident \<Rightarrow> time \<Rightarrow> bool \<Rightarrow> string \<Rightarrow> registry \<Rightarrow> registry" where
  "FailDelivery now i nextTry giveUp reason reg =
     update_delivery i
       (\<lambda>d. d\<lparr>d_attempts := d_attempts d + 1,
              d_status := (if giveUp then ''failed'' else d_status d),
              d_next_try := (if giveUp then d_next_try d else nextTry)\<rparr>)
       (touch_sub i (\<lambda>x. x\<lparr>sub_last_error := Some (reason, now)\<rparr>) reg)"

subsection \<open>The dispatcher\<close>

definition maxDeliveryAttempts :: int where "maxDeliveryAttempts = 10"
definition backoffBase :: duration where "backoffBase = 5 * second"
definition backoffCap :: duration where "backoffCap = 5 * minute"
definition maxInflightSubs :: nat where "maxInflightSubs = 16"
definition perSubBatch :: nat where "perSubBatch = 100"
definition maxErrorLen :: nat where "maxErrorLen = 500"

fun groupBySubscription :: "Delivery list \<Rightarrow> (ident \<times> Delivery list) list \<Rightarrow> (ident \<times> Delivery list) list" where
  "groupBySubscription [] gs = gs"
| "groupBySubscription (d # ds) gs =
     groupBySubscription ds
       (if list_ex (\<lambda>(i, _). i = dl_sub d) gs
        then map (\<lambda>(i, ds'). if i = dl_sub d then (i, ds' @ [d]) else (i, ds')) gs
        else gs @ [(dl_sub d, [d])])"

text \<open>
  The wait before the next try. The source computes it in floating point, where five seconds times a
  power of two is exact, and caps it.
\<close>

definition delivery_backoff :: "int \<Rightarrow> duration" where
  "delivery_backoff attempts = min backoffCap (backoffBase * 2 ^ nat attempts)"

text \<open>
  An error text is cut to \<open>maxErrorLen\<close> bytes and what the cut leaves of a rune is dropped
  (\<^verbatim>\<open>strings.ToValidUTF8\<close>, the parameter \<open>valid_utf8\<close>). Postgres takes only valid UTF-8, so a failure
  that would be recorded with any other text is not recorded at all.
\<close>

record poster =
  po_post :: "Delivery \<Rightarrow> time \<Rightarrow> string option"
  po_valid_utf8 :: "string \<Rightarrow> string"
  po_log :: "ident list"

definition post :: "Delivery \<Rightarrow> time \<Rightarrow> poster \<Rightarrow> string option \<times> poster" where
  "post d now po = (po_post po d now, po\<lparr>po_log := po_log po @ [dl_id d]\<rparr>)"

definition error_text :: "(string \<Rightarrow> string) \<Rightarrow> string \<Rightarrow> string" where
  "error_text valid reason =
     (if maxErrorLen < length reason then valid (take maxErrorLen reason) else reason)"

definition deliverOne :: "time \<Rightarrow> Delivery \<Rightarrow> poster \<times> registry \<Rightarrow> bool \<times> poster \<times> registry" where
  "deliverOne now d x =
     (case x of (po, reg) \<Rightarrow>
        (case post d now po of
           (None, po') \<Rightarrow> (True, po', if db_up reg then MarkDelivered now (dl_id d) reg else reg)
         | (Some reason, po') \<Rightarrow>
             (let giveUp = (maxDeliveryAttempts \<le> dl_attempts d + 1);
                  text = error_text (po_valid_utf8 po) reason
              in (False, po',
                  if db_up reg \<and> po_valid_utf8 po text = text
                  then FailDelivery now (dl_id d) (now + delivery_backoff (dl_attempts d)) giveUp text reg
                  else reg))))"

fun deliver_rows :: "time \<Rightarrow> Delivery list \<Rightarrow> poster \<times> registry \<Rightarrow> poster \<times> registry" where
  "deliver_rows now [] x = x"
| "deliver_rows now (d # ds) x =
     (case deliverOne now d x of (ok, x') \<Rightarrow> if ok then deliver_rows now ds x' else x')"

definition dispatch_tick :: "time \<Rightarrow> ident \<Rightarrow> ident list \<Rightarrow> poster \<times> registry \<Rightarrow> poster \<times> registry" where
  "dispatch_tick now w busy x =
     (let free = maxInflightSubs - length busy
      in if free \<le> 0 \<or> \<not> db_up (snd x) then x
         else (let batch = ClaimDeliveries now w busy perSubBatch (free * perSubBatch) (snd x);
                   order = take free (groupBySubscription batch [])
               in foldl (\<lambda>y g. deliver_rows now (snd g) y) x order))"

subsection \<open>Claims\<close>

lemma cap_per_sub_count:
  "length (filter (\<lambda>d. d_sub d = i) (cap_per_sub n seen ds)) + length (filter (\<lambda>j. j = i) seen) \<le> max n (length (filter (\<lambda>j. j = i) seen))"
proof (induction ds arbitrary: seen)
  case Nil
  then show ?case by simp
next
  case (Cons d ds)
  then show ?case using Cons [of "d_sub d # seen"] by (auto split: if_splits)
qed

lemma cap_per_sub_subset: "set (cap_per_sub n seen ds) \<subseteq> set ds"
  by (induction ds arbitrary: seen) auto

lemma cap_per_sub_distinct: "distinct (map d_id ds) \<Longrightarrow> distinct (map d_id (cap_per_sub n seen ds))"
proof (induction ds arbitrary: seen)
  case Nil
  then show ?case by simp
next
  case (Cons d ds)
  then have "d_id d \<notin> d_id ` set (cap_per_sub n s ds)" for s using cap_per_sub_subset by fastforce
  then show ?case using Cons by simp
qed

lemma claimed_rows_due: "d \<in> set (claimed_rows now w busy perSub lim reg) \<Longrightarrow> d \<in> set (deliveries reg) \<and> due now w busy reg d"
  using cap_per_sub_subset by (fastforce simp: claimed_rows_def dest: in_set_takeD)

lemma claimed_rows_distinct:
  assumes "distinct (map d_id (deliveries reg))"
  shows "distinct (map d_id (claimed_rows now w busy perSub lim reg))"
proof -
  have d: "distinct (map d_id (sort_key f xs)) = distinct (map d_id xs)" for f :: "delivery_row \<Rightarrow> int" and xs
  proof -
    have "mset (map d_id (sort_key f xs)) = mset (map d_id xs)" by simp
    then show ?thesis by (rule mset_eq_imp_distinct_iff)
  qed
  show ?thesis
    unfolding claimed_rows_def take_map [symmetric]
    by (intro distinct_take) (simp add: d cap_per_sub_distinct assms distinct_map_filter)
qed

lemma filter_take_le: "length (filter P (take n xs)) \<le> length (filter P xs)"
proof (induction xs arbitrary: n)
  case Nil
  then show ?case by simp
next
  case (Cons x xs)
  have "length (filter P (take m xs)) \<le> length (filter P xs)" for m using Cons .
  then show ?case by (cases n) (auto simp: le_SucI)
qed

lemma filter_sort_key_length: "length (filter P (sort_key f xs)) = length (filter P xs)"
proof -
  have "size (filter_mset P (mset (sort_key f xs))) = size (filter_mset P (mset xs))" by simp
  then show ?thesis by (metis mset_filter size_mset)
qed


definition sample_sub :: "ident \<Rightarrow> ident \<Rightarrow> ident option \<Rightarrow> sub_row" where
  "sample_sub i sid tok = \<lparr>sub_id = i, sub_session = sid, sub_token = tok, sub_url = ''https://example.com'',
     sub_secret_enc = '''', sub_filters = RawEmpty, sub_created = 0, sub_dropped = 0,
     sub_last_delivered = None, sub_last_error = None\<rparr>"

definition sample_delivery :: "ident \<Rightarrow> ident \<Rightarrow> ident \<Rightarrow> delivery_row" where
  "sample_delivery i sid x = \<lparr>d_id = i, d_session = sid, d_sub = x, d_payload = JObj [], d_status = ''pending'',
     d_attempts = 0, d_next_try = 0, d_created = 0\<rparr>"

definition sample_queue :: registry where
  "sample_queue = empty_registry\<lparr>
     sessions := [sample_session ''u1'' ''user'' ''authorized'' (Some ''w1'')],
     tokens := [sample_token ''t1'' False], token_sessions := [(''t1'', ''u1'')],
     subs := [sample_sub ''x1'' ''u1'' (Some ''t1''), sample_sub ''x2'' ''u1'' (Some ''t2'')],
     deliveries := [sample_delivery ''d1'' ''u1'' ''x1'', sample_delivery ''d2'' ''u1'' ''x1'', sample_delivery ''d3'' ''u1'' ''x2'']\<rparr>"


subsection \<open>Attempts\<close>

definition posts :: "poster \<Rightarrow> ident \<Rightarrow> int" where
  "posts po i = int (length (filter (\<lambda>j. j = i) (po_log po)))"

text \<open>
  Receivers answer as they like, but what they answer can be recorded: an error text that is no valid
  UTF-8 even after the cut would be lost with its attempt (see \<open>unrecorded_failure\<close> below).
\<close>

definition recordable :: "poster \<Rightarrow> bool" where
  "recordable po \<longleftrightarrow> (\<forall>d t r. po_post po d t = Some r \<longrightarrow>
     po_valid_utf8 po (error_text (po_valid_utf8 po) r) = error_text (po_valid_utf8 po) r)"

definition row_ok :: "poster \<Rightarrow> delivery_row \<Rightarrow> bool" where
  "row_ok po d \<longleftrightarrow> posts po (d_id d) \<le> d_attempts d \<and> 0 \<le> d_attempts d \<and> d_attempts d \<le> maxDeliveryAttempts
     \<and> (d_status d = ''pending'' \<longrightarrow> d_attempts d < maxDeliveryAttempts)"

definition queue_ok :: "poster \<times> registry \<Rightarrow> bool" where
  "queue_ok x \<longleftrightarrow> recordable (fst x) \<and> distinct (map d_id (deliveries (snd x)))
     \<and> (\<forall>i. posts (fst x) i \<le> maxDeliveryAttempts) \<and> (\<forall>d \<in> set (deliveries (snd x)). row_ok (fst x) d)"

text \<open>A claimed delivery whose row is as it was when it was claimed.\<close>

definition current :: "registry \<Rightarrow> Delivery \<Rightarrow> bool" where
  "current reg d \<longleftrightarrow> (\<exists>r \<in> set (deliveries reg). d_id r = dl_id d \<and> d_attempts r = dl_attempts d \<and> d_status r = ''pending'')"

lemma posts_post: "posts (po\<lparr>po_log := po_log po @ [i]\<rparr>) j = posts po j + (if i = j then 1 else 0)"
  by (simp add: posts_def)

lemma touch_sub_deliveries [simp]: "deliveries (touch_sub i f reg) = deliveries reg"
  by (simp add: touch_sub_def)

lemma update_delivery_deliveries [simp]:
  "deliveries (update_delivery i f reg) = map (\<lambda>d. if d_id d = i then f d else d) (deliveries reg)"
  by (simp add: update_delivery_def)

lemma deliverOne_rows:
  assumes "recordable po" and "db_up reg" and "deliverOne now d (po, reg) = (b, po', reg')"
  shows "po' = po\<lparr>po_log := po_log po @ [dl_id d]\<rparr> \<and> db_up reg'
    \<and> (\<exists>st nxt. (b \<longrightarrow> st = Some ''delivered'') \<and> (maxDeliveryAttempts \<le> dl_attempts d + 1 \<longrightarrow> st \<noteq> None)
        \<and> st \<in> {None, Some ''delivered'', Some ''failed''}
        \<and> (st = None \<longrightarrow> nxt = Some (now + delivery_backoff (dl_attempts d)))
        \<and> deliveries reg' = map (\<lambda>r. if d_id r = dl_id d
            then r\<lparr>d_attempts := d_attempts r + 1, d_status := (case st of None \<Rightarrow> d_status r | Some s \<Rightarrow> s),
                   d_next_try := (case nxt of None \<Rightarrow> d_next_try r | Some t \<Rightarrow> t)\<rparr>
            else r) (deliveries reg))"
proof (cases "po_post po d now")
  case None
  then have b: "b" "po' = po\<lparr>po_log := po_log po @ [dl_id d]\<rparr>" "reg' = MarkDelivered now (dl_id d) reg"
    using assms(2,3) by (auto simp: deliverOne_def post_def)
  then show ?thesis using assms(2)
    by (intro conjI exI [of _ "Some ''delivered''"] exI [of _ None])
       (auto simp: MarkDelivered_def update_delivery_def touch_sub_def)
next
  case (Some r)
  let ?g = "maxDeliveryAttempts \<le> dl_attempts d + 1"
  have b: "\<not> b" "po' = po\<lparr>po_log := po_log po @ [dl_id d]\<rparr>"
    "reg' = FailDelivery now (dl_id d) (now + delivery_backoff (dl_attempts d)) ?g (error_text (po_valid_utf8 po) r) reg"
    using assms Some by (auto simp: deliverOne_def post_def recordable_def Let_def)
  then show ?thesis using assms(2)
    by (intro conjI exI [of _ "if ?g then Some ''failed'' else None"]
          exI [of _ "if ?g then None else Some (now + delivery_backoff (dl_attempts d))"])
       (auto simp: FailDelivery_def update_delivery_def touch_sub_def)
qed

lemma deliverOne_ok:
  assumes "queue_ok (po, reg)" and "db_up reg" and "current reg d" and "deliverOne now d (po, reg) = (b, po', reg')"
  shows "queue_ok (po', reg') \<and> db_up reg' \<and> (\<forall>e. dl_id e \<noteq> dl_id d \<longrightarrow> current reg e \<longrightarrow> current reg' e)"
proof -
  have rec: "recordable po" using assms(1) by (simp add: queue_ok_def)
  obtain st nxt where po: "po' = po\<lparr>po_log := po_log po @ [dl_id d]\<rparr>" and up: "db_up reg'"
    and st: "maxDeliveryAttempts \<le> dl_attempts d + 1 \<longrightarrow> st \<noteq> None" "st \<in> {None, Some ''delivered'', Some ''failed''}"
    and rows: "deliveries reg' = map (\<lambda>r. if d_id r = dl_id d
            then r\<lparr>d_attempts := d_attempts r + 1, d_status := (case st of None \<Rightarrow> d_status r | Some s \<Rightarrow> s),
                   d_next_try := (case nxt of None \<Rightarrow> d_next_try r | Some t \<Rightarrow> t)\<rparr>
            else r) (deliveries reg)"
    using deliverOne_rows [OF rec assms(2,4)] by blast
  obtain r where r: "r \<in> set (deliveries reg)" "d_id r = dl_id d" "d_attempts r = dl_attempts d" "d_status r = ''pending''"
    using assms(3) by (auto simp: current_def)
  have dist: "distinct (map d_id (deliveries reg))" using assms(1) by (simp add: queue_ok_def)
  have uniq: "x = r" if "x \<in> set (deliveries reg)" "d_id x = dl_id d" for x
    using that r dist by (metis distinct_map inj_onD)
  have rok: "row_ok po r" using assms(1) r(1) by (simp add: queue_ok_def)
  have "map d_id (deliveries reg') = map d_id (deliveries reg)" by (simp add: rows comp_def if_distrib cong: if_cong)
  then have d': "distinct (map d_id (deliveries reg'))" using dist by simp
  have p': "posts po' i \<le> maxDeliveryAttempts" for i
  proof (cases "i = dl_id d")
    case True
    then show ?thesis using rok r by (simp add: po posts_post row_ok_def)
  next
    case False
    then show ?thesis using assms(1) by (simp add: po posts_post queue_ok_def)
  qed
  have "row_ok po' x" if x: "x \<in> set (deliveries reg')" for x
  proof (cases "d_id x = dl_id d")
    case True
    then obtain y where y: "y \<in> set (deliveries reg)" "d_id y = dl_id d"
        "x = y\<lparr>d_attempts := d_attempts y + 1, d_status := (case st of None \<Rightarrow> d_status y | Some s \<Rightarrow> s),
                   d_next_try := (case nxt of None \<Rightarrow> d_next_try y | Some t \<Rightarrow> t)\<rparr>"
      using x unfolding rows set_map by (fastforce split: if_splits)
    have "y = r" using uniq y by simp
    then show ?thesis using rok r st y(3) by (auto simp: po posts_post row_ok_def)
  next
    case False
    then have "x \<in> set (deliveries reg)" using x unfolding rows set_map by (fastforce split: if_splits)
    then have "row_ok po x" using assms(1) by (simp add: queue_ok_def)
    then show ?thesis using False by (simp add: po posts_post row_ok_def)
  qed
  moreover have "current reg' e" if "dl_id e \<noteq> dl_id d" "current reg e" for e
    using that unfolding current_def rows set_map by force
  ultimately show ?thesis using d' p' up rec by (auto simp: queue_ok_def po recordable_def)
qed

lemma deliver_rows_ok:
  assumes "queue_ok (po, reg)" and "db_up reg" and "distinct (map dl_id (ds @ es))" and "\<forall>d \<in> set (ds @ es). current reg d"
    and "deliver_rows now ds (po, reg) = (po', reg')"
  shows "queue_ok (po', reg') \<and> db_up reg' \<and> (\<forall>d \<in> set es. current reg' d)"
  using assms
proof (induction ds arbitrary: po reg)
  case Nil
  then show ?case by simp
next
  case (Cons d ds)
  obtain b po1 reg1 where one: "deliverOne now d (po, reg) = (b, po1, reg1)" by (cases "deliverOne now d (po, reg)") auto
  have c: "current reg d" using Cons.prems(4) by simp
  note ok = deliverOne_ok [OF Cons.prems(1,2) c one]
  have cur: "\<forall>e \<in> set (ds @ es). current reg1 e"
  proof
    fix e
    assume e: "e \<in> set (ds @ es)"
    then have "dl_id e \<in> dl_id ` set (ds @ es)" by (rule imageI)
    then have "dl_id e \<noteq> dl_id d" using Cons.prems(3) by auto
    then show "current reg1 e" using ok e Cons.prems(4) by auto
  qed
  show ?case
  proof (cases b)
    case True
    then have "deliver_rows now ds (po1, reg1) = (po', reg')" using Cons.prems(5) one by simp
    then show ?thesis using Cons.IH [of po1 reg1] ok cur Cons.prems(3) by simp
  next
    case False
    then have "(po1, reg1) = (po', reg')" using Cons.prems(5) one by simp
    then show ?thesis using ok cur by simp
  qed
qed

lemma deliver_groups_ok:
  assumes "queue_ok x" and "db_up (snd x)" and "distinct (map dl_id (concat (map snd gs)))"
    and "\<forall>d \<in> set (concat (map snd gs)). current (snd x) d"
  shows "queue_ok (foldl (\<lambda>y g. deliver_rows now (snd g) y) x gs)"
  using assms
proof (induction gs arbitrary: x)
  case Nil
  then show ?case by simp
next
  case (Cons g gs)
  obtain po reg po' reg' where x: "x = (po, reg)" "deliver_rows now (snd g) (po, reg) = (po', reg')"
    by (cases x; cases "deliver_rows now (snd g) x") auto
  have "queue_ok (po', reg') \<and> db_up reg' \<and> (\<forall>d \<in> set (concat (map snd gs)). current reg' d)"
    using Cons.prems by (intro deliver_rows_ok [of po reg "snd g" _ now]) (simp_all add: x)
  then show ?case using Cons.IH [of "(po', reg')"] Cons.prems(3) by (simp add: x)
qed

lemma group_mset:
  "mset (concat (map snd (groupBySubscription ds gs))) = mset ds + mset (concat (map snd gs))"
  if "distinct (map fst gs)"
  using that
proof (induction ds arbitrary: gs)
  case Nil
  then show ?case by simp
next
  case (Cons d ds)
  show ?case
  proof (cases "list_ex (\<lambda>(i, _). i = dl_sub d) gs")
    case True
    let ?f = "\<lambda>(i, ds'). if i = dl_sub d then (i, ds' @ [d]) else (i, ds')"
    have f: "distinct (map fst (map ?f gs))"
    proof -
      have "map fst (map ?f gs) = map fst gs" by (auto simp: comp_def)
      then show ?thesis using Cons.prems by argo
    qed
    have "mset (concat (map snd (map ?f gs))) = add_mset d (mset (concat (map snd gs)))"
      using True Cons.prems
    proof (induction gs)
      case Nil
      then show ?case by simp
    next
      case (Cons g gs)
      show ?case
      proof (cases "fst g = dl_sub d")
        case True
        then have "map ?f gs = gs" using Cons.prems(2) by (intro map_idI) (auto simp: image_iff)
        then show ?thesis using True by (cases g) simp
      next
        case False
        then show ?thesis using Cons by (cases g) (simp add: comp_def)
      qed
    qed
    then show ?thesis using Cons.IH [OF f] True by simp
  next
    case False
    then have "dl_sub d \<notin> fst ` set gs" by (auto simp: list_ex_iff)
    then show ?thesis using Cons.IH [of "gs @ [(dl_sub d, [d])]"] Cons.prems False by simp
  qed
qed

lemma take_groups_distinct:
  assumes "distinct (map dl_id batch)"
  shows "distinct (map dl_id (concat (map snd (take n (groupBySubscription batch [])))))
    \<and> set (concat (map snd (take n (groupBySubscription batch [])))) \<subseteq> set batch"
proof -
  let ?gs = "groupBySubscription batch []"
  have m: "mset (concat (map snd ?gs)) = mset batch" using group_mset [of "[]" batch] by simp
  have s: "concat (map snd ?gs) = concat (map snd (take n ?gs)) @ concat (map snd (drop n ?gs))"
    by (metis append_take_drop_id concat_append map_append)
  have "mset (map dl_id (concat (map snd ?gs))) = mset (map dl_id batch)" by (simp only: mset_map m)
  then have "distinct (map dl_id (concat (map snd ?gs)))" using assms mset_eq_imp_distinct_iff by blast
  then have "distinct (map dl_id (concat (map snd (take n ?gs))))" unfolding s by simp
  moreover have "set (concat (map snd ?gs)) = set batch" using m by (metis set_mset_mset)
  ultimately show ?thesis using s by (metis Un_upper1 set_append)
qed

lemma claim_current:
  "d \<in> set (ClaimDeliveries now w busy perSub lim reg) \<Longrightarrow> current reg d"
  unfolding ClaimDeliveries_def current_def
  by (auto simp: delivery_of_def due_def dest!: claimed_rows_due)

lemma dispatch_tick_ok: "queue_ok x \<Longrightarrow> queue_ok (dispatch_tick now w busy x)"
proof -
  assume ok: "queue_ok x"
  let ?free = "maxInflightSubs - length busy"
  let ?batch = "ClaimDeliveries now w busy perSubBatch (?free * perSubBatch) (snd x)"
  have "map dl_id ?batch = map d_id (claimed_rows now w busy perSubBatch (?free * perSubBatch) (snd x))"
    by (simp add: ClaimDeliveries_def delivery_of_def comp_def)
  then have "distinct (map dl_id ?batch)" using ok claimed_rows_distinct by (simp add: queue_ok_def)
  note g = take_groups_distinct [OF this, of ?free]
  show ?thesis
  proof (cases "?free \<le> 0 \<or> \<not> db_up (snd x)")
    case True
    then show ?thesis using ok by (auto simp: dispatch_tick_def Let_def)
  next
    case False
    have "queue_ok (foldl (\<lambda>y g. deliver_rows now (snd g) y) x (take ?free (groupBySubscription ?batch [])))"
      using ok False g claim_current by (intro deliver_groups_ok) blast+
    then show ?thesis using False by (simp add: dispatch_tick_def Let_def)
  qed
qed

text \<open>
  The queue over time: updates are queued (under ids Postgres has never made before), the dispatcher
  runs, old rows are purged, and everything else, cascades of removed subscriptions and sessions
  included, only removes rows.
\<close>

inductive queue_step :: "poster \<times> registry \<Rightarrow> poster \<times> registry \<Rightarrow> bool" where
  enqueue: "EnqueueDeliveries newid now sid ids payload reg = Inr reg' \<Longrightarrow>
     distinct (map newid (map sub_id (subs reg))) \<Longrightarrow>
     \<forall>x \<in> set (subs reg). newid (sub_id x) \<notin> set (po_log po) \<union> d_id ` set (deliveries reg) \<Longrightarrow>
     queue_step (po, reg) (po, reg')"
| tick: "queue_step x (dispatch_tick now w busy x)"
| purge: "queue_step (po, reg) (po, snd (PurgeDeliveries before reg))"
| other: "deliveries reg' = filter P (deliveries reg) \<Longrightarrow> queue_step (po, reg) (po, reg')"

inductive queue_reach :: "poster \<times> registry \<Rightarrow> poster \<times> registry \<Rightarrow> bool" for x0 where
  start: "queue_reach x0 x0"
| step: "queue_reach x0 x \<Longrightarrow> queue_step x y \<Longrightarrow> queue_reach x0 y"

inductive_cases queue_stepE: "queue_step x y"

lemma queue_ok_filter:
  assumes "queue_ok (po, reg)" and "deliveries reg' = filter P (deliveries reg)"
  shows "queue_ok (po, reg')"
  using assms by (auto simp: queue_ok_def distinct_map_filter)

lemma queue_ok_enqueue:
  assumes "queue_ok (po, reg)" and "EnqueueDeliveries newid now sid ids payload reg = Inr reg'"
    and "distinct (map newid (map sub_id (subs reg)))"
    and "\<forall>x \<in> set (subs reg). newid (sub_id x) \<notin> set (po_log po) \<union> d_id ` set (deliveries reg)"
  shows "queue_ok (po, reg')"
proof -
  let ?xs = "filter (\<lambda>x. sub_id x \<in> set ids \<and> sub_session x = sid) (subs reg)"
  let ?row = "\<lambda>x. \<lparr>d_id = newid (sub_id x), d_session = sid, d_sub = sub_id x, d_payload = payload,
                 d_status = ''pending'', d_attempts = 0, d_next_try = now, d_created = now\<rparr>"
  have r: "deliveries reg' = deliveries reg @ map ?row ?xs"
    using assms(2) by (auto simp: EnqueueDeliveries_def split: if_splits)
  have fresh: "posts po (newid (sub_id x)) = 0" if "x \<in> set ?xs" for x
  proof -
    have "newid (sub_id x) \<notin> set (po_log po)" using assms(4) that by simp
    then have "filter (\<lambda>j. j = newid (sub_id x)) (po_log po) = []" by (auto simp: filter_empty_conv)
    then show ?thesis by (simp add: posts_def)
  qed
  have "distinct (map (\<lambda>x. newid (sub_id x)) (subs reg))" using assms(3) by (simp add: comp_def)
  then have "distinct (map (\<lambda>x. newid (sub_id x)) ?xs)" by (rule distinct_map_filter)
  moreover have "d_id ` set (deliveries reg) \<inter> (\<lambda>x. newid (sub_id x)) ` set ?xs = {}"
  proof (rule equals0I, elim IntE imageE)
    fix i d x
    assume "i = newid (sub_id x)" "x \<in> set ?xs" "i = d_id d" "d \<in> set (deliveries reg)"
    moreover have "newid (sub_id x) \<notin> d_id ` set (deliveries reg)" using assms(4) calculation(2) by simp
    ultimately show False by (metis imageI)
  qed
  ultimately have "distinct (map d_id (deliveries reg'))"
    using assms(1) by (simp add: r queue_ok_def comp_def)
  moreover have "row_ok po d" if "d \<in> set (deliveries reg')" for d
    using that assms(1) fresh by (auto simp: r queue_ok_def row_ok_def maxDeliveryAttempts_def)
  ultimately show ?thesis using assms(1) by (simp add: queue_ok_def)
qed

lemma queue_step_ok: "queue_step x y \<Longrightarrow> queue_ok x \<Longrightarrow> queue_ok y"
proof (induction rule: queue_step.induct)
  case (enqueue newid now sid ids payload reg reg' po)
  then show ?case using queue_ok_enqueue by blast
next
  case (tick x now w busy)
  then show ?case by (rule dispatch_tick_ok)
next
  case (purge po reg before)
  then show ?case by (simp add: PurgeDeliveries_def queue_ok_def distinct_map_filter)
next
  case (other reg' P reg po)
  then show ?case using queue_ok_filter by blast
qed

lemma queue_reach_ok: "queue_reach x y \<Longrightarrow> queue_ok x \<Longrightarrow> queue_ok y"
  by (induction rule: queue_reach.induct) (auto intro: queue_step_ok)


definition down :: poster where
  "down = \<lparr>po_post = (\<lambda>_ _. Some ''status 503''), po_valid_utf8 = (\<lambda>s. s), po_log = []\<rparr>"

definition sample_receiver :: registry where
  "sample_receiver = empty_registry\<lparr>
     sessions := [sample_session ''u1'' ''user'' ''authorized'' (Some ''w1'')],
     subs := [sample_sub ''x1'' ''u1'' None]\<rparr>"

definition one_queued :: registry where
  "one_queued = sample_receiver\<lparr>deliveries := [sample_delivery ''d1'' ''u1'' ''x1'']\<rparr>"

lemma one_queued_reach: "queue_reach (down, sample_receiver) (down, one_queued)"
proof (rule queue_reach.step [OF queue_reach.start queue_step.enqueue])
  show "EnqueueDeliveries (\<lambda>_. ''d1'') 0 ''u1'' [''x1''] (JObj []) sample_receiver = Inr one_queued"
    by (simp add: EnqueueDeliveries_def sample_receiver_def one_queued_def empty_registry_def sample_sub_def
        sample_delivery_def)
qed (simp_all add: sample_receiver_def down_def empty_registry_def)


subsection \<open>The retry schedule\<close>

text \<open>One row, tried whenever it is due, for as long as it is pending; at most \<open>n\<close> times.\<close>

definition pending_row :: "ident \<Rightarrow> registry \<Rightarrow> delivery_row option" where
  "pending_row i reg = find (\<lambda>d. d_id d = i \<and> d_status d = ''pending'') (deliveries reg)"

primrec tries :: "nat \<Rightarrow> time \<Rightarrow> ident \<Rightarrow> poster \<times> registry \<Rightarrow> time \<times> poster \<times> registry" where
  "tries 0 t i x = (t, x)"
| "tries (Suc n) t i x =
     (case pending_row i (snd x) of
        None \<Rightarrow> (t, x)
      | Some r \<Rightarrow>
          (case deliverOne t (delivery_of (snd x) r) x of
             (_, y) \<Rightarrow> tries n (case pending_row i (snd y) of None \<Rightarrow> t | Some r' \<Rightarrow> d_next_try r') i y))"

primrec span :: "nat \<Rightarrow> duration" where
  "span 0 = 0"
| "span (Suc n) = (if n = 0 then 0 else delivery_backoff (9 - int n) + span n)"

lemma pending_row_SomeD: "pending_row i reg = Some r \<Longrightarrow> r \<in> set (deliveries reg) \<and> d_id r = i \<and> d_status r = ''pending''"
  by (auto simp: pending_row_def find_Some_iff)

lemma delivery_backoff_nonneg: "0 \<le> delivery_backoff a"
  by (simp add: delivery_backoff_def backoffCap_def backoffBase_def duration_defs)

lemma tries_step:
  assumes "queue_ok (po, reg)" and "db_up reg" and "pending_row i reg = Some r"
    and "deliverOne t (delivery_of reg r) (po, reg) = (b, po', reg')"
  shows "queue_ok (po', reg') \<and> db_up reg'"
    and "pending_row i reg' = None \<or>
      (d_attempts r + 1 < maxDeliveryAttempts \<and>
       (\<exists>r'. pending_row i reg' = Some r' \<and> d_attempts r' = d_attempts r + 1
          \<and> d_next_try r' = t + delivery_backoff (d_attempts r)))"
proof -
  note r = pending_row_SomeD [OF assms(3)]
  have c: "current reg (delivery_of reg r)" using r by (auto simp: current_def delivery_of_def)
  show "queue_ok (po', reg') \<and> db_up reg'" using deliverOne_ok [OF assms(1,2) c assms(4)] by blast
  have rec: "recordable po" using assms(1) by (simp add: queue_ok_def)
  obtain st nxt where st: "maxDeliveryAttempts \<le> d_attempts r + 1 \<longrightarrow> st \<noteq> None"
      "st \<in> {None, Some ''delivered'', Some ''failed''}" "st = None \<longrightarrow> nxt = Some (t + delivery_backoff (d_attempts r))"
    and rows: "deliveries reg' = map (\<lambda>x. if d_id x = d_id r
            then x\<lparr>d_attempts := d_attempts x + 1, d_status := (case st of None \<Rightarrow> d_status x | Some s \<Rightarrow> s),
                   d_next_try := (case nxt of None \<Rightarrow> d_next_try x | Some u \<Rightarrow> u)\<rparr>
            else x) (deliveries reg)"
    using deliverOne_rows [OF rec assms(2,4)] by (auto simp: delivery_of_def)
  have dist: "distinct (map d_id (deliveries reg))" using assms(1) by (simp add: queue_ok_def)
  have uniq: "x = r" if "x \<in> set (deliveries reg)" "d_id x = i" for x
    using that r dist by (metis distinct_map inj_onD)
  show "pending_row i reg' = None \<or>
      (d_attempts r + 1 < maxDeliveryAttempts \<and>
       (\<exists>r'. pending_row i reg' = Some r' \<and> d_attempts r' = d_attempts r + 1
          \<and> d_next_try r' = t + delivery_backoff (d_attempts r)))"
  proof (cases "pending_row i reg'")
    case (Some r')
    note r' = pending_row_SomeD [OF Some]
    then obtain y where y: "y \<in> set (deliveries reg)"
      "r' = (if d_id y = d_id r
            then y\<lparr>d_attempts := d_attempts y + 1, d_status := (case st of None \<Rightarrow> d_status y | Some s \<Rightarrow> s),
                   d_next_try := (case nxt of None \<Rightarrow> d_next_try y | Some u \<Rightarrow> u)\<rparr>
            else y)"
      unfolding rows set_map by blast
    have "d_id y = i" using y(2) r r' by (auto split: if_splits)
    then have "y = r" using uniq y(1) by blast
    then have "st = None" using y(2) r r' st(2) by auto
    then show ?thesis using Some st \<open>y = r\<close> y(2) by simp
  qed simp
qed

lemma tries_end:
  assumes "queue_ok (po, reg)" and "db_up reg" and "pending_row i reg = Some r" and "d_attempts r + int n = 10"
  shows "pending_row i (snd (snd (tries n t i (po, reg)))) = None \<and> fst (tries n t i (po, reg)) \<le> t + span n"
  using assms
proof (induction n arbitrary: po reg r t)
  case 0
  then show ?case
    using pending_row_SomeD [OF "0.prems"(3)] by (auto simp: queue_ok_def row_ok_def maxDeliveryAttempts_def)
next
  case (Suc n)
  obtain b po' reg' where one: "deliverOne t (delivery_of reg r) (po, reg) = (b, po', reg')"
    by (cases "deliverOne t (delivery_of reg r) (po, reg)") auto
  note s = tries_step [OF Suc.prems(1-3) one]
  show ?case
  proof (cases "pending_row i reg'")
    case None
    have "0 \<le> span m" for m by (induction m) (simp_all add: delivery_backoff_nonneg)
    moreover have "tries n t i (po', reg') = (t, po', reg')" using None by (cases n) simp_all
    ultimately show ?thesis using None Suc.prems(3) one by (simp del: span.simps)
  next
    case (Some r')
    then have a: "d_attempts r + 1 < 10" "d_attempts r' = d_attempts r + 1" "d_next_try r' = t + delivery_backoff (d_attempts r)"
      using s(2) by (auto simp: maxDeliveryAttempts_def)
    have "d_attempts r' + int n = 10" "n \<noteq> 0" using a Suc.prems(4) by auto
    moreover have "d_attempts r = 9 - int n" using Suc.prems(4) by simp
    ultimately show ?thesis
      using Suc.IH [of po' reg' r' "d_next_try r'"] s(1) Some a(3) Suc.prems(3) one by simp
  qed
qed

lemma span_10: "span 10 = 1215 * second"
  by (simp add: eval_nat_numeral delivery_backoff_def backoffCap_def backoffBase_def duration_defs)



subsection \<open>A failure that is never recorded\<close>

text \<open>
  Only an error text longer than \<open>maxErrorLen\<close> passes through \<^verbatim>\<open>ToValidUTF8\<close>. A shorter one that is no valid
  UTF-8 (a host given as percent-encoded bytes comes back raw in the error of the name lookup) is refused
  by Postgres: the attempt is not counted and the row stays due, to be posted again at every tick.
\<close>

lemma unrecorded_failure:
  assumes "po_post po d now = Some reason" and "length reason \<le> maxErrorLen" and "po_valid_utf8 po reason \<noteq> reason"
  shows "snd (snd (deliverOne now d (po, reg))) = reg"
  using assms by (simp add: deliverOne_def post_def error_text_def Let_def)

end
