(* ===== verification/Receiver.thy ===== *)
theory Receiver
  imports Calls Deliveries
begin

section \<open>A worker: what it holds, and its updates on their way to the queue\<close>

text \<open>
  The state of \<^verbatim>\<open>session.Manager\<close> (\<^verbatim>\<open>internal/session/manager.go\<close>) and the way of an update through it: the
  receiver callback of \<^verbatim>\<open>updateHandler\<close>, the outbox writer of \<^verbatim>\<open>deliver.go\<close>, the subscription sync of
  \<^verbatim>\<open>subs.go\<close>. A Go map is the list of its entries, in the order in which an iteration happens to meet
  them. The registry and the uploads volume are shared with other processes and are separate arguments.
\<close>

record live_entry =
  le_ls :: liveSession
  le_guard :: guard
  le_subs :: "subSnapshot option"
  le_dropped :: int
  le_td :: td_env

record outItem =
  oi_session :: ident
  oi_ctor :: string
  oi_payload :: json
  oi_subs :: "subSnapshot option"

record worker =
  wk_id :: ident
  wk_addr :: string
  wk_dataDir :: string
  wk_capacity :: int
  wk_live :: "(ident \<times> live_entry) list"
  wk_retry :: "(ident \<times> time) list"
  wk_outbox :: "outItem list"
  wk_sends :: "sendOutcome list"
  wk_pending :: "(int \<times> string list) list"
  wk_stopping :: bool
  wk_jobs :: "(ident \<times> job) list"

definition outboxQueue :: nat where "outboxQueue = 1024"

text \<open>The live map.\<close>

definition get :: "worker \<Rightarrow> ident \<Rightarrow> live_entry option" where
  "get wk sid = map_of (wk_live wk) sid"

definition put :: "live_entry \<Rightarrow> worker \<Rightarrow> worker" where
  "put le wk = wk\<lparr>wk_live := AList.update (ls_id (le_ls le)) le (wk_live wk)\<rparr>"

definition delete :: "ident \<Rightarrow> worker \<Rightarrow> worker" where
  "delete sid wk = wk\<lparr>wk_live := filter (\<lambda>(k, _). k \<noteq> sid) (wk_live wk)\<rparr>"

definition update_live :: "ident \<Rightarrow> (live_entry \<Rightarrow> live_entry) \<Rightarrow> worker \<Rightarrow> worker" where
  "update_live sid f wk = wk\<lparr>wk_live := map (\<lambda>(k, le). (k, if k = sid then f le else le)) (wk_live wk)\<rparr>"

definition liveSessions :: "worker \<Rightarrow> ident list" where
  "liveSessions wk = map fst (wk_live wk)"

definition new_entry :: "ident \<Rightarrow> string \<Rightarrow> bool \<Rightarrow> td_env \<Rightarrow> live_entry" where
  "new_entry sid kind interactive td =
     \<lparr>le_ls = newLiveSession sid kind interactive, le_guard = new_guard, le_subs = None, le_dropped = 0, le_td = td\<rparr>"

subsection \<open>The receiver\<close>

text \<open>
  An object of go-tdlib's update stream: whether it is an update at all, its constructor, its JSON
  (\<open>None\<close> when it cannot be marshalled) and what the code looks at in its typed form.
\<close>

datatype update_detail =
    SendFailed "td_error option"
  | FreezeState bool int int string
  | OptionUpdate string option_value
  | WaitCodeUpdate "json option"
  | OtherUpdate

record td_update =
  up_is_update :: bool
  up_ctor :: string
  up_json :: "json option"
  up_detail :: update_detail

definition note_detail :: "time \<Rightarrow> update_detail \<Rightarrow> live_entry \<Rightarrow> live_entry \<times> job list" where
  "note_detail now d le =
     (case d of
        SendFailed e \<Rightarrow>
          (case observeSendFailed (ls_kind (le_ls le)) e now (le_guard le) of (g, js) \<Rightarrow> (le\<lparr>le_guard := g\<rparr>, js))
      | FreezeState frozen since del appeal \<Rightarrow>
          (case noteFreeze frozen since del appeal (le_guard le) of (g, js) \<Rightarrow> (le\<lparr>le_guard := g\<rparr>, js))
      | OptionUpdate name v \<Rightarrow>
          if name = ''is_premium''
          then (case notePremium v (le_guard le) of (g, js) \<Rightarrow> (le\<lparr>le_guard := g\<rparr>, js))
          else if name = ''my_id'' then (le\<lparr>le_guard := noteMyID v (le_guard le)\<rparr>, [])
          else (le, [])
      | WaitCodeUpdate info \<Rightarrow> (le\<lparr>le_ls := setCodeInfo info (le_ls le)\<rparr>, [])
      | OtherUpdate \<Rightarrow> (le, []))"

definition send_done :: "io_env \<Rightarrow> ident \<Rightarrow> td_update \<Rightarrow> worker \<times> volume \<Rightarrow> worker \<times> volume" where
  "send_done io sid u x =
     (case x of (wk, v) \<Rightarrow>
        if up_ctor u \<in> {''updateMessageSendSucceeded'', ''updateMessageSendFailed''}
        then (case up_json u of
                None \<Rightarrow> (wk, v)
              | Some j \<Rightarrow>
                  (case finishUpload io j (wk_pending wk) v of
                     (pend, v') \<Rightarrow> (wk\<lparr>wk_pending := pend, wk_sends := noteSendOutcome sid j (wk_sends wk)\<rparr>, v')))
        else (wk, v))"

text \<open>
  The callback works on the live session it was made for, in the live map or not; \<open>receive\<close> is the
  callback of a session that is.
\<close>

definition updateHandler ::
  "io_env \<Rightarrow> time \<Rightarrow> td_update \<Rightarrow> live_entry \<times> worker \<times> volume \<Rightarrow> live_entry \<times> worker \<times> volume" where
  "updateHandler io now u x =
     (if \<not> up_is_update u then x
      else (case x of (le, wk, v) \<Rightarrow>
        (let sid = ls_id (le_ls le);
             (wk1, v1) = send_done io sid u (wk, v);
             (le1, js) = note_detail now (up_detail u) le;
             wk2 = wk1\<lparr>wk_jobs := wk_jobs wk1 @ map (Pair sid) js\<rparr>
         in if \<not> wants (le_subs le1) (up_ctor u) then (le1, wk2, v1)
            else (case up_json u of
                    None \<Rightarrow> (le1, wk2, v1)
                  | Some j \<Rightarrow>
                      if length (wk_outbox wk2) < outboxQueue
                      then (le1, wk2\<lparr>wk_outbox := wk_outbox wk2 @
                              [\<lparr>oi_session = sid, oi_ctor = up_ctor u, oi_payload = j, oi_subs = le_subs le1\<rparr>]\<rparr>, v1)
                      else (le1\<lparr>le_dropped := le_dropped le1 + 1\<rparr>, wk2, v1)))))"

definition receive :: "io_env \<Rightarrow> time \<Rightarrow> ident \<Rightarrow> td_update \<Rightarrow> worker \<times> volume \<Rightarrow> worker \<times> volume" where
  "receive io now sid u x =
     (case x of (wk, v) \<Rightarrow>
        (case get wk sid of
           None \<Rightarrow> (wk, v)
         | Some le \<Rightarrow>
             (case updateHandler io now u (le, wk, v) of
                (le', wk', v') \<Rightarrow> (update_live sid (\<lambda>_. le') wk', v'))))"

subsection \<open>The outbox writer\<close>

definition outbox_enqueue :: "(ident \<Rightarrow> ident) \<Rightarrow> time \<Rightarrow> outItem \<Rightarrow> worker \<times> registry \<Rightarrow> worker \<times> registry" where
  "outbox_enqueue newid now it x =
     (case x of (wk, reg) \<Rightarrow>
        (let ids = (case oi_subs it of None \<Rightarrow> [] | Some sn \<Rightarrow> route sn (oi_ctor it) (oi_payload it))
         in if ids = [] then (wk, reg)
            else (case (if db_up reg then EnqueueDeliveries newid now (oi_session it) ids (oi_payload it) reg
                        else Inl DbDown) of
                    Inr reg' \<Rightarrow> (wk, reg')
                  | Inl _ \<Rightarrow> (update_live (oi_session it) (\<lambda>le. le\<lparr>le_dropped := le_dropped le + 1\<rparr>) wk, reg))))"

text \<open>One round of the writer: the oldest item of the queue. \<open>newid\<close> makes the ids of the rows.\<close>

definition runOutboxWriter :: "(ident \<Rightarrow> ident) \<Rightarrow> time \<Rightarrow> worker \<times> registry \<Rightarrow> worker \<times> registry" where
  "runOutboxWriter newid now x =
     (case x of (wk, reg) \<Rightarrow>
        (case wk_outbox wk of
           [] \<Rightarrow> (wk, reg)
         | it # its \<Rightarrow> outbox_enqueue newid now it (wk\<lparr>wk_outbox := its\<rparr>, reg)))"

subsection \<open>Subscription sync\<close>

definition syncSubscriptions :: "ident list \<Rightarrow> registry \<Rightarrow> worker \<Rightarrow> worker" where
  "syncSubscriptions ids reg wk =
     (if ids = [] then wk
      else (case (if db_up reg then SubscriptionFilters ids reg else Inl DbDown) of
              Inl _ \<Rightarrow> wk
            | Inr fs \<Rightarrow>
                wk\<lparr>wk_live := map (\<lambda>(k, le). (k, if k \<in> set ids
                     then le\<lparr>le_subs := newSnapshot (filter (\<lambda>f. sf_session f = k) fs)\<rparr> else le)) (wk_live wk)\<rparr>))"

definition RefreshSubscriptions :: "ident \<Rightarrow> registry \<Rightarrow> worker \<Rightarrow> worker" where
  "RefreshSubscriptions sid reg wk =
     (case get wk sid of None \<Rightarrow> wk | Some _ \<Rightarrow> syncSubscriptions [sid] reg wk)"

definition flush_one :: "worker \<times> registry \<Rightarrow> ident \<Rightarrow> worker \<times> registry" where
  "flush_one x sid =
     (case x of (wk, reg) \<Rightarrow>
        (case get wk sid of
           None \<Rightarrow> (wk, reg)
         | Some le \<Rightarrow>
             if le_dropped le = 0 then (wk, reg)
             else (case (if db_up reg then AddDropped sid (le_dropped le) reg else Inl DbDown) of
                     Inl _ \<Rightarrow> (wk, reg)
                   | Inr reg' \<Rightarrow> (update_live sid (\<lambda>le. le\<lparr>le_dropped := 0\<rparr>) wk, reg'))))"

definition flushDropped :: "worker \<times> registry \<Rightarrow> worker \<times> registry" where
  "flushDropped x = foldl flush_one x (liveSessions (fst x))"

definition runSubscriptionSync :: "worker \<times> registry \<Rightarrow> worker \<times> registry" where
  "runSubscriptionSync x =
     (case x of (wk, reg) \<Rightarrow> flushDropped (syncSubscriptions (liveSessions wk) reg wk, reg))"

subsection \<open>Retention\<close>

definition retentionAge :: duration where "retentionAge = 24 * hour"
definition deadWorkerAge :: duration where "deadWorkerAge = hour"

text \<open>The sweeps of the registry, each on its own; a failing database fails them all.\<close>

definition purgeOnce ::
  "io_env \<Rightarrow> time \<Rightarrow> duration \<Rightarrow> upload_store \<Rightarrow> duration \<Rightarrow> registry \<times> volume \<Rightarrow> registry \<times> volume" where
  "purgeOnce io now sendTTL uploads uploadTTL x =
     (case x of (reg, v) \<Rightarrow>
        (let reg1 = snd (PurgeDeliveries (now - retentionAge) reg);
             reg2 = snd (PurgeWorkers (now - deadWorkerAge) reg1);
             reg3 = (case PurgeSends (now - sendTTL) reg2 of Inl _ \<Rightarrow> reg2 | Inr (_, r) \<Rightarrow> r);
             reg4 = snd (PurgeCooldowns now reg3);
             reg5 = reg4\<lparr>quota := snd (PurgeCounters (now - 8 * day) (quota reg4))\<rparr>
         in (if db_up reg then reg5 else reg, sweepUploads io uploads uploadTTL v)))"

subsection \<open>No update is lost without a trace\<close>

text \<open>
  What can happen to a worker between its restarts: an update arrives for some session, the writer takes
  an item, the subscriptions are reloaded, the counts are flushed, the database goes away or comes back.
\<close>

datatype happening =
    Arrives ident time td_update
  | Written "ident \<Rightarrow> ident" time
  | Synced
  | Flushed
  | Database bool

type_synonym update_world = "worker \<times> volume \<times> registry"

fun happen :: "io_env \<Rightarrow> happening \<Rightarrow> update_world \<Rightarrow> update_world" where
  "happen io (Arrives k now u) (wk, v, reg) = (case receive io now k u (wk, v) of (wk', v') \<Rightarrow> (wk', v', reg))"
| "happen io (Written newid now) (wk, v, reg) =
     (case runOutboxWriter newid now (wk, reg) of (wk', reg') \<Rightarrow> (wk', v, reg'))"
| "happen io Synced (wk, v, reg) = (syncSubscriptions (liveSessions wk) reg wk, v, reg)"
| "happen io Flushed (wk, v, reg) = (case flushDropped (wk, reg) of (wk', reg') \<Rightarrow> (wk', v, reg'))"
| "happen io (Database b) (wk, v, reg) = (wk, v, reg\<lparr>db_up := b\<rparr>)"

definition counts_for :: "ident \<Rightarrow> happening \<Rightarrow> bool" where
  "counts_for sid h \<longleftrightarrow> (case h of Arrives k _ u \<Rightarrow> k = sid \<and> up_is_update u \<and> up_json u \<noteq> None | _ \<Rightarrow> False)"

text \<open>Where an update for subscription \<open>i\<close> of a session can be: a delivery, an item of the queue, or a count.\<close>

definition unflushed :: "ident \<Rightarrow> worker \<Rightarrow> int" where
  "unflushed sid wk = (case get wk sid of None \<Rightarrow> 0 | Some le \<Rightarrow> le_dropped le)"

definition sub_losses :: "ident \<Rightarrow> registry \<Rightarrow> int" where
  "sub_losses i reg = sum_list (map sub_dropped (filter (\<lambda>x. sub_id x = i) (subs reg)))"

definition accounted :: "ident \<Rightarrow> ident \<Rightarrow> worker \<Rightarrow> registry \<Rightarrow> int" where
  "accounted i sid wk reg =
     int (length (filter (\<lambda>d. d_sub d = i) (deliveries reg)))
     + int (length (filter (\<lambda>it. oi_session it = sid) (wk_outbox wk)))
     + unflushed sid wk + sub_losses i reg"

text \<open>A subscription without restrictions, known to the worker that holds its session.\<close>

definition takes_all :: "ident \<Rightarrow> subSnapshot option \<Rightarrow> bool" where
  "takes_all i s \<longleftrightarrow> (\<forall>ctor. wants s ctor) \<and>
     (case s of None \<Rightarrow> False
      | Some sn \<Rightarrow> list_ex (\<lambda>b. sb_id b = i \<and> sb_types b = None \<and> sb_chats b = None) (sn_subs sn))"

definition unrestricted :: "ident \<Rightarrow> ident \<Rightarrow> registry \<Rightarrow> bool" where
  "unrestricted i sid reg \<longleftrightarrow>
     (\<exists>x. filter (\<lambda>x. sub_id x = i) (subs reg) = [x] \<and> sub_session x = sid \<and> read_filter (sub_filters x) = Some no_filter)"

definition watched :: "ident \<Rightarrow> ident \<Rightarrow> worker \<Rightarrow> registry \<Rightarrow> bool" where
  "watched i sid wk reg \<longleftrightarrow>
     unrestricted i sid reg
     \<and> get wk sid \<noteq> None
     \<and> list_all (\<lambda>(k, le). ls_id (le_ls le) = k \<and> (k = sid \<longrightarrow> takes_all i (le_subs le))) (wk_live wk)
     \<and> list_all (\<lambda>it. oi_session it = sid \<longrightarrow> takes_all i (oi_subs it)) (wk_outbox wk)"


lemma get_update_live [simp]:
  "get (update_live sid f wk) k = (if k = sid then map_option f (get wk k) else get wk k)"
proof -
  have "map_of (map (\<lambda>(k, le). (k, if k = sid then f le else le)) xs) k
        = (if k = sid then map_option f (map_of xs k) else map_of xs k)" for xs
    by (induction xs) auto
  then show ?thesis by (simp add: get_def update_live_def)
qed

lemma update_live_outbox [simp]: "wk_outbox (update_live sid f wk) = wk_outbox wk"
  by (simp add: update_live_def)

lemma get_outbox [simp]: "get (wk\<lparr>wk_outbox := q\<rparr>) = get wk"
  by (simp add: get_def fun_eq_iff)

lemma get_mem: "get wk sid = Some le \<Longrightarrow> (sid, le) \<in> set (wk_live wk)"
  by (simp add: get_def map_of_SomeD)

lemma takes_all_route:
  assumes "takes_all i s"
  obtains sn where "s = Some sn" "i \<in> set (route sn ctor payload)"
proof (cases s)
  case None
  then show ?thesis using assms by (simp add: takes_all_def)
next
  case (Some sn)
  then obtain b where "b \<in> set (sn_subs sn)" "sb_id b = i" "sb_types b = None" "sb_chats b = None"
    using assms by (auto simp: takes_all_def list_ex_iff)
  then have "i \<in> set (route sn ctor payload)" by (force simp: route_def route_loop_filter)
  then show ?thesis using that Some by blast
qed

lemma takes_all_newSnapshot:
  assumes "f \<in> set fs" "sf_id f = i" "read_filter (sf_filters f) = Some no_filter"
  shows "takes_all i (newSnapshot fs)"
proof -
  let ?sn = "snapshot_loop fs \<lparr>sn_subs = [], sn_anyType = False, sn_types = []\<rparr>"
  have mem: "\<lparr>sb_id = i, sb_types = None, sb_chats = None\<rparr> \<in> set (sn_subs ?sn)"
    using assms by (auto simp: snapshot_loop_subs compiled_def no_filter_def intro!: bexI [of _ f])
  have w: "sn_anyType ?sn \<or> ctor \<in> set (sn_types ?sn)" for ctor
    unfolding snapshot_loop_wants using assms(1,3) by (force simp: no_filter_def)
  have "sn_subs ?sn \<noteq> []" "fs \<noteq> []" using mem assms(1) by auto
  then have "newSnapshot fs = Some ?sn" by (simp add: newSnapshot_def Let_def)
  moreover have "list_ex (\<lambda>b. sb_id b = i \<and> sb_types b = None \<and> sb_chats b = None) (sn_subs ?sn)"
    unfolding list_ex_iff by (rule bexI [OF _ mem]) simp
  ultimately show ?thesis using w by (simp add: takes_all_def wants_def)
qed

lemma updateHandler_fields:
  assumes "updateHandler io now u (le, wk, v) = (le', wk', v')"
  shows "ls_id (le_ls le') = ls_id (le_ls le)" "le_subs le' = le_subs le" "wk_live wk' = wk_live wk"
    and "if up_is_update u \<and> up_json u \<noteq> None \<and> wants (le_subs le) (up_ctor u)
         then (\<exists>it. wk_outbox wk' = wk_outbox wk @ [it] \<and> oi_session it = ls_id (le_ls le)
                 \<and> oi_subs it = le_subs le \<and> le_dropped le' = le_dropped le)
              \<or> (wk_outbox wk' = wk_outbox wk \<and> le_dropped le' = le_dropped le + 1)
         else wk_outbox wk' = wk_outbox wk \<and> le_dropped le' = le_dropped le"
proof -
  obtain wk1 v1 where s: "send_done io (ls_id (le_ls le)) u (wk, v) = (wk1, v1)"
    by (cases "send_done io (ls_id (le_ls le)) u (wk, v)")
  have w1: "wk_live wk1 = wk_live wk" "wk_outbox wk1 = wk_outbox wk"
    using s by (auto simp: send_done_def split: if_splits option.splits prod.splits)
  obtain le1 js where n: "note_detail now (up_detail u) le = (le1, js)" by (cases "note_detail now (up_detail u) le")
  have l1: "ls_id (le_ls le1) = ls_id (le_ls le)" "le_subs le1 = le_subs le" "le_dropped le1 = le_dropped le"
    using n by (auto simp: note_detail_def setCodeInfo_def split: update_detail.splits prod.splits if_splits option.splits)
  show "ls_id (le_ls le') = ls_id (le_ls le)" "le_subs le' = le_subs le" "wk_live wk' = wk_live wk"
    using assms w1 l1 by (auto simp: updateHandler_def s n Let_def split: if_splits option.splits)
  show "if up_is_update u \<and> up_json u \<noteq> None \<and> wants (le_subs le) (up_ctor u)
         then (\<exists>it. wk_outbox wk' = wk_outbox wk @ [it] \<and> oi_session it = ls_id (le_ls le)
                 \<and> oi_subs it = le_subs le \<and> le_dropped le' = le_dropped le)
              \<or> (wk_outbox wk' = wk_outbox wk \<and> le_dropped le' = le_dropped le + 1)
         else wk_outbox wk' = wk_outbox wk \<and> le_dropped le' = le_dropped le"
    using assms w1 l1 by (auto simp: updateHandler_def s n Let_def split: if_splits option.splits)
qed

lemma live_all_update:
  "list_all (\<lambda>(k, le). P k le) (wk_live wk) \<Longrightarrow> (\<And>le. P k le \<Longrightarrow> P k (f le)) \<Longrightarrow>
   list_all (\<lambda>(k, le). P k le) (wk_live (update_live k f wk))"
  by (fastforce simp: list_all_iff update_live_def split: if_splits)

lemma watched_update_live:
  assumes "watched i sid wk reg" "\<And>le. ls_id (le_ls (f le)) = ls_id (le_ls le)" "\<And>le. le_subs (f le) = le_subs le"
  shows "watched i sid (update_live k f wk) reg"
  using assms live_all_update [of "\<lambda>k le. ls_id (le_ls le) = k \<and> (k = sid \<longrightarrow> takes_all i (le_subs le))" wk k f]
  by (auto simp: watched_def)

lemma receive_counts:
  assumes w: "watched i sid wk reg" and r: "receive io now k u (wk, v) = (wk', v')"
  shows "watched i sid wk' reg"
    and "accounted i sid wk' reg = accounted i sid wk reg + (if counts_for sid (Arrives k now u) then 1 else 0)"
proof -
  have "watched i sid wk' reg \<and>
    accounted i sid wk' reg = accounted i sid wk reg + (if counts_for sid (Arrives k now u) then 1 else 0)"
  proof (cases "get wk k")
    case None
    then show ?thesis using w r by (auto simp: receive_def counts_for_def watched_def)
  next
    case (Some le)
    obtain le' wk1 v1 where h: "updateHandler io now u (le, wk, v) = (le', wk1, v1)"
      by (cases "updateHandler io now u (le, wk, v)")
    note f = updateHandler_fields [OF h]
    have wk': "wk' = update_live k (\<lambda>_. le') wk1" using r Some h by (simp add: receive_def)
    have id: "ls_id (le_ls le) = k" and all: "k = sid \<Longrightarrow> takes_all i (le_subs le)"
      using w get_mem [OF Some] by (auto simp: watched_def list_all_iff)
    have g: "get wk1 = get wk" using f(3) by (simp add: get_def fun_eq_iff)
    have q: "list_all (\<lambda>it. oi_session it = sid \<longrightarrow> takes_all i (oi_subs it)) (wk_outbox wk1)"
      using f(4) w all id by (auto simp: watched_def split: if_splits)
    have "watched i sid wk' reg"
      using w q f(1-3) id all g
        live_all_update [of "\<lambda>k le. ls_id (le_ls le) = k \<and> (k = sid \<longrightarrow> takes_all i (le_subs le))" wk1 k "\<lambda>_. le'"]
      by (auto simp: wk' watched_def)
    moreover have "k = sid \<Longrightarrow> wants (le_subs le) (up_ctor u)" using all by (simp add: takes_all_def)
    ultimately show ?thesis
      using f(4) id Some by (auto simp: accounted_def wk' unflushed_def g counts_for_def split: if_splits)
  qed
  then show "watched i sid wk' reg"
    and "accounted i sid wk' reg = accounted i sid wk reg + (if counts_for sid (Arrives k now u) then 1 else 0)"
    by blast+
qed


lemma EnqueueDeliveries_rows:
  assumes "unrestricted i sid reg" and "EnqueueDeliveries newid now k ids p reg = Inr reg'"
  shows "length (filter (\<lambda>d. d_sub d = i) (deliveries reg'))
       = length (filter (\<lambda>d. d_sub d = i) (deliveries reg)) + (if k = sid \<and> i \<in> set ids then 1 else 0)"
    and "subs reg' = subs reg"
proof -
  let ?P = "\<lambda>x. sub_id x \<in> set ids \<and> sub_session x = k"
  obtain x where x: "filter (\<lambda>x. sub_id x = i) (subs reg) = [x]" "sub_session x = sid"
    using assms(1) by (auto simp: unrestricted_def)
  then have "x \<in> set (filter (\<lambda>x. sub_id x = i) (subs reg))" by simp
  then have "sub_id x = i" by simp
  have "filter (\<lambda>d. d_sub d = i) (map (\<lambda>y. \<lparr>d_id = newid (sub_id y), d_session = k, d_sub = sub_id y, d_payload = p,
      d_status = ''pending'', d_attempts = 0, d_next_try = now, d_created = now\<rparr>) (filter ?P (subs reg)))
      = map (\<lambda>y. \<lparr>d_id = newid (sub_id y), d_session = k, d_sub = sub_id y, d_payload = p,
      d_status = ''pending'', d_attempts = 0, d_next_try = now, d_created = now\<rparr>)
          (filter ?P (filter (\<lambda>x. sub_id x = i) (subs reg)))"
    by (simp add: filter_map comp_def conj_commute cong: filter_cong)
  then show "length (filter (\<lambda>d. d_sub d = i) (deliveries reg'))
       = length (filter (\<lambda>d. d_sub d = i) (deliveries reg)) + (if k = sid \<and> i \<in> set ids then 1 else 0)"
    using assms(2) x \<open>sub_id x = i\<close> by (auto simp: EnqueueDeliveries_def split: if_splits)
  show "subs reg' = subs reg" using assms(2) by (auto simp: EnqueueDeliveries_def split: if_splits)
qed

lemma writer_counts:
  assumes w: "watched i sid wk reg" and r: "runOutboxWriter newid now (wk, reg) = (wk', reg')"
  shows "watched i sid wk' reg' \<and> accounted i sid wk' reg' = accounted i sid wk reg"
proof (cases "wk_outbox wk")
  case Nil
  then show ?thesis using w r by (simp add: runOutboxWriter_def)
next
  case (Cons it its)
  define wk1 where "wk1 = wk\<lparr>wk_outbox := its\<rparr>"
  define ids where "ids = (case oi_subs it of None \<Rightarrow> [] | Some sn \<Rightarrow> route sn (oi_ctor it) (oi_payload it))"
  let ?res = "if db_up reg then EnqueueDeliveries newid now (oi_session it) ids (oi_payload it) reg else Inl DbDown"
  have g1: "get wk1 = get wk" "wk_outbox wk1 = its" "wk_live wk1 = wk_live wk"
    by (simp_all add: wk1_def)
  have all: "oi_session it = sid \<Longrightarrow> takes_all i (oi_subs it)" and w1: "watched i sid wk1 reg"
    using w Cons g1 by (auto simp: watched_def)
  have mem: "i \<in> set ids" if s: "oi_session it = sid"
    using takes_all_route [OF all [OF s], of "oi_ctor it" "oi_payload it"] by (force simp: ids_def)
  have step: "(wk', reg') =
      (if ids = [] then (wk1, reg)
       else (case ?res of Inr reg1 \<Rightarrow> (wk1, reg1)
             | Inl _ \<Rightarrow> (update_live (oi_session it) (\<lambda>le. le\<lparr>le_dropped := le_dropped le + 1\<rparr>) wk1, reg)))"
    using r [symmetric] Cons unfolding wk1_def
    by (simp add: runOutboxWriter_def outbox_enqueue_def ids_def [symmetric])
  have u: "unrestricted i sid reg" using w by (simp add: watched_def)
  consider (none) "ids = []" | (lost) x where "ids \<noteq> []" "?res = Inl x" | (ok) reg1 where "ids \<noteq> []" "?res = Inr reg1"
    by (cases ?res) blast+
  then show ?thesis
  proof cases
    case none
    then show ?thesis using step w1 mem Cons g1 by (auto simp: accounted_def unflushed_def)
  next
    case lost
    have "watched i sid (update_live (oi_session it) (\<lambda>le. le\<lparr>le_dropped := le_dropped le + 1\<rparr>) wk1) reg"
      using watched_update_live [OF w1] by simp
    moreover have "get wk sid \<noteq> None" using w by (simp add: watched_def)
    ultimately show ?thesis using step lost Cons g1 by (auto simp: accounted_def unflushed_def)
  next
    case ok
    have e: "EnqueueDeliveries newid now (oi_session it) ids (oi_payload it) reg = Inr reg1"
      using ok(2) by (simp split: if_splits)
    have s: "subs reg1 = subs reg" using EnqueueDeliveries_rows(2) [OF u e] .
    then have "watched i sid wk1 reg1" using w1 by (simp add: watched_def unrestricted_def)
    moreover have "accounted i sid wk1 reg1 = accounted i sid wk reg"
      using EnqueueDeliveries_rows(1) [OF u e] mem Cons g1 s
      by (auto simp: accounted_def unflushed_def sub_losses_def)
    ultimately show ?thesis using step ok by simp
  qed
qed

lemma sync_counts:
  assumes w: "watched i sid wk reg"
  shows "watched i sid (syncSubscriptions ids reg wk) reg
       \<and> accounted i sid (syncSubscriptions ids reg wk) reg = accounted i sid wk reg"
proof (cases "if ids = [] then Inl DbDown else if db_up reg then SubscriptionFilters ids reg else Inl DbDown")
  case (Inl x)
  then show ?thesis using w by (auto simp: syncSubscriptions_def split: if_splits)
next
  case (Inr fs)
  let ?f = "\<lambda>k le. if k \<in> set ids then le\<lparr>le_subs := newSnapshot (filter (\<lambda>f. sf_session f = k) fs)\<rparr> else le"
  have s: "ids \<noteq> []" "db_up reg" "SubscriptionFilters ids reg = Inr fs" using Inr by (auto split: if_splits)
  then have wk': "syncSubscriptions ids reg wk = wk\<lparr>wk_live := map (\<lambda>(k, le). (k, ?f k le)) (wk_live wk)\<rparr>"
    by (simp add: syncSubscriptions_def)
  obtain x where x: "filter (\<lambda>x. sub_id x = i) (subs reg) = [x]" "sub_session x = sid"
      "read_filter (sub_filters x) = Some no_filter"
    using w by (auto simp: watched_def unrestricted_def)
  then have "x \<in> set (filter (\<lambda>x. sub_id x = i) (subs reg))" by simp
  then have xm: "x \<in> set (subs reg)" "sub_id x = i" by auto
  have new: "takes_all i (newSnapshot (filter (\<lambda>f. sf_session f = sid) fs))" if "sid \<in> set ids"
  proof (rule takes_all_newSnapshot)
    show "\<lparr>sf_id = i, sf_session = sid, sf_filters = sub_filters x\<rparr> \<in> set (filter (\<lambda>f. sf_session f = sid) fs)"
      using s(1,3) xm x(2) that by (force simp: SubscriptionFilters_def split: if_splits)
  qed (use x(3) in simp_all)
  have "map_of (map (\<lambda>(k, le). (k, ?f k le)) xs) sid = map_option (?f sid) (map_of xs sid)" for xs
    by (induction xs) auto
  then have g: "get (syncSubscriptions ids reg wk) sid = map_option (?f sid) (get wk sid)"
    by (simp add: wk' get_def)
  have "list_all (\<lambda>(k, le). ls_id (le_ls le) = k \<and> (k = sid \<longrightarrow> takes_all i (le_subs le)))
          (map (\<lambda>(k, le). (k, ?f k le)) (wk_live wk))"
    using w new by (fastforce simp: watched_def list_all_iff)
  then have "watched i sid (syncSubscriptions ids reg wk) reg"
    using w g by (simp add: watched_def wk')
  moreover have "unflushed sid (syncSubscriptions ids reg wk) = unflushed sid wk"
    by (simp add: unflushed_def g split: option.split)
  ultimately show ?thesis by (simp add: accounted_def wk')
qed


lemma AddDropped_counts:
  assumes "unrestricted i sid reg" and "AddDropped k n reg = Inr reg'"
  shows "unrestricted i sid reg'" "sub_losses i reg' = sub_losses i reg + (if k = sid then n else 0)"
    and "deliveries reg' = deliveries reg"
proof -
  let ?f = "\<lambda>x. if sub_session x = k then x\<lparr>sub_dropped := sub_dropped x + n\<rparr> else x"
  have r: "reg' = reg\<lparr>subs := map ?f (subs reg)\<rparr>"
    using assms(2) by (auto simp: AddDropped_def uuid_arg_def split: if_splits)
  have "filter (\<lambda>x. sub_id x = i) (map ?f xs) = map ?f (filter (\<lambda>x. sub_id x = i) xs)" for xs
    by (induction xs) auto
  then have f: "filter (\<lambda>x. sub_id x = i) (subs reg') = map ?f (filter (\<lambda>x. sub_id x = i) (subs reg))"
    by (simp add: r)
  show "unrestricted i sid reg'" "sub_losses i reg' = sub_losses i reg + (if k = sid then n else 0)"
    using assms(1) by (auto simp: unrestricted_def sub_losses_def f)
  show "deliveries reg' = deliveries reg" by (simp add: r)
qed

lemma flush_one_counts:
  assumes w: "watched i sid wk reg" and r: "flush_one (wk, reg) k = (wk', reg')"
  shows "watched i sid wk' reg' \<and> accounted i sid wk' reg' = accounted i sid wk reg"
proof (cases "\<exists>le reg1. get wk k = Some le \<and> le_dropped le \<noteq> 0 \<and> db_up reg \<and> AddDropped k (le_dropped le) reg = Inr reg1")
  case False
  then have "wk' = wk \<and> reg' = reg"
    using r by (auto simp: flush_one_def split: option.splits if_splits sum.splits)
  then show ?thesis using w by simp
next
  case True
  then obtain le reg1 where t: "get wk k = Some le" "le_dropped le \<noteq> 0" "db_up reg" "AddDropped k (le_dropped le) reg = Inr reg1"
    by blast
  then have s: "wk' = update_live k (\<lambda>le. le\<lparr>le_dropped := 0\<rparr>) wk" "reg' = reg1"
    using r by (auto simp: flush_one_def)
  have u: "unrestricted i sid reg" using w by (simp add: watched_def)
  note a = AddDropped_counts [OF u t(4)]
  have "watched i sid wk' reg" unfolding s using watched_update_live [OF w] by simp
  then have "watched i sid wk' reg'" using a(1) s by (simp add: watched_def)
  moreover have "get wk sid \<noteq> None" using w by (simp add: watched_def)
  ultimately show ?thesis using a t(1) s by (auto simp: accounted_def unflushed_def)
qed

lemma flush_counts:
  assumes "watched i sid wk reg" and "foldl flush_one (wk, reg) ks = (wk', reg')"
  shows "watched i sid wk' reg' \<and> accounted i sid wk' reg' = accounted i sid wk reg"
  using assms
proof (induction ks arbitrary: wk reg)
  case (Cons k ks)
  obtain wk1 reg1 where "flush_one (wk, reg) k = (wk1, reg1)" by (cases "flush_one (wk, reg) k")
  then show ?case using flush_one_counts [OF Cons.prems(1)] Cons by fastforce
qed simp

lemma happen_counts:
  assumes w: "watched i sid wk reg" and h: "happen io h (wk, v, reg) = (wk', v', reg')"
  shows "watched i sid wk' reg'
       \<and> accounted i sid wk' reg' = accounted i sid wk reg + (if counts_for sid h then 1 else 0)"
proof (cases h)
  case (Arrives k now u)
  obtain wk1 v1 where "receive io now k u (wk, v) = (wk1, v1)" by (cases "receive io now k u (wk, v)")
  then show ?thesis using receive_counts [OF w] h Arrives by fastforce
next
  case (Written newid now)
  obtain wk1 reg1 where "runOutboxWriter newid now (wk, reg) = (wk1, reg1)" by (cases "runOutboxWriter newid now (wk, reg)")
  then show ?thesis using writer_counts [OF w] h Written by (fastforce simp: counts_for_def)
next
  case Synced
  then show ?thesis using sync_counts [OF w] h by (auto simp: counts_for_def)
next
  case Flushed
  obtain wk1 reg1 where f: "flushDropped (wk, reg) = (wk1, reg1)" by (cases "flushDropped (wk, reg)")
  then show ?thesis
    using flush_counts [OF w, of "liveSessions wk"] h Flushed by (fastforce simp: counts_for_def flushDropped_def)
next
  case (Database b)
  then show ?thesis
    using w h by (auto simp: counts_for_def watched_def unrestricted_def accounted_def sub_losses_def)
qed

text \<open>C11: no update is lost without a trace. For a subscription without restrictions, whatever updates
  arrive for whatever sessions, however the queue fills, the database fails and the reloads and flushes
  fall in between: each update of its session is in the end a delivery, an item still queued, or counted
  as dropped, in the worker or in the subscription's row, once and only once.\<close>

theorem every_update_is_accounted_for:
  assumes "watched i sid wk reg" and "foldl (\<lambda>s h. happen io h s) (wk, v, reg) hs = (wk', v', reg')"
  shows "accounted i sid wk' reg' = accounted i sid wk reg + int (length (filter (counts_for sid) hs))"
  using assms
proof (induction hs arbitrary: wk v reg)
  case (Cons h hs)
  obtain wk1 v1 reg1 where "happen io h (wk, v, reg) = (wk1, v1, reg1)" by (cases "happen io h (wk, v, reg)")
  then show ?case using happen_counts [OF Cons.prems(1)] Cons by fastforce
qed simp

text \<open>A worker that holds one session with one subscription.\<close>

definition silent_td :: td_env where
  "silent_td = \<lparr>td_log = [], td_answer = (\<lambda>_ _. Inr (''ok'', JObj [])), td_extra = (\<lambda>_. ''1''), td_text = (\<lambda>_. '''')\<rparr>"

definition sample_worker :: worker where
  "sample_worker = \<lparr>wk_id = ''w1'', wk_addr = ''http://w1:8080'', wk_dataDir = ''/data'', wk_capacity = 200,
     wk_live = [(''s1'', (new_entry ''s1'' ''user'' False silent_td)
        \<lparr>le_subs := newSnapshot [\<lparr>sf_id = ''x1'', sf_session = ''s1'', sf_filters = RawEmpty\<rparr>]\<rparr>)],
     wk_retry = [], wk_outbox = [], wk_sends = [], wk_pending = [], wk_stopping = False, wk_jobs = []\<rparr>"

definition sample_update :: td_update where
  "sample_update = \<lparr>up_is_update = True, up_ctor = ''updateNewMessage'', up_json = Some (JObj []), up_detail = OtherUpdate\<rparr>"

theorem every_update_is_accounted_for_witness:
  "accounted ''x1'' ''s1''
     (fst (foldl (\<lambda>s h. happen calm_io h s)
        (sample_worker, \<lparr>v_dirs = [], v_files = []\<rparr>,
         empty_registry\<lparr>subs := [(sample_sub ''x1'' ''s1'' None)\<lparr>sub_filters := RawEmpty\<rparr>]\<rparr>)
        [Arrives ''s1'' 0 sample_update, Database False, Written (\<lambda>x. x) 1, Database True, Flushed]))
     (snd (snd (foldl (\<lambda>s h. happen calm_io h s)
        (sample_worker, \<lparr>v_dirs = [], v_files = []\<rparr>,
         empty_registry\<lparr>subs := [(sample_sub ''x1'' ''s1'' None)\<lparr>sub_filters := RawEmpty\<rparr>]\<rparr>)
        [Arrives ''s1'' 0 sample_update, Database False, Written (\<lambda>x. x) 1, Database True, Flushed]))) = 1"
proof -
  let ?reg = "empty_registry\<lparr>subs := [(sample_sub ''x1'' ''s1'' None)\<lparr>sub_filters := RawEmpty\<rparr>]\<rparr>"
  let ?hs = "[Arrives ''s1'' 0 sample_update, Database False, Written (\<lambda>x. x) 1, Database True, Flushed]"
  let ?run = "foldl (\<lambda>s h. happen calm_io h s) (sample_worker, \<lparr>v_dirs = [], v_files = []\<rparr>, ?reg) ?hs"
  have "takes_all ''x1'' (newSnapshot [\<lparr>sf_id = ''x1'', sf_session = ''s1'', sf_filters = RawEmpty\<rparr>])"
    by (rule takes_all_newSnapshot [of "\<lparr>sf_id = ''x1'', sf_session = ''s1'', sf_filters = RawEmpty\<rparr>"])
       (simp_all add: read_filter_def)
  then have w: "watched ''x1'' ''s1'' sample_worker ?reg"
    by (simp add: watched_def unrestricted_def sample_worker_def get_def new_entry_def newLiveSession_def
        empty_registry_def sample_sub_def read_filter_def)
  have "accounted ''x1'' ''s1'' sample_worker ?reg = 0"
    by (simp add: accounted_def sample_worker_def get_def unflushed_def new_entry_def sub_losses_def
        empty_registry_def sample_sub_def)
  moreover have "length (filter (counts_for ''s1'') ?hs) = 1"
    by (simp add: counts_for_def sample_update_def)
  ultimately show ?thesis
    using every_update_is_accounted_for [OF w, of calm_io "\<lparr>v_dirs = [], v_files = []\<rparr>" ?hs
        "fst ?run" "fst (snd ?run)" "snd (snd ?run)"] by simp
qed

end
