(* ===== verification/Secret.thy ===== *)
theory Secret
  imports Registry TdJson
begin

section \<open>Secrets at rest\<close>

text \<open>
  \<^verbatim>\<open>internal/secret/secret.go\<close>. The cipher (AES-256-GCM of the Go library) is a parameter: its nonce size,
  sealing and opening. A box is made from a decoded master key; random bytes are an argument, \<open>None\<close> when
  the system has none to give.
\<close>

record box =
  bx_nonce :: nat
  bx_seal :: "bytes \<Rightarrow> bytes \<Rightarrow> bytes"
  bx_open :: "bytes \<Rightarrow> bytes \<Rightarrow> bytes option"

text \<open>\<^verbatim>\<open>New\<close>: the decoded key, if it is base64 at all, and what the cipher makes of it.\<close>

definition New_Box :: "(string \<Rightarrow> bytes option) \<Rightarrow> (bytes \<Rightarrow> err + box) \<Rightarrow> string \<Rightarrow> err + box" where
  "New_Box decode cipher masterKey =
     (case decode masterKey of
        None \<Rightarrow> Inl (EMsg ''MASTER_KEY must be base64'')
      | Some key \<Rightarrow>
          if length key \<noteq> 32 then Inl (EMsg ''MASTER_KEY must decode to 32 bytes'') else cipher key)"

definition Encrypt :: "box \<Rightarrow> bytes option \<Rightarrow> bytes \<Rightarrow> err + bytes" where
  "Encrypt b rand plain =
     (case rand of
        None \<Rightarrow> Inl (EMsg ''EOF'')
      | Some r \<Rightarrow>
          if length r < bx_nonce b then Inl (EMsg ''unexpected EOF'')
          else (let nonce = take (bx_nonce b) r in Inr (nonce @ bx_seal b nonce plain)))"

definition Decrypt :: "box \<Rightarrow> bytes \<Rightarrow> err + bytes" where
  "Decrypt b ct =
     (if length ct < bx_nonce b then Inl (EMsg ''ciphertext too short'')
      else (case bx_open b (take (bx_nonce b) ct) (drop (bx_nonce b) ct) of
              None \<Rightarrow> Inl (EMsg ''cipher: message authentication failed'')
            | Some p \<Rightarrow> Inr p))"

text \<open>What is relied on of the cipher: what was sealed opens again under the same nonce.\<close>

definition opens_sealed :: "box \<Rightarrow> bool" where
  "opens_sealed b \<longleftrightarrow> (\<forall>nonce p. bx_open b nonce (bx_seal b nonce p) = Some p)"

lemma Decrypt_Encrypt:
  assumes "opens_sealed b" "Encrypt b rand p = Inr ct"
  shows "Decrypt b ct = Inr p"
  using assms
  by (auto simp: Encrypt_def Decrypt_def Let_def opens_sealed_def min_absorb2 split: option.splits if_splits)

text \<open>A box to evaluate on: a cipher that does nothing but remember its nonce.\<close>

definition open_box :: box where
  "open_box = \<lparr>bx_nonce = 2, bx_seal = (\<lambda>n p. n @ p),
     bx_open = (\<lambda>n c. if has_prefix c n then Some (drop (length n) c) else None)\<rparr>"

lemma open_box_opens: "opens_sealed open_box"
  by (simp add: opens_sealed_def open_box_def has_prefix_def)

end
