(* ===== verification/Fleet.thy ===== *)
theory Fleet
  imports Receiver Secret
begin

section \<open>The worker's share of the fleet\<close>

text \<open>
  \<^verbatim>\<open>session.Manager\<close> of \<^verbatim>\<open>internal/session/manager.go\<close>: opening sessions from their binlogs, the reconcile pass
  (expired logins, fencing, adoption, balance), shedding and the shutdown. A pass is taken at one time
  \<open>now\<close>; every statement in it may fail on its own (\<open>fe_fails\<close>, by the name of the store's method and the
  row), or all of them when the database is down. go-tdlib's \<^verbatim>\<open>NewClient\<close>, which drives the authorizer, is a
  parameter: its outcome for the parameters, the proxy and the kind of login. A closed client is kept in
  \<open>fw_closed\<close>, so that a theorem can say that it was closed.
\<close>

subsection \<open>What TDLib is started with\<close>

record tdlib_params =
  tp_database :: string
  tp_files :: string
  tp_key :: bytes
  tp_use :: "string list"
  tp_api_id :: int
  tp_api_hash :: string
  tp_client :: "string \<times> string \<times> string \<times> string"

text \<open>\<open>tp_use\<close> names the flags that are set, \<open>tp_client\<close> the language, device, system and application.\<close>

definition buildParams :: "string \<Rightarrow> bytes \<Rightarrow> int \<Rightarrow> string \<Rightarrow> tdlib_params" where
  "buildParams dbDir dbKey apiID apiHash =
     \<lparr>tp_database = Join [dbDir, ''db''], tp_files = Join [dbDir, ''files''], tp_key = dbKey,
      tp_use = [''UseFileDatabase'', ''UseChatInfoDatabase''], tp_api_id = apiID, tp_api_hash = apiHash,
      tp_client = (''en'', ''tgcontrol'', ''1'', ''0.1'')\<rparr>"

datatype proxy_type = Socks5 string string | HttpProxy string string | Mtproto string

record add_proxy =
  ap_server :: string
  ap_port :: int
  ap_type :: proxy_type
  ap_enable :: bool

datatype login_kind = Rehydrate | BotLogin string | UserLogin string

record fleet_env =
  fe_box :: box
  fe_newClient :: "tdlib_params \<Rightarrow> add_proxy option \<Rightarrow> login_kind \<Rightarrow> err + td_env"
  fe_option :: "json \<Rightarrow> option_value option"
  fe_dbt :: "db_err \<Rightarrow> string"
  fe_fails :: "string \<Rightarrow> ident \<Rightarrow> bool"
  fe_unwinds :: "ident \<Rightarrow> bool"
  fe_random :: "nat \<Rightarrow> bytes option"

record fleet =
  fw_worker :: worker
  fw_reg :: registry
  fw_closed :: "(ident \<times> td_env) list"

text \<open>A statement of the store: it fails as a whole, or does what it does.\<close>

definition answers :: "fleet_env \<Rightarrow> string \<Rightarrow> ident \<Rightarrow> registry \<Rightarrow> bool" where
  "answers env stmt sid reg \<longleftrightarrow> db_up reg \<and> \<not> fe_fails env stmt sid"

definition db_try :: "fleet_env \<Rightarrow> string \<Rightarrow> ident \<Rightarrow> registry \<Rightarrow> (db_err + 'a) \<Rightarrow> err + 'a" where
  "db_try env stmt sid reg x =
     (if \<not> answers env stmt sid reg then Inl (EDb DbDown)
      else (case x of Inl e \<Rightarrow> Inl (EDb e) | Inr y \<Rightarrow> Inr y))"

definition proxy_secret :: "fleet_env \<Rightarrow> proxy_row \<Rightarrow> err + string" where
  "proxy_secret env p = (if px_secret_enc p \<noteq> '''' then Decrypt (fe_box env) (px_secret_enc p) else Inr '''')"

definition unknown_proxy :: "string \<Rightarrow> err" where
  "unknown_proxy ty = EMsg (''unknown proxy type \"'' @ ty @ ''\"'')"

definition proxyRequest :: "fleet_env \<Rightarrow> ident \<Rightarrow> registry \<Rightarrow> err + add_proxy option" where
  "proxyRequest env proxyID reg =
     (if proxyID = '''' then Inr None
      else (case db_try env ''GetProxy'' proxyID reg (GetProxy proxyID reg) of
              Inl e \<Rightarrow> Inl e
            | Inr p \<Rightarrow>
                (case proxy_secret env p of
                   Inl e \<Rightarrow> Inl e
                 | Inr sec \<Rightarrow>
                     (let user = coalesce (px_username p);
                          req = (\<lambda>t. Inr (Some \<lparr>ap_server = px_host p, ap_port = px_port p, ap_type = t, ap_enable = True\<rparr>))
                      in if px_type p = ''socks5'' then req (Socks5 user sec)
                         else if px_type p = ''http'' then req (HttpProxy user sec)
                         else if px_type p = ''mtproto'' then req (Mtproto sec)
                         else Inl (unknown_proxy (px_type p))))))"

subsection \<open>Retries\<close>

definition workerStale :: duration where "workerStale = 30 * second"
definition claimBatch :: int where "claimBatch = 8"
definition shedPerTick :: nat where "shedPerTick = 2"
definition openBackoff :: duration where "openBackoff = 20 * second"
definition staleLoginGrace :: duration where "staleLoginGrace = 2 * minute"

definition retryReady :: "time \<Rightarrow> ident \<Rightarrow> worker \<Rightarrow> bool" where
  "retryReady now sid wk = (case map_of (wk_retry wk) sid of None \<Rightarrow> True | Some t \<Rightarrow> t < now)"

definition backoff :: "time \<Rightarrow> ident \<Rightarrow> worker \<Rightarrow> worker" where
  "backoff now sid wk = wk\<lparr>wk_retry := AList.update sid (now + openBackoff) (wk_retry wk)\<rparr>"

definition clearRetry :: "ident \<Rightarrow> worker \<Rightarrow> worker" where
  "clearRetry sid wk = wk\<lparr>wk_retry := filter (\<lambda>(k, _). k \<noteq> sid) (wk_retry wk)\<rparr>"

subsection \<open>Opening a session\<close>

text \<open>\<^verbatim>\<open>errors.Is(err, errRehydrateExpired)\<close>.\<close>

fun is_expired :: "err \<Rightarrow> bool" where
  "is_expired ERehydrateExpired = True"
| "is_expired (EWrap _ e) = is_expired e"
| "is_expired _ = False"

definition no_client :: td_env where
  "no_client = \<lparr>td_log = [], td_answer = (\<lambda>_ _. Inl EContext), td_extra = (\<lambda>_. ''''), td_text = (\<lambda>_. '''')\<rparr>"

text \<open>What is read before anything changes: the app's id and hash, the proxy, and the database key.\<close>

definition app_material :: "fleet_env \<Rightarrow> ident \<Rightarrow> ident \<Rightarrow> registry \<Rightarrow> err + (int \<times> bytes \<times> add_proxy option)" where
  "app_material env appID proxyID reg =
     (case db_try env ''GetApp'' appID reg (GetApp appID reg) of
        Inl e \<Rightarrow> Inl (EWrap ''app: '' e)
      | Inr app \<Rightarrow>
          (case Decrypt (fe_box env) (app_hash_enc app) of
             Inl e \<Rightarrow> Inl e
           | Inr apiHash \<Rightarrow>
               (case proxyRequest env proxyID reg of
                  Inl e \<Rightarrow> Inl (EWrap ''proxy: '' e)
                | Inr proxy \<Rightarrow> Inr (app_api_id app, apiHash, proxy))))"

definition open_material ::
  "fleet_env \<Rightarrow> Rehydratable \<Rightarrow> registry \<Rightarrow> err + (int \<times> bytes \<times> add_proxy option \<times> bytes)" where
  "open_material env r reg =
     (case app_material env (rh_app r) (rh_proxy r) reg of
        Inl e \<Rightarrow> Inl e
      | Inr (apiID, apiHash, proxy) \<Rightarrow>
          (case Decrypt (fe_box env) (rh_db_key_enc r) of
             Inl e \<Rightarrow> Inl e
           | Inr dbKey \<Rightarrow> Inr (apiID, apiHash, proxy, dbKey)))"

definition rehydrateOne ::
  "fleet_env \<Rightarrow> time \<Rightarrow> Rehydratable \<Rightarrow> worker \<times> registry \<Rightarrow> err option \<times> worker \<times> registry" where
  "rehydrateOne env now r x =
     (case x of (wk, reg) \<Rightarrow>
        (case open_material env r reg of
           Inl e \<Rightarrow> (Some e, wk, reg)
         | Inr (apiID, apiHash, proxy, dbKey) \<Rightarrow>
             (let sid = rh_id r;
                  wk1 = put (new_entry sid (rh_kind r) False no_client) wk;
                  wk2 = syncSubscriptions [sid] reg wk1;
                  wk3 = update_live sid (\<lambda>le. le\<lparr>le_guard := loadGuard now sid reg (le_guard le)\<rparr>) wk2
              in case fe_newClient env (buildParams (rh_db_dir r) dbKey apiID apiHash) proxy Rehydrate of
                   Inl e \<Rightarrow>
                     (let wk4 = delete sid wk3
                      in if is_expired e then (Some e, clearRetry sid wk4, persist now sid ''expired'' reg)
                         else (Some e, backoff now sid wk4, reg))
                 | Inr td \<Rightarrow>
                     (case setClient now (newLiveSession sid (rh_kind r) False, reg) of
                        (ls, reg') \<Rightarrow>
                          (None, update_live sid (\<lambda>le. le\<lparr>le_ls := ls, le_td := td\<rparr>) (clearRetry sid wk3), reg')))))"

text \<open>The goroutine started after a successful open: the account's own id and Premium flag.\<close>

definition account_read :: "fleet_env \<Rightarrow> ident \<Rightarrow> worker \<Rightarrow> worker" where
  "account_read env sid wk =
     (case get wk sid of
        None \<Rightarrow> wk
      | Some le \<Rightarrow>
          (case readAccount (fe_option env) (ls_kind (le_ls le)) (le_td le) (le_guard le) of
             (td, g, js) \<Rightarrow>
               (update_live sid (\<lambda>_. le\<lparr>le_td := td, le_guard := g\<rparr>) wk)
                 \<lparr>wk_jobs := wk_jobs wk @ map (Pair sid) js\<rparr>))"

definition hydrateLogged :: "fleet_env \<Rightarrow> time \<Rightarrow> fleet \<Rightarrow> Rehydratable \<Rightarrow> fleet" where
  "hydrateLogged env now f r =
     (case rehydrateOne env now r (fw_worker f, fw_reg f) of
        (_, wk, reg) \<Rightarrow> f\<lparr>fw_worker := wk, fw_reg := reg\<rparr>)"


subsection \<open>Letting go of sessions\<close>

definition closeClient :: "td_env \<Rightarrow> td_env" where
  "closeClient td = snd (td_Call ''close'' RawEmpty td)"

definition close_held :: "ident \<Rightarrow> live_entry \<Rightarrow> fleet \<Rightarrow> fleet" where
  "close_held sid le f = f\<lparr>fw_closed := fw_closed f @ [(sid, closeClient (le_td le))]\<rparr>"

definition shed_one :: "fleet_env \<Rightarrow> time \<Rightarrow> fleet \<Rightarrow> ident \<Rightarrow> fleet" where
  "shed_one env now f sid =
     (let f1 = (case get (fw_worker f) sid of
                  None \<Rightarrow> f
                | Some le \<Rightarrow> if readyClient (le_ls le) then close_held sid le f else f);
          f2 = f1\<lparr>fw_worker := delete sid (fw_worker f1)\<rparr>
      in case db_try env ''ReleaseSession'' sid (fw_reg f2) (ReleaseSession now sid (fw_reg f2)) of
           Inl _ \<Rightarrow> f2 | Inr reg \<Rightarrow> f2\<lparr>fw_reg := reg\<rparr>)"

definition ready_ids :: "worker \<Rightarrow> ident list" where
  "ready_ids wk = map fst (filter (\<lambda>(_, le). readyClient (le_ls le)) (wk_live wk))"

text \<open>The loop stops when it has \<open>n\<close>; it is only called with \<open>n\<close> positive.\<close>

definition shed :: "fleet_env \<Rightarrow> time \<Rightarrow> nat \<Rightarrow> fleet \<Rightarrow> fleet" where
  "shed env now n f = foldl (shed_one env now) f (take n (ready_ids (fw_worker f)))"

subsection \<open>The reconcile pass\<close>

definition reap_logins :: "fleet_env \<Rightarrow> time \<Rightarrow> time \<Rightarrow> fleet \<Rightarrow> fleet" where
  "reap_logins env now cutoff f =
     (if answers env ''ExpireStaleLogins'' '''' (fw_reg f)
      then f\<lparr>fw_reg := snd (ExpireStaleLogins now cutoff staleLoginGrace (fw_reg f))\<rparr> else f)"

definition fence_one :: "fleet_env \<Rightarrow> time \<Rightarrow> fleet \<Rightarrow> ident \<Rightarrow> fleet" where
  "fence_one env now f sid =
     (if (case get (fw_worker f) sid of None \<Rightarrow> False | Some le \<Rightarrow> readyClient (le_ls le))
      then (case db_try env ''SetSessionOwner'' sid (fw_reg f)
                   (SetSessionOwner now sid (wk_id (fw_worker f)) (fw_reg f)) of
              Inl _ \<Rightarrow> f | Inr reg \<Rightarrow> f\<lparr>fw_reg := reg\<rparr>)
      else f\<lparr>fw_worker := delete sid (fw_worker f)\<rparr>)"

definition fence :: "fleet_env \<Rightarrow> time \<Rightarrow> time \<Rightarrow> fleet \<Rightarrow> fleet" where
  "fence env now cutoff f =
     (if answers env ''ForeignOwned'' '''' (fw_reg f)
      then foldl (fence_one env now) f
             (ForeignOwned (wk_id (fw_worker f)) (liveSessions (fw_worker f)) cutoff (fw_reg f))
      else f)"

definition adopt_one :: "fleet_env \<Rightarrow> time \<Rightarrow> fleet \<Rightarrow> Rehydratable \<Rightarrow> fleet" where
  "adopt_one env now f r =
     (if get (fw_worker f) (rh_id r) \<noteq> None \<or> \<not> retryReady now (rh_id r) (fw_worker f) then f
      else hydrateLogged env now f r)"

definition adopt :: "fleet_env \<Rightarrow> time \<Rightarrow> fleet \<Rightarrow> fleet" where
  "adopt env now f =
     (if answers env ''ListOwned'' '''' (fw_reg f)
      then foldl (adopt_one env now) f (ListOwned (wk_id (fw_worker f)) (fw_reg f)) else f)"

definition claim_one :: "fleet_env \<Rightarrow> time \<Rightarrow> fleet \<Rightarrow> Rehydratable \<Rightarrow> fleet" where
  "claim_one env now f r = (if \<not> retryReady now (rh_id r) (fw_worker f) then f else hydrateLogged env now f r)"

text \<open>The fair share: the authorized sessions over the live workers, rounded up.\<close>

definition fair_share :: "nat \<Rightarrow> nat \<Rightarrow> nat" where
  "fair_share allN live = (let n = (if live < 1 then 1 else live) in (allN + n - 1) div n)"

definition claim_limit :: "nat \<Rightarrow> nat \<Rightarrow> nat \<Rightarrow> int \<Rightarrow> int" where
  "claim_limit share mine heldN capacity =
     (let l1 = int share - int mine; l2 = (if claimBatch < l1 then claimBatch else l1)
      in if capacity - int heldN < l2 then capacity - int heldN else l2)"

text \<open>\<open>locked\<close>: the rows other claims in flight have locked.\<close>

definition balance :: "fleet_env \<Rightarrow> ident list \<Rightarrow> time \<Rightarrow> time \<Rightarrow> fleet \<Rightarrow> fleet" where
  "balance env locked now cutoff f =
     (if \<not> answers env ''WorkerLoad'' '''' (fw_reg f) then f
      else (case WorkerLoad (wk_id (fw_worker f)) cutoff (fw_reg f) of
        (mine, allN, live) \<Rightarrow>
          (let share = fair_share allN live; heldN = length (wk_live (fw_worker f)) in
           if share < mine then shed env now (min (mine - share) shedPerTick) f
           else if mine < share \<and> int heldN < wk_capacity (fw_worker f)
           then (let lim = claim_limit share mine heldN (wk_capacity (fw_worker f)) in
                 if lim \<le> 0 \<or> \<not> answers env ''ClaimOrphans'' '''' (fw_reg f) then f
                 else (case ClaimOrphans locked now (wk_id (fw_worker f)) cutoff (nat lim) (fw_reg f) of
                         (rows, reg) \<Rightarrow> foldl (claim_one env now) (f\<lparr>fw_reg := reg\<rparr>) rows))
           else f)))"

definition reconcile :: "fleet_env \<Rightarrow> ident list \<Rightarrow> time \<Rightarrow> fleet \<Rightarrow> fleet" where
  "reconcile env locked now f =
     (if wk_stopping (fw_worker f) then f
      else (let cutoff = now - workerStale
            in balance env locked now cutoff
                 (adopt env now (fence env now cutoff (reap_logins env now cutoff f)))))"

text \<open>The heartbeat and the first registration of a worker.\<close>

definition runHeartbeat :: "fleet_env \<Rightarrow> time \<Rightarrow> fleet \<Rightarrow> fleet" where
  "runHeartbeat env now f =
     (if wk_stopping (fw_worker f) \<or> \<not> answers env ''RegisterWorker'' '''' (fw_reg f) then f
      else f\<lparr>fw_reg := RegisterWorker now (wk_id (fw_worker f)) (wk_addr (fw_worker f)) (fw_reg f)\<rparr>)"

definition NewManager :: "fleet_env \<Rightarrow> time \<Rightarrow> string \<Rightarrow> ident \<Rightarrow> string \<Rightarrow> int \<Rightarrow> registry \<Rightarrow> fleet" where
  "NewManager env now dataDir workerID selfAddr capacity reg =
     runHeartbeat env now
       \<lparr>fw_worker = \<lparr>wk_id = workerID, wk_addr = selfAddr, wk_dataDir = dataDir, wk_capacity = capacity, wk_live = [],
          wk_retry = [], wk_outbox = [], wk_sends = [], wk_pending = [], wk_stopping = False, wk_jobs = []\<rparr>,
        fw_reg = reg, fw_closed = []\<rparr>"

subsection \<open>Shutdown\<close>

text \<open>
  An aborted login unwinds by itself and ends as canceled; \<open>fe_unwinds\<close> says whether it does so within the
  wait.
\<close>

definition await_login :: "fleet_env \<Rightarrow> time \<Rightarrow> ident \<Rightarrow> fleet \<Rightarrow> fleet" where
  "await_login env now sid f =
     (case get (fw_worker f) sid of
        None \<Rightarrow> f
      | Some le \<Rightarrow>
          (case abortLogin (le_ls le) of
             (False, _) \<Rightarrow> f
           | (True, ls) \<Rightarrow>
               (case (if fe_unwinds env sid
                      then (case failLogin (fe_dbt env) now ELoginCanceled (ls, fw_reg f) of
                              (ls', reg') \<Rightarrow> (ls'\<lparr>ls_loginDone := Some True\<rparr>, reg'))
                      else (ls, fw_reg f)) of
                  (ls1, reg1) \<Rightarrow>
                    f\<lparr>fw_worker := update_live sid (\<lambda>le. le\<lparr>le_ls := ls1\<rparr>) (fw_worker f), fw_reg := reg1\<rparr>)))"

definition close_ready :: "fleet \<Rightarrow> ident \<Rightarrow> fleet" where
  "close_ready f sid =
     (case get (fw_worker f) sid of
        None \<Rightarrow> f
      | Some le \<Rightarrow>
          if readyClient (le_ls le)
          then (close_held sid le f)\<lparr>fw_worker := update_live sid (\<lambda>le. le\<lparr>le_td := closeClient (le_td le)\<rparr>) (fw_worker f)\<rparr>
          else f)"

definition Shutdown :: "fleet_env \<Rightarrow> time \<Rightarrow> fleet \<Rightarrow> fleet" where
  "Shutdown env now f =
     (let f0 = f\<lparr>fw_worker := (fw_worker f)\<lparr>wk_stopping := True\<rparr>\<rparr>;
          ready = ready_ids (fw_worker f0);
          waiting = filter (\<lambda>sid. sid \<notin> set ready) (liveSessions (fw_worker f0));
          f1 = foldl (\<lambda>f sid. await_login env now sid f) f0 waiting;
          f2 = foldl close_ready f1 ready;
          f3 = (if answers env ''ReleaseSessions'' '''' (fw_reg f2)
                then f2\<lparr>fw_reg := snd (ReleaseSessions now (wk_id (fw_worker f2)) (fw_reg f2))\<rparr> else f2)
      in if answers env ''DeregisterWorker'' '''' (fw_reg f3)
         then f3\<lparr>fw_reg := DeregisterWorker (wk_id (fw_worker f3)) (fw_reg f3)\<rparr> else f3)"


subsection \<open>What a worker owns\<close>

definition own_ids :: "ident \<Rightarrow> registry \<Rightarrow> ident set" where
  "own_ids w reg = s_id ` set (owned_authorized w reg)"

lemma own_ids_count: "keys_ok reg \<Longrightarrow> length (owned_authorized w reg) = card (own_ids w reg)"
proof -
  assume "keys_ok reg"
  then have "distinct (map s_id (owned_authorized w reg))"
    unfolding keys_ok_def owned_authorized_def by (rule distinct_map_filter)
  then show ?thesis using distinct_card [of "map s_id (owned_authorized w reg)"] by (simp add: own_ids_def)
qed

lemma own_ids_finite [simp]: "finite (own_ids w reg)"
  by (simp add: own_ids_def)

lemma own_ids_mem:
  "x \<in> own_ids w reg \<longleftrightarrow>
   list_ex (\<lambda>s. s_id s = x \<and> s_worker s = Some w \<and> s_status s = ''authorized'') (sessions reg)"
  by (auto simp: own_ids_def owned_authorized_def list_ex_iff)

lemma own_ids_set_owner:
  "x \<in> own_ids w (set_owner now v P reg) \<longleftrightarrow>
   list_ex (\<lambda>s. s_id s = x \<and> (if P s then v else s_worker s) = Some w \<and> s_status s = ''authorized'') (sessions reg)"
proof -
  have "list_ex (\<lambda>s. s_id s = x \<and> s_worker s = Some w \<and> s_status s = ''authorized'')
          (map (\<lambda>s. if P s then s\<lparr>s_worker := v, s_updated := now\<rparr> else s) xs)
        = list_ex (\<lambda>s. s_id s = x \<and> (if P s then v else s_worker s) = Some w \<and> s_status s = ''authorized'') xs" for xs
    by (induction xs) auto
  then show ?thesis unfolding own_ids_mem by (simp add: set_owner_def)
qed

lemma own_ids_release:
  "own_ids w (set_owner now None (\<lambda>s. s_id s = sid) reg) = own_ids w reg - {sid}"
proof (rule set_eqI)
  fix x
  show "x \<in> own_ids w (set_owner now None (\<lambda>s. s_id s = sid) reg) \<longleftrightarrow> x \<in> own_ids w reg - {sid}"
  proof (cases "x = sid")
    case True
    then show ?thesis unfolding own_ids_set_owner by (simp add: list_ex_iff)
  next
    case False
    then show ?thesis unfolding own_ids_set_owner unfolding Diff_iff own_ids_mem list_ex_iff by auto
  qed
qed

lemma own_ids_persist:
  "own_ids w (persist now sid st reg) \<subseteq> own_ids w reg \<union> (if st = ''authorized'' then {sid} else {})"
  by (auto simp: own_ids_def owned_authorized_def persist_def UpdateSessionStatus_def update_session_def split: if_splits)

lemma keys_ok_frame [simp]:
  "keys_ok (set_owner now v P reg) = keys_ok reg"
  "keys_ok (persist now sid st reg) = keys_ok reg"
  by (simp_all add: keys_ok_def persist_def UpdateSessionStatus_def)

lemma own_ids_ClaimOrphans:
  assumes "keys_ok reg" and "ClaimOrphans locked now w cutoff lim reg = (rows, reg')"
  shows "own_ids w reg' = own_ids w reg \<union> rh_id ` set rows" and "length rows \<le> lim" and "keys_ok reg'"
proof -
  define claim where "claim = take lim
    (sort_key s_updated (filter (\<lambda>s. orphan cutoff reg s \<and> s_id s \<notin> set locked) (sessions reg)))"
  have rows: "rows = map rehydratable claim" and reg': "reg' = set_owner now (Some w) (\<lambda>s. s_id s \<in> s_id ` set claim) reg"
    using assms(2) by (simp_all add: ClaimOrphans_def Let_def claim_def)
  have auth: "s \<in> set (sessions reg) \<and> s_status s = ''authorized''" if "s \<in> set claim" for s
    using in_set_takeD [OF that [unfolded claim_def]] by (simp add: orphan_def has_binlog_def)
  have ids: "rh_id ` set rows = s_id ` set claim" by (simp add: rows rehydratable_def image_image)
  show "own_ids w reg' = own_ids w reg \<union> rh_id ` set rows"
  proof (rule set_eqI)
    fix x
    show "x \<in> own_ids w reg' \<longleftrightarrow> x \<in> own_ids w reg \<union> rh_id ` set rows"
    proof (cases "x \<in> s_id ` set claim")
      case True
      then obtain s where "s \<in> set claim" "s_id s = x" by blast
      then show ?thesis using auth True unfolding ids reg' own_ids_set_owner list_ex_iff by auto
    next
      case False
      then show ?thesis unfolding ids reg' own_ids_set_owner by (auto simp: own_ids_mem list_ex_iff)
    qed
  qed
  show "length rows \<le> lim" by (simp add: rows claim_def)
  show "keys_ok reg'" using assms(1) by (simp add: reg')
qed

lemma rehydrateOne_bounds:
  assumes "rehydrateOne env now r (wk, reg) = (e, wk', reg')"
  shows "length (wk_live wk') \<le> length (wk_live wk) + 1" and "wk_id wk' = wk_id wk" and "wk_capacity wk' = wk_capacity wk"
    and "own_ids w reg' \<subseteq> own_ids w reg \<union> {rh_id r}" and "keys_ok reg' = keys_ok reg"
proof -
  have put_len: "length (wk_live (put le x)) \<le> length (wk_live x) + 1" for le x
  proof -
    have "length (AList.update k le xs) \<le> length xs + 1" for k and xs :: "(ident \<times> live_entry) list"
      by (induction xs) auto
    then show ?thesis by (simp add: put_def)
  qed
  have len: "length (wk_live (update_live k g x)) = length (wk_live x)" "length (wk_live (delete k x)) \<le> length (wk_live x)"
    "length (wk_live (clearRetry k x)) = length (wk_live x)" "length (wk_live (backoff now k x)) = length (wk_live x)"
    "length (wk_live (syncSubscriptions ids rg x)) = length (wk_live x)" for k g x ids rg
    by (auto simp: update_live_def delete_def clearRetry_def backoff_def syncSubscriptions_def split: sum.splits)
  have frame: "wk_id (update_live k g x) = wk_id x" "wk_id (delete k x) = wk_id x" "wk_id (clearRetry k x) = wk_id x"
    "wk_id (backoff now k x) = wk_id x" "wk_id (syncSubscriptions ids rg x) = wk_id x" "wk_id (put le x) = wk_id x"
    "wk_capacity (update_live k g x) = wk_capacity x" "wk_capacity (delete k x) = wk_capacity x"
    "wk_capacity (clearRetry k x) = wk_capacity x" "wk_capacity (backoff now k x) = wk_capacity x"
    "wk_capacity (syncSubscriptions ids rg x) = wk_capacity x" "wk_capacity (put le x) = wk_capacity x" for k g x ids le rg
    by (auto simp: update_live_def delete_def clearRetry_def backoff_def syncSubscriptions_def put_def split: sum.splits)
  have reg: "reg' = reg \<or> (\<exists>st. reg' = persist now (rh_id r) st reg)"
    using assms by (auto simp: rehydrateOne_def setClient_def setStatus_def newLiveSession_def Let_def
        split: sum.splits prod.splits if_splits)
  have del: "length (wk_live x) \<le> n \<Longrightarrow> length (wk_live (delete k x)) \<le> n" for k x n
    using len(2) [of k x] by simp
  let ?new = "put (new_entry (rh_id r) (rh_kind r) False no_client) wk"
  have "wk' = wk \<or> length (wk_live wk') \<le> length (wk_live ?new)"
    using assms by (auto simp: rehydrateOne_def Let_def len(1,3-5) split: sum.splits prod.splits if_splits intro!: del)
  then show "length (wk_live wk') \<le> length (wk_live wk) + 1" using put_len by (metis le_add1 order_trans)
  show "wk_id wk' = wk_id wk" "wk_capacity wk' = wk_capacity wk"
    using assms frame by (auto simp: rehydrateOne_def Let_def split: sum.splits prod.splits if_splits)
  show "own_ids w reg' \<subseteq> own_ids w reg \<union> {rh_id r}" proof (cases "reg' = reg")
    case False
    then obtain st where "reg' = persist now (rh_id r) st reg" using reg by blast
    then show ?thesis using own_ids_persist [of w now "rh_id r" st reg] by (auto split: if_splits)
  qed auto
  show "keys_ok reg' = keys_ok reg" using reg by auto
qed


text \<open>What a step keeps: who this worker is, the keys of the registry, and bounds on what it owns and holds.\<close>

definition same_worker :: "fleet \<Rightarrow> fleet \<Rightarrow> bool" where
  "same_worker f f' \<longleftrightarrow>
     wk_id (fw_worker f') = wk_id (fw_worker f) \<and> wk_capacity (fw_worker f') = wk_capacity (fw_worker f)
     \<and> (keys_ok (fw_reg f) \<longrightarrow> keys_ok (fw_reg f'))"

definition mine :: "fleet \<Rightarrow> nat" where
  "mine f = length (owned_authorized (wk_id (fw_worker f)) (fw_reg f))"

definition held :: "fleet \<Rightarrow> nat" where
  "held f = length (wk_live (fw_worker f))"

lemma same_worker_trans: "same_worker f g \<Longrightarrow> same_worker g h \<Longrightarrow> same_worker f h"
  by (simp add: same_worker_def)

lemma mine_card: "keys_ok (fw_reg f) \<Longrightarrow> mine f = card (own_ids (wk_id (fw_worker f)) (fw_reg f))"
  by (simp add: mine_def own_ids_count)

lemma delete_id [simp]: "wk_id (delete k wk) = wk_id wk" "wk_capacity (delete k wk) = wk_capacity wk"
  by (simp_all add: delete_def)

lemma shed_one_bounds:
  assumes "keys_ok (fw_reg f)"
  shows "same_worker f (shed_one env now f sid)" "held (shed_one env now f sid) \<le> held f"
    and "mine f \<le> mine (shed_one env now f sid) + 1" "mine (shed_one env now f sid) \<le> mine f"
proof -
  let ?f' = "shed_one env now f sid"
  have w: "fw_worker ?f' = delete sid (fw_worker f)"
    by (auto simp: shed_one_def close_held_def Let_def split: option.splits sum.splits)
  have r: "fw_reg ?f' = fw_reg f \<or> fw_reg ?f' = set_owner now None (\<lambda>s. s_id s = sid) (fw_reg f)"
    by (auto simp: shed_one_def close_held_def Let_def db_try_def ReleaseSession_def uuid_arg_def
        split: option.splits sum.splits if_splits)
  then show s: "same_worker f ?f'" using w by (auto simp: same_worker_def)
  show "held ?f' \<le> held f" by (simp add: held_def w delete_def)
  have k: "keys_ok (fw_reg ?f')" using s assms by (simp add: same_worker_def)
  define A where "A = own_ids (wk_id (fw_worker f)) (fw_reg f)"
  define B where "B = own_ids (wk_id (fw_worker f)) (fw_reg ?f')"
  have "B = A \<or> B = A - {sid}" using r own_ids_release unfolding A_def B_def by metis
  moreover have "card A \<le> card (A - {sid}) + 1" "card (A - {sid}) \<le> card A"
    by (auto simp: card_Diff_singleton_if)
  moreover have "mine f = card A" "mine ?f' = card B"
    by (simp_all add: mine_card assms k w A_def B_def)
  ultimately show "mine f \<le> mine ?f' + 1" "mine ?f' \<le> mine f" by auto
qed

lemma shed_loop_bounds:
  assumes "keys_ok (fw_reg f)"
  shows "mine f \<le> mine (foldl (shed_one env now) f ids) + length ids
    \<and> mine (foldl (shed_one env now) f ids) \<le> mine f
    \<and> held (foldl (shed_one env now) f ids) \<le> held f"
  using assms
proof (induction ids arbitrary: f)
  case (Cons sid ids)
  note b = shed_one_bounds [OF Cons.prems, of env now sid]
  have "keys_ok (fw_reg (shed_one env now f sid))" using b(1) Cons.prems by (simp add: same_worker_def)
  from Cons.IH [OF this] b show ?case by simp
qed simp

lemma claim_one_bounds:
  shows "same_worker f (claim_one env now f r)" "held (claim_one env now f r) \<le> held f + 1"
    and "rh_id r \<in> own_ids (wk_id (fw_worker f)) M \<Longrightarrow>
      own_ids (wk_id (fw_worker f)) (fw_reg f) \<subseteq> own_ids (wk_id (fw_worker f)) M \<Longrightarrow>
      own_ids (wk_id (fw_worker f)) (fw_reg (claim_one env now f r)) \<subseteq> own_ids (wk_id (fw_worker f)) M"
proof -
  obtain e wk reg where h: "rehydrateOne env now r (fw_worker f, fw_reg f) = (e, wk, reg)"
    by (cases "rehydrateOne env now r (fw_worker f, fw_reg f)")
  note b = rehydrateOne_bounds [OF h]
  show "same_worker f (claim_one env now f r)"
    using b by (auto simp: claim_one_def hydrateLogged_def h same_worker_def)
  show "held (claim_one env now f r) \<le> held f + 1"
    using b(1) by (auto simp: claim_one_def hydrateLogged_def h held_def)
  show "rh_id r \<in> own_ids (wk_id (fw_worker f)) M \<Longrightarrow>
      own_ids (wk_id (fw_worker f)) (fw_reg f) \<subseteq> own_ids (wk_id (fw_worker f)) M \<Longrightarrow>
      own_ids (wk_id (fw_worker f)) (fw_reg (claim_one env now f r)) \<subseteq> own_ids (wk_id (fw_worker f)) M"
    using b(4) by (auto simp: claim_one_def hydrateLogged_def h)
qed

lemma claim_loop_bounds:
  assumes "rh_id ` set rows \<subseteq> own_ids (wk_id (fw_worker f)) M"
    and "own_ids (wk_id (fw_worker f)) (fw_reg f) \<subseteq> own_ids (wk_id (fw_worker f)) M"
  shows "same_worker f (foldl (claim_one env now) f rows)
    \<and> held (foldl (claim_one env now) f rows) \<le> held f + length rows
    \<and> own_ids (wk_id (fw_worker f)) (fw_reg (foldl (claim_one env now) f rows)) \<subseteq> own_ids (wk_id (fw_worker f)) M"
  using assms
proof (induction rows arbitrary: f)
  case Nil
  then show ?case by (simp add: same_worker_def)
next
  case (Cons r rows)
  let ?g = "claim_one env now f r"
  note b = claim_one_bounds(1,2) [where env = env and now = now and r = r and f = f]
  have w: "wk_id (fw_worker ?g) = wk_id (fw_worker f)" using b(1) by (simp add: same_worker_def)
  have "own_ids (wk_id (fw_worker f)) (fw_reg ?g) \<subseteq> own_ids (wk_id (fw_worker f)) M"
    using claim_one_bounds(3) [where env = env and now = now and r = r and f = f and M = M] Cons.prems by simp
  then have "same_worker ?g (foldl (claim_one env now) ?g rows)
    \<and> held (foldl (claim_one env now) ?g rows) \<le> held ?g + length rows
    \<and> own_ids (wk_id (fw_worker f)) (fw_reg (foldl (claim_one env now) ?g rows)) \<subseteq> own_ids (wk_id (fw_worker f)) M"
    using Cons.IH [of ?g] Cons.prems w by simp
  then show ?case using b(1,2) same_worker_trans by fastforce
qed


definition share_now :: "time \<Rightarrow> fleet \<Rightarrow> nat" where
  "share_now cutoff f =
     (case WorkerLoad (wk_id (fw_worker f)) cutoff (fw_reg f) of (_, allN, live) \<Rightarrow> fair_share allN live)"



definition no_failures :: "fleet_env \<Rightarrow> registry \<Rightarrow> bool" where
  "no_failures env reg \<longleftrightarrow> db_up reg \<and> (\<forall>stmt sid. \<not> fe_fails env stmt sid) \<and> list_all (is_uuid reg) (map s_id (sessions reg))"

lemma no_failures_set_owner [simp]: "no_failures env (set_owner now v P reg) = no_failures env reg"
  unfolding no_failures_def set_owner_frame by (rule refl)

lemma answers_always: "no_failures env reg \<Longrightarrow> answers env stmt sid reg"
  by (simp add: answers_def no_failures_def)

text \<open>A session held by this worker that the registry gives to a live peer.\<close>

definition foreign_held :: "time \<Rightarrow> ident \<Rightarrow> fleet \<Rightarrow> bool" where
  "foreign_held cutoff sid f \<longleftrightarrow>
     sid \<in> set (liveSessions (fw_worker f))
     \<and> (case owner (fw_reg f) sid of
          None \<Rightarrow> False
        | Some v \<Rightarrow> v \<noteq> wk_id (fw_worker f) \<and> live_worker cutoff v (fw_reg f))"

definition held_ready :: "ident \<Rightarrow> fleet \<Rightarrow> bool" where
  "held_ready sid f \<longleftrightarrow> (case get (fw_worker f) sid of None \<Rightarrow> False | Some le \<Rightarrow> readyClient (le_ls le))"

lemma delete_live [simp]:
  "liveSessions (delete k wk) = filter (\<lambda>i. i \<noteq> k) (liveSessions wk)"
  "get (delete k wk) sid = (if sid = k then None else get wk sid)"
proof -
  have "map fst (filter (\<lambda>(i, _). i \<noteq> k) xs) = filter (\<lambda>i. i \<noteq> k) (map fst xs)" for xs :: "(ident \<times> live_entry) list"
    by (induction xs) auto
  then show "liveSessions (delete k wk) = filter (\<lambda>i. i \<noteq> k) (liveSessions wk)"
    by (simp add: liveSessions_def delete_def)
  show "get (delete k wk) sid = (if sid = k then None else get wk sid)"
    using map_of_filter_key [of "\<lambda>i. i \<noteq> k" "wk_live wk" sid] by (simp add: get_def delete_def)
qed

lemma fence_one_step:
  assumes "keys_ok (fw_reg f)" "no_failures env (fw_reg f)" "session_by_id sid (fw_reg f) \<noteq> None"
  shows "foreign_held c x (fence_one env now f sid) \<longleftrightarrow> foreign_held c x f \<and> x \<noteq> sid"
    and "held_ready x (fence_one env now f sid) = held_ready x f"
    and "keys_ok (fw_reg (fence_one env now f sid))" "no_failures env (fw_reg (fence_one env now f sid))"
    and "(session_by_id y (fw_reg (fence_one env now f sid)) = None) = (session_by_id y (fw_reg f) = None)"
proof -
  have "is_uuid (fw_reg f) sid" using assms(2,3) by (auto simp: no_failures_def list_all_iff dest: session_by_id_SomeD)
  then have step: "fence_one env now f sid =
      (if held_ready sid f
       then f\<lparr>fw_reg := set_owner now (Some (wk_id (fw_worker f))) (\<lambda>s. s_id s = sid) (fw_reg f)\<rparr>
       else f\<lparr>fw_worker := delete sid (fw_worker f)\<rparr>)"
    using answers_always [OF assms(2)]
    by (simp add: fence_one_def held_ready_def db_try_def SetSessionOwner_def uuid_arg_def)
  have owner': "owner (set_owner now v (\<lambda>s. s_id s = sid) (fw_reg f)) x
      = (if x = sid then v else owner (fw_reg f) x)" for v
    using assms(3) session_by_id_SomeD
    by (fastforce simp: owner_def session_by_id_set_owner [OF assms(1)] split: option.splits)
  show "foreign_held c x (fence_one env now f sid) \<longleftrightarrow> foreign_held c x f \<and> x \<noteq> sid"
    by (cases "held_ready sid f") (auto simp: step foreign_held_def owner' split: option.splits)
  show "held_ready x (fence_one env now f sid) = held_ready x f"
    by (auto simp: step held_ready_def)
  show "keys_ok (fw_reg (fence_one env now f sid))" "no_failures env (fw_reg (fence_one env now f sid))"
    using assms(1,2) by (simp_all add: step)
  show "(session_by_id y (fw_reg (fence_one env now f sid)) = None) = (session_by_id y (fw_reg f) = None)"
    by (simp add: step session_by_id_set_owner [OF assms(1)])
qed

lemma fence_loop:
  assumes "keys_ok (fw_reg f)" "no_failures env (fw_reg f)" "\<forall>sid \<in> set ids. session_by_id sid (fw_reg f) \<noteq> None"
  shows "(foreign_held c x (foldl (fence_one env now) f ids) \<longleftrightarrow> foreign_held c x f \<and> x \<notin> set ids)
    \<and> held_ready x (foldl (fence_one env now) f ids) = held_ready x f"
  using assms
proof (induction ids arbitrary: f)
  case (Cons sid ids)
  have s: "session_by_id sid (fw_reg f) \<noteq> None" using Cons.prems(3) by simp
  note st = fence_one_step [OF Cons.prems(1,2) s, where now = now]
  have "\<forall>y \<in> set ids. session_by_id y (fw_reg (fence_one env now f sid)) \<noteq> None"
    using Cons.prems(3) st(5) by simp
  from Cons.IH [OF st(3,4) this] show ?case by (auto simp: st(1,2))
qed simp

text \<open>C13: fencing settles every dispute. After the step this worker holds no session that the registry
  gives to a live peer, and it has kept every session for which it has a working client: those it has
  taken back, the others it has dropped.\<close>

theorem fencing_settles_ownership:
  assumes "keys_ok (fw_reg f)" and "no_failures env (fw_reg f)"
  shows "\<not> foreign_held cutoff sid (fence env now cutoff f)
    \<and> held_ready sid (fence env now cutoff f) = held_ready sid f"
proof -
  let ?ids = "ForeignOwned (wk_id (fw_worker f)) (liveSessions (fw_worker f)) cutoff (fw_reg f)"
  have e: "\<forall>x \<in> set ?ids. session_by_id x (fw_reg f) \<noteq> None"
    using session_by_id_unique [OF assms(1)] by (auto simp: ForeignOwned_def)
  have "x \<in> set ?ids" if "foreign_held cutoff x f" for x
    using that by (force simp: foreign_held_def ForeignOwned_def owner_def split: option.splits dest: session_by_id_SomeD)
  then show ?thesis
    using fence_loop [OF assms e, of cutoff sid now] answers_always [OF assms(2)] by (auto simp: fence_def)
qed


subsection \<open>What a shutdown leaves behind\<close>

definition asked_to_close :: "ident \<Rightarrow> fleet \<Rightarrow> bool" where
  "asked_to_close sid f \<longleftrightarrow>
     (\<exists>(k, td) \<in> set (fw_closed f). k = sid \<and> (\<exists>q \<in> set (td_log td). obj_get q ''@type'' = Some (JStr ''close'')))"

lemma closeClient_asks: "\<exists>q \<in> set (td_log (closeClient td)). obj_get q ''@type'' = Some (JStr ''close'')"
proof -
  let ?q = "MarshalJSON \<lparr>rq_method = ''close'', rq_params = [], rq_extra = td_extra td (length (td_log td))\<rparr>"
  have "td_log (closeClient td) = td_log td @ [?q]"
    by (auto simp: closeClient_def td_Call_def request_params_def td_send_def Let_def split: sum.splits prod.splits)
  moreover have "obj_get ?q ''@type'' = Some (JStr ''close'')" by (simp add: MarshalJSON_type)
  ultimately show ?thesis by auto
qed

lemma close_ready_step:
  "asked_to_close x f \<or> (x = sid \<and> held_ready sid f) \<Longrightarrow> asked_to_close x (close_ready f sid)"
  using closeClient_asks
  by (fastforce simp: close_ready_def held_ready_def asked_to_close_def close_held_def split: option.splits)

lemma close_ready_frame:
  "fw_reg (close_ready f sid) = fw_reg f" "held_ready x (close_ready f sid) = held_ready x f"
  "wk_id (fw_worker (close_ready f sid)) = wk_id (fw_worker f)"
  by (auto simp: close_ready_def close_held_def held_ready_def update_live_def [of _ _ "fw_worker f"]
      get_update_live [unfolded update_live_def] split: option.splits)

lemma close_loop:
  "fw_reg (foldl close_ready f ids) = fw_reg f" "wk_id (fw_worker (foldl close_ready f ids)) = wk_id (fw_worker f)"
  "asked_to_close x f \<or> (x \<in> set ids \<and> held_ready x f) \<Longrightarrow> asked_to_close x (foldl close_ready f ids)"
proof -
  show "fw_reg (foldl close_ready f ids) = fw_reg f" "wk_id (fw_worker (foldl close_ready f ids)) = wk_id (fw_worker f)"
    by (induction ids arbitrary: f) (auto simp: close_ready_frame)
  show "asked_to_close x f \<or> (x \<in> set ids \<and> held_ready x f) \<Longrightarrow> asked_to_close x (foldl close_ready f ids)"
  proof (induction ids arbitrary: f)
    case (Cons sid ids)
    then have "asked_to_close x (close_ready f sid) \<or> (x \<in> set ids \<and> held_ready x (close_ready f sid))"
      using close_ready_step by (auto simp: close_ready_frame)
    then show ?case using Cons.IH by simp
  qed simp
qed

lemma persist_session:
  "session_by_id x (persist now sid st reg)
   = (if x = sid \<and> db_up reg \<and> is_uuid reg sid
      then map_option (\<lambda>s. s\<lparr>s_status := st, s_updated := now\<rparr>) (session_by_id x reg) else session_by_id x reg)"
  by (auto simp: persist_def UpdateSessionStatus_def session_by_id_update)

text \<open>The live map is keyed by the sessions' own ids.\<close>

definition keyed :: "worker \<Rightarrow> bool" where
  "keyed wk = list_all (\<lambda>(k, le). ls_id (le_ls le) = k) (wk_live wk)"

lemma abort_fields:
  "abortLogin s = (b, s') \<Longrightarrow> ls_id s' = ls_id s"
  "failLogin dbt now e (s, reg) = (s', reg') \<Longrightarrow>
     ls_id s' = ls_id s \<and> (reg' = reg \<or> (\<exists>st. reg' = persist now (ls_id s) st reg))"
  by (auto simp: abortLogin_def failLogin_def setStatus_def Let_def split: if_splits)

lemma await_login_effect:
  assumes "keyed (fw_worker f)"
  obtains "await_login env now sid f = f"
  | ls reg where "await_login env now sid f
        = f\<lparr>fw_worker := update_live sid (\<lambda>le. le\<lparr>le_ls := ls\<rparr>) (fw_worker f), fw_reg := reg\<rparr>"
      "ls_id ls = sid" "reg = fw_reg f \<or> (\<exists>st. reg = persist now sid st (fw_reg f))"
proof (cases "get (fw_worker f) sid")
  case None
  then show ?thesis using that(1) by (simp add: await_login_def)
next
  case (Some le)
  have sid: "ls_id (le_ls le) = sid" using assms get_mem [OF Some] by (auto simp: keyed_def list_all_iff)
  obtain b s where a: "abortLogin (le_ls le) = (b, s)" by (cases "abortLogin (le_ls le)")
  obtain s' reg' where f: "failLogin (fe_dbt env) now ELoginCanceled (s, fw_reg f) = (s', reg')"
    by (cases "failLogin (fe_dbt env) now ELoginCanceled (s, fw_reg f)")
  show ?thesis
  proof (cases b)
    case False
    then show ?thesis using that(1) Some a by (simp add: await_login_def)
  next
    case True
    then show ?thesis
      using that(2) [where ls = "if fe_unwinds env sid then s'\<lparr>ls_loginDone := Some True\<rparr> else s"
          and reg = "if fe_unwinds env sid then reg' else fw_reg f"]
        Some a f sid abort_fields(1) [OF a] abort_fields(2) [OF f]
      by (auto simp: await_login_def)
  qed
qed

lemma await_login_frame:
  assumes "keyed (fw_worker f)"
  shows "keyed (fw_worker (await_login env now sid f))"
    and "wk_id (fw_worker (await_login env now sid f)) = wk_id (fw_worker f)"
    and "fw_closed (await_login env now sid f) = fw_closed f"
    and "no_failures env' (fw_reg (await_login env now sid f)) = no_failures env' (fw_reg f)"
    and "x \<noteq> sid \<Longrightarrow> held_ready x (await_login env now sid f) = held_ready x f
        \<and> session_by_id x (fw_reg (await_login env now sid f)) = session_by_id x (fw_reg f)"
proof -
  have p: "no_failures env' (persist now k st rg) = no_failures env' rg" for k st rg
  proof -
    have "map s_id (sessions (persist now k st rg)) = map s_id (sessions rg)" "is_uuid (persist now k st rg) = is_uuid rg"
      "db_up (persist now k st rg) = db_up rg"
      by (simp_all add: persist_def UpdateSessionStatus_def)
    then show ?thesis unfolding no_failures_def by simp
  qed
  have "keyed (fw_worker (await_login env now sid f)) \<and> wk_id (fw_worker (await_login env now sid f)) = wk_id (fw_worker f)
    \<and> fw_closed (await_login env now sid f) = fw_closed f
    \<and> no_failures env' (fw_reg (await_login env now sid f)) = no_failures env' (fw_reg f)
    \<and> (x \<noteq> sid \<longrightarrow> held_ready x (await_login env now sid f) = held_ready x f
        \<and> session_by_id x (fw_reg (await_login env now sid f)) = session_by_id x (fw_reg f))"
  proof (cases rule: await_login_effect [OF assms, where env = env and now = now and sid = sid])
    case (2 ls reg)
    have "keyed (update_live sid (\<lambda>le. le\<lparr>le_ls := ls\<rparr>) (fw_worker f))"
      using assms live_all_update [of "\<lambda>k le. ls_id (le_ls le) = k" "fw_worker f" sid] 2(2) by (simp add: keyed_def)
    moreover have "wk_id (update_live sid (\<lambda>le. le\<lparr>le_ls := ls\<rparr>) (fw_worker f)) = wk_id (fw_worker f)"
      by (simp add: update_live_def)
    ultimately show ?thesis using 2(3) p by (auto simp: 2(1) held_ready_def persist_session)
  qed (use assms in simp)
  then show "keyed (fw_worker (await_login env now sid f))"
    and "wk_id (fw_worker (await_login env now sid f)) = wk_id (fw_worker f)"
    and "fw_closed (await_login env now sid f) = fw_closed f"
    and "no_failures env' (fw_reg (await_login env now sid f)) = no_failures env' (fw_reg f)"
    and "x \<noteq> sid \<Longrightarrow> held_ready x (await_login env now sid f) = held_ready x f
        \<and> session_by_id x (fw_reg (await_login env now sid f)) = session_by_id x (fw_reg f)"
    by blast+
qed

lemma await_loop:
  assumes "keyed (fw_worker f)" and "x \<notin> set ids"
  shows "wk_id (fw_worker (foldl (\<lambda>f sid. await_login env now sid f) f ids)) = wk_id (fw_worker f)
    \<and> no_failures env' (fw_reg (foldl (\<lambda>f sid. await_login env now sid f) f ids)) = no_failures env' (fw_reg f)
    \<and> held_ready x (foldl (\<lambda>f sid. await_login env now sid f) f ids) = held_ready x f
    \<and> session_by_id x (fw_reg (foldl (\<lambda>f sid. await_login env now sid f) f ids)) = session_by_id x (fw_reg f)"
  using assms
proof (induction ids arbitrary: f)
  case (Cons sid ids)
  note fr = await_login_frame [OF Cons.prems(1), where env = env and now = now and sid = sid]
  then show ?case using Cons.IH [OF fr(1)] Cons.prems(2) by simp
qed simp

lemma ready_ids_get: "held_ready sid f \<Longrightarrow> sid \<in> set (ready_ids (fw_worker f))"
  by (force simp: held_ready_def ready_ids_def dest: get_mem split: option.splits)

text \<open>C14: a shutdown hands the sessions over at once. Of each authorized session of this worker that it held
  with a working client, the client has been asked to close, releasing its binlog, and the registry has it
  free for the next claim of any worker, however long the peers' idea of a stale owner is; the worker itself
  is gone from the registry.\<close>

theorem shutdown_hands_over:
  assumes "no_failures env (fw_reg f)" and "keyed (fw_worker f)" and "held_ready sid f"
    and "session_by_id sid (fw_reg f) = Some s" and "s_worker s = Some (wk_id (fw_worker f))" and "has_binlog s"
  shows "asked_to_close sid (Shutdown env now f)
    \<and> (\<exists>s'. session_by_id sid (fw_reg (Shutdown env now f)) = Some s' \<and> orphan cutoff (fw_reg (Shutdown env now f)) s')
    \<and> \<not> list_ex (\<lambda>r. w_id r = wk_id (fw_worker f)) (workers (fw_reg (Shutdown env now f)))"
proof -
  define f0 where "f0 = f\<lparr>fw_worker := (fw_worker f)\<lparr>wk_stopping := True\<rparr>\<rparr>"
  define ready where "ready = ready_ids (fw_worker f0)"
  define waiting where "waiting = filter (\<lambda>sid. sid \<notin> set ready) (liveSessions (fw_worker f0))"
  define f1 where "f1 = foldl (\<lambda>f sid. await_login env now sid f) f0 waiting"
  define f2 where "f2 = foldl close_ready f1 ready"
  let ?w = "wk_id (fw_worker f)"
  have f0: "held_ready sid f0" "keyed (fw_worker f0)" "wk_id (fw_worker f0) = ?w" "fw_reg f0 = fw_reg f"
    using assms(2,3) by (simp_all add: f0_def held_ready_def get_def keyed_def)
  have r: "sid \<in> set ready" using ready_ids_get [OF f0(1)] by (simp add: ready_def)
  then have "sid \<notin> set waiting" by (simp add: waiting_def)
  from await_loop [OF f0(2) this, where env = env and now = now and env' = env]
  have f1: "wk_id (fw_worker f1) = ?w" "no_failures env (fw_reg f1)" "held_ready sid f1"
    "session_by_id sid (fw_reg f1) = Some s"
    using f0 assms(1,4) by (simp_all add: f1_def)
  have f2: "wk_id (fw_worker f2) = ?w" "fw_reg f2 = fw_reg f1" "asked_to_close sid f2"
    using close_loop [where f = f1 and ids = ready] f1 r by (simp_all add: f2_def)
  let ?P = "\<lambda>s. s_worker s = Some ?w \<and> s_status s = ''authorized''"
  let ?reg = "set_owner now None ?P (fw_reg f1)"
  have a: "no_failures env ?reg" using f1(2) by simp
  have sd: "Shutdown env now f = f2\<lparr>fw_reg := DeregisterWorker ?w ?reg\<rparr>"
    unfolding Shutdown_def Let_def f0_def [symmetric] ready_def [symmetric] waiting_def [symmetric]
      f1_def [symmetric] f2_def [symmetric]
    using answers_always [OF f1(2)] answers_always [OF a] f2(1,2) by (simp add: ReleaseSessions_def)
  have "find (\<lambda>s. s_id s = sid) (map (\<lambda>s. if ?P s then s\<lparr>s_worker := None, s_updated := now\<rparr> else s) xs)
      = map_option (\<lambda>s. if ?P s then s\<lparr>s_worker := None, s_updated := now\<rparr> else s) (find (\<lambda>s. s_id s = sid) xs)"
    for xs :: "session_row list"
    by (induction xs) auto
  then have "session_by_id sid ?reg = Some (s\<lparr>s_worker := None, s_updated := now\<rparr>)"
    using f1(4) assms(5,6) by (simp add: session_by_id_def set_owner_def has_binlog_def)
  then have "session_by_id sid (DeregisterWorker ?w ?reg) = Some (s\<lparr>s_worker := None, s_updated := now\<rparr>)"
    by (simp add: DeregisterWorker_def session_by_id_def)
  moreover have "orphan cutoff (DeregisterWorker ?w ?reg) (s\<lparr>s_worker := None, s_updated := now\<rparr>)"
    using assms(6) by (simp add: orphan_def has_binlog_def)
  moreover have "asked_to_close sid (f2\<lparr>fw_reg := DeregisterWorker ?w ?reg\<rparr>)"
    using f2(3) by (simp add: asked_to_close_def)
  moreover have "\<not> list_ex (\<lambda>r. w_id r = ?w) (workers (DeregisterWorker ?w ?reg))"
    by (simp add: DeregisterWorker_def list_ex_iff)
  ultimately show ?thesis unfolding sd by simp
qed


subsection \<open>A fleet to try things on\<close>

definition sample_env :: fleet_env where
  "sample_env = \<lparr>fe_box = open_box, fe_newClient = (\<lambda>_ _ _. Inr silent_td), fe_option = (\<lambda>_. None), fe_dbt = (\<lambda>_. ''db''),
     fe_fails = (\<lambda>_ _. False), fe_unwinds = (\<lambda>_. True), fe_random = (\<lambda>_. Some (replicate 32 CHR ''r''))\<rparr>"

definition holding :: "ident \<Rightarrow> worker" where
  "holding sid = sample_worker\<lparr>wk_live := [(sid, (new_entry sid ''user'' False silent_td)
     \<lparr>le_ls := (newLiveSession sid ''user'' False)\<lparr>ls_status := ''authorized'', ls_cl := True\<rparr>\<rparr>)]\<rparr>"

definition sample_fleet :: "ident \<Rightarrow> fleet" where
  "sample_fleet owner_of_s1 = \<lparr>fw_worker = holding ''s1'',
     fw_reg = empty_registry\<lparr>sessions := [sample_session ''s1'' ''user'' ''authorized'' (Some owner_of_s1),
         sample_session ''s2'' ''user'' ''authorized'' (Some ''w1''), sample_session ''s3'' ''user'' ''authorized'' (Some ''w1'')],
       workers := [\<lparr>w_id = ''w1'', w_addr = ''http://w1'', w_seen = 90\<rparr>, \<lparr>w_id = ''w2'', w_addr = ''http://w2'', w_seen = 95\<rparr>]\<rparr>,
     fw_closed = []\<rparr>"

lemma sample_fleet_ok:
  "keys_ok (fw_reg (sample_fleet w))" "no_failures sample_env (fw_reg (sample_fleet w))"
  "keyed (fw_worker (sample_fleet w))" "held_ready ''s1'' (sample_fleet w)" "wk_id (fw_worker (sample_fleet w)) = ''w1''"
  "session_by_id ''s1'' (fw_reg (sample_fleet w)) = Some (sample_session ''s1'' ''user'' ''authorized'' (Some w))"
  by (simp_all add: sample_fleet_def keys_ok_def no_failures_def sample_env_def empty_registry_def sample_session_def
      keyed_def holding_def sample_worker_def new_entry_def newLiveSession_def held_ready_def get_def readyClient_def
      session_by_id_def)


theorem fencing_settles_ownership_witness:
  "foreign_held 70 ''s1'' (sample_fleet ''w2'') \<and> \<not> foreign_held 70 ''s1'' (fence sample_env 100 70 (sample_fleet ''w2''))"
proof
  show "foreign_held 70 ''s1'' (sample_fleet ''w2'')" by code_simp
  show "\<not> foreign_held 70 ''s1'' (fence sample_env 100 70 (sample_fleet ''w2''))"
    using fencing_settles_ownership [OF sample_fleet_ok(1,2), of 70 "''s1''" 100 "''w2''"] by simp
qed

theorem shutdown_hands_over_witness:
  "asked_to_close ''s1'' (Shutdown sample_env 100 (sample_fleet ''w1''))"
proof -
  have "has_binlog (sample_session ''s1'' ''user'' ''authorized'' (Some ''w1''))"
    by (simp add: has_binlog_def sample_session_def)
  moreover have "s_worker (sample_session ''s1'' ''user'' ''authorized'' (Some ''w1''))
      = Some (wk_id (fw_worker (sample_fleet ''w1'')))"
    by (simp add: sample_session_def sample_fleet_ok(5))
  ultimately show ?thesis
    using shutdown_hands_over [OF sample_fleet_ok(2-4,6), of "''w1''" 100] by blast
qed

end
