(* ===== verification/Lifecycle.thy ===== *)
theory Lifecycle
  imports Fleet
begin

section \<open>Making, changing and removing sessions; downloads\<close>

text \<open>
  The operations of \<^verbatim>\<open>session.Manager\<close> that the worker's API calls, besides \<^verbatim>\<open>Call\<close>. An operation that waits
  lets the rest of the worker go on: \<open>meanwhile\<close> is what happens to the worker and to the session it waits
  for, an argument. The data directories of the sessions are on a volume of their own.
\<close>

type_synonym elapse = "fleet \<times> live_entry \<Rightarrow> fleet \<times> live_entry"

definition on_session ::
  "ident \<Rightarrow> (liveSession \<times> registry \<Rightarrow> liveSession \<times> registry) \<Rightarrow> fleet \<Rightarrow> fleet" where
  "on_session sid g f =
     (case get (fw_worker f) sid of
        None \<Rightarrow> f
      | Some le \<Rightarrow>
          (case g (le_ls le, fw_reg f) of
             (ls, reg) \<Rightarrow> f\<lparr>fw_worker := update_live sid (\<lambda>le. le\<lparr>le_ls := ls\<rparr>) (fw_worker f), fw_reg := reg\<rparr>))"

definition on_client :: "ident \<Rightarrow> td_env \<Rightarrow> fleet \<Rightarrow> fleet" where
  "on_client sid td f = f\<lparr>fw_worker := update_live sid (\<lambda>le. le\<lparr>le_td := td\<rparr>) (fw_worker f)\<rparr>"

definition put_live :: "live_entry \<Rightarrow> fleet \<Rightarrow> fleet" where
  "put_live le f = f\<lparr>fw_worker := put le (fw_worker f)\<rparr>"

subsection \<open>New sessions\<close>

definition random32 :: "bytes option \<Rightarrow> err + bytes" where
  "random32 r = (case r of None \<Rightarrow> Inl (EMsg ''EOF'')
     | Some b \<Rightarrow> if length b < 32 then Inl (EMsg ''unexpected EOF'') else Inr (take 32 b))"

text \<open>The row, its directory and its owner; only the first has to succeed.\<close>

definition register_session ::
  "fleet_env \<Rightarrow> time \<Rightarrow> ident \<Rightarrow> new_session \<Rightarrow> fleet \<Rightarrow> err + (ident \<times> string \<times> fleet)" where
  "register_session env now newid n f =
     (case db_try env ''CreateSession'' newid (fw_reg f) (CreateSession newid now n (fw_reg f)) of
        Inl e \<Rightarrow> Inl e
      | Inr (sid, reg1) \<Rightarrow>
          (let dir = Join [wk_dataDir (fw_worker f), sid];
               reg2 = (case db_try env ''SetSessionDBDir'' sid reg1 (SetSessionDBDir now sid dir reg1) of
                         Inl _ \<Rightarrow> reg1 | Inr r \<Rightarrow> r);
               reg3 = (case db_try env ''SetSessionOwner'' sid reg2 (SetSessionOwner now sid (wk_id (fw_worker f)) reg2) of
                         Inl _ \<Rightarrow> reg2 | Inr r \<Rightarrow> r)
           in Inr (sid, dir, f\<lparr>fw_reg := reg3\<rparr>)))"

text \<open>
  \<^verbatim>\<open>CreateBot\<close>. The random bytes are those of the token's nonce, the database key and its nonce; \<open>late\<close> tells
  that go-tdlib takes longer than the 45 seconds the caller waits. The goroutine then still sets the
  client when it succeeds (\<open>login_done\<close>).
\<close>

definition login_done :: "fleet_env \<Rightarrow> time \<Rightarrow> ident \<Rightarrow> (err + td_env) \<Rightarrow> fleet \<Rightarrow> fleet" where
  "login_done env now sid outcome f =
     (case outcome of
        Inl e \<Rightarrow> f
      | Inr td \<Rightarrow> on_client sid td (on_session sid (setClient now) f))"

definition CreateBot ::
  "fleet_env \<Rightarrow> time \<Rightarrow> ident \<Rightarrow> bool \<Rightarrow> ident \<Rightarrow> string \<Rightarrow> ident \<Rightarrow> string \<Rightarrow> fleet \<Rightarrow> (ident \<times> (err + json)) \<times> fleet" where
  "CreateBot env now newid late appID token proxyID label f =
     (case app_material env appID proxyID (fw_reg f) of
        Inl e \<Rightarrow> (('''', Inl e), f)
      | Inr (apiID, apiHash, proxy) \<Rightarrow>
          (case Encrypt (fe_box env) (fe_random env 0) token of
             Inl e \<Rightarrow> (('''', Inl e), f)
           | Inr tokEnc \<Rightarrow>
               (case random32 (fe_random env 1) of
                  Inl e \<Rightarrow> (('''', Inl e), f)
                | Inr dbKey \<Rightarrow>
                    (case Encrypt (fe_box env) (fe_random env 2) dbKey of
                       Inl e \<Rightarrow> (('''', Inl e), f)
                     | Inr dbKeyEnc \<Rightarrow>
                         (case register_session env now newid
                                 \<lparr>n_kind = ''bot'', n_app = appID, n_proxy = proxyID, n_phone = '''',
                                  n_bot_token_enc = tokEnc, n_db_key_enc = dbKeyEnc, n_label = label\<rparr> f of
                            Inl e \<Rightarrow> (('''', Inl e), f)
                          | Inr (sid, dbDir, f1) \<Rightarrow>
                              (let f2 = put_live (new_entry sid ''bot'' False no_client) f1;
                                   outcome = (if late then Inl (EMsg ''bot login timeout'')
                                              else fe_newClient env (buildParams dbDir dbKey apiID apiHash) proxy (BotLogin token))
                               in case outcome of
                                    Inl e \<Rightarrow> ((sid, Inl e), on_session sid (failLogin (fe_dbt env) now e) f2)
                                  | Inr td \<Rightarrow>
                                      (case td_Call ''getMe'' RawEmpty td of
                                         (r, td') \<Rightarrow> ((sid, r), on_client sid td' (login_done env now sid (Inr td) f2)))))))))"

text \<open>
  \<^verbatim>\<open>CreateUser\<close>: the login goes on in a goroutine, the steps of \<open>login_step\<close>, while the caller waits for the
  first state that needs the operator.
\<close>

definition CreateUser ::
  "fleet_env \<Rightarrow> time \<Rightarrow> ident \<Rightarrow> elapse \<Rightarrow> ident \<Rightarrow> string \<Rightarrow> ident \<Rightarrow> string \<Rightarrow> fleet \<Rightarrow> (err + (ident \<times> SessionState)) \<times> fleet" where
  "CreateUser env now newid meanwhile appID phone proxyID label f =
     (case db_try env ''PendingUserLogin'' '''' (fw_reg f) (Inr (PendingUserLogin phone (fw_reg f))) of
        Inl e \<Rightarrow> (Inl e, f)
      | Inr (Some pending) \<Rightarrow> (Inl (ELoginPending pending), f)
      | Inr None \<Rightarrow>
          (case app_material env appID proxyID (fw_reg f) of
             Inl e \<Rightarrow> (Inl e, f)
           | Inr (apiID, apiHash, proxy) \<Rightarrow>
               (case random32 (fe_random env 0) of
                  Inl e \<Rightarrow> (Inl e, f)
                | Inr dbKey \<Rightarrow>
                    (case Encrypt (fe_box env) (fe_random env 1) dbKey of
                       Inl e \<Rightarrow> (Inl e, f)
                     | Inr dbKeyEnc \<Rightarrow>
                         (case register_session env now newid
                                 \<lparr>n_kind = ''user'', n_app = appID, n_proxy = proxyID, n_phone = phone,
                                  n_bot_token_enc = '''', n_db_key_enc = dbKeyEnc, n_label = label\<rparr> f of
                            Inl e \<Rightarrow> (Inl e, f)
                          | Inr (sid, dbDir, f1) \<Rightarrow>
                              (let le = new_entry sid ''user'' True no_client
                               in case meanwhile (put_live le f1, le) of
                                    (f2, le') \<Rightarrow>
                                      (Inr (sid, session_state now (le_guard le') (le_ls le')), f2)))))))"

subsection \<open>The login of a held session\<close>

definition no_state :: SessionState where
  "no_state = \<lparr>ss_status = '''', ss_codeInfo = None, ss_lastError = '''', ss_premium = None, ss_frozen = False, ss_spam = False\<rparr>"

definition state_of :: "time \<Rightarrow> live_entry \<Rightarrow> SessionState" where
  "state_of now le = session_state now (le_guard le) (le_ls le)"

definition not_found :: err where "not_found = EMsg ''session not found''"

text \<open>
  The verdict is what has come in on the channel of this submission when the wait is over.
\<close>

definition submit_session ::
  "time \<Rightarrow> elapse \<Rightarrow> input \<Rightarrow> ident \<Rightarrow> string \<Rightarrow> fleet \<Rightarrow> (SessionState \<times> err option) \<times> fleet" where
  "submit_session now meanwhile i sid value f =
     (case get (fw_worker f) sid of
        None \<Rightarrow> ((no_state, Some not_found), f)
      | Some le \<Rightarrow>
          (case submit i value (le_ls le) of
             (r, ls) \<Rightarrow>
               (let le1 = le\<lparr>le_ls := ls\<rparr>; f1 = on_session sid (\<lambda>(_, reg). (ls, reg)) f
                in case r of
                     Inl e \<Rightarrow> ((state_of now le1, Some e), f1)
                   | Inr ch \<Rightarrow>
                       (case meanwhile (f1, le1) of
                          (f2, le2) \<Rightarrow>
                            ((state_of now le2, submit_answer (map_of (ls_verdicts (le_ls le2)) ch)), f2)))))"

definition SubmitCode where "SubmitCode now meanwhile = submit_session now meanwhile CodeInput"
definition SubmitPassword where "SubmitPassword now meanwhile = submit_session now meanwhile PasswordInput"

definition resend_session ::
  "(db_err \<Rightarrow> string) \<Rightarrow> time \<Rightarrow> ident \<Rightarrow> fleet \<Rightarrow> (SessionState \<times> err option) \<times> fleet" where
  "resend_session dbt now sid f =
     (case get (fw_worker f) sid of
        None \<Rightarrow> ((no_state, Some not_found), f)
      | Some le \<Rightarrow>
          (case ResendCode dbt (le_ls le) (le_td le) of
             (e, ls, td) \<Rightarrow>
               ((state_of now (le\<lparr>le_ls := ls, le_td := td\<rparr>), e), on_client sid td (on_session sid (\<lambda>(_, reg). (ls, reg)) f))))"

definition State :: "time \<Rightarrow> ident \<Rightarrow> fleet \<Rightarrow> err + SessionState" where
  "State now sid f =
     (case get (fw_worker f) sid of None \<Rightarrow> Inl not_found | Some le \<Rightarrow> Inr (state_of now le))"

definition clear_cooldown :: "ident \<Rightarrow> string \<Rightarrow> fleet \<Rightarrow> (err + bool) \<times> fleet" where
  "clear_cooldown sid scope f =
     (case ClearCooldown sid scope (map_option le_guard (get (fw_worker f) sid)) (fw_reg f) of
        (r, g, reg) \<Rightarrow>
          ((case r of Inl e \<Rightarrow> Inl (EDb e) | Inr b \<Rightarrow> Inr b),
           f\<lparr>fw_worker := (case g of None \<Rightarrow> fw_worker f
                            | Some g' \<Rightarrow> update_live sid (\<lambda>le. le\<lparr>le_guard := g'\<rparr>) (fw_worker f)), fw_reg := reg\<rparr>))"

subsection \<open>Changing and removing a session\<close>

text \<open>The parameters of \<^verbatim>\<open>addProxy\<close> as \<^verbatim>\<open>json.Marshal\<close> writes a map: in the order of the keys.\<close>

definition proxy_params :: "proxy_row \<Rightarrow> string \<Rightarrow> json option" where
  "proxy_params p sec =
     (let user = JStr (coalesce (px_username p));
          build = (\<lambda>t. Some (JObj [(''enable'', JBool True), (''port'', JInt (px_port p)),
                                  (''server'', JStr (px_host p)), (''type'', JObj t)]))
      in if px_type p = ''socks5''
         then build [(''@type'', JStr ''proxyTypeSocks5''), (''password'', JStr sec), (''username'', user)]
         else if px_type p = ''http''
         then build [(''@type'', JStr ''proxyTypeHttp''), (''password'', JStr sec), (''username'', user)]
         else if px_type p = ''mtproto''
         then build [(''@type'', JStr ''proxyTypeMtproto''), (''secret'', JStr sec)]
         else None)"

definition applyProxy :: "fleet_env \<Rightarrow> ident \<Rightarrow> registry \<Rightarrow> td_env \<Rightarrow> err option \<times> td_env" where
  "applyProxy env proxyID reg td =
     (if proxyID = '''' then (case td_Call ''disableProxy'' RawEmpty td of (r, td') \<Rightarrow> (err_of r, td'))
      else (case db_try env ''GetProxy'' proxyID reg (GetProxy proxyID reg) of
              Inl e \<Rightarrow> (Some e, td)
            | Inr p \<Rightarrow>
                (case proxy_secret env p of
                   Inl e \<Rightarrow> (Some e, td)
                 | Inr sec \<Rightarrow>
                     (case proxy_params p sec of
                        None \<Rightarrow> (Some (unknown_proxy (px_type p)), td)
                      | Some ps \<Rightarrow> (case td_Call ''addProxy'' (RawVal ps) td of (r, td') \<Rightarrow> (err_of r, td'))))))"

definition UpdateSession ::
  "fleet_env \<Rightarrow> time \<Rightarrow> ident \<Rightarrow> string option \<Rightarrow> string option \<Rightarrow> fleet \<Rightarrow> err option \<times> fleet" where
  "UpdateSession env now sid label proxyID f =
     (case (if label = None \<and> proxyID = None then Inr (True, fw_reg f)
            else db_try env ''UpdateSessionMeta'' sid (fw_reg f) (UpdateSessionMeta now sid label proxyID (fw_reg f))) of
        Inl e \<Rightarrow> (Some e, f)
      | Inr (found, reg) \<Rightarrow>
          (let f1 = f\<lparr>fw_reg := reg\<rparr> in
           if \<not> found then (Some not_found, f1)
           else (case (proxyID, get (fw_worker f) sid) of
                   (Some pid, Some le) \<Rightarrow>
                     if ls_cl (le_ls le)
                     then (case applyProxy env pid reg (le_td le) of
                             (Some e, td) \<Rightarrow> (Some (EWrap ''apply proxy: '' e), on_client sid td f1)
                           | (None, td) \<Rightarrow> (None, on_client sid td f1))
                     else (None, f1)
                 | _ \<Rightarrow> (None, f1))))"

definition release_live :: "fleet_env \<Rightarrow> time \<Rightarrow> ident \<Rightarrow> fleet \<Rightarrow> fleet" where
  "release_live env now sid f =
     (case get (fw_worker f) sid of
        None \<Rightarrow> f
      | Some _ \<Rightarrow>
          (let f1 = await_login env now sid f;
               f2 = (case get (fw_worker f1) sid of
                       None \<Rightarrow> f1
                     | Some le \<Rightarrow> if ls_cl (le_ls le) then close_held sid le f1 else f1)
           in f2\<lparr>fw_worker := delete sid (fw_worker f2)\<rparr>))"

definition DeleteSession ::
  "fleet_env \<Rightarrow> io_env \<Rightarrow> time \<Rightarrow> ident \<Rightarrow> fleet \<times> volume \<Rightarrow> err option \<times> fleet \<times> volume" where
  "DeleteSession env io now sid x =
     (case x of (f, v) \<Rightarrow>
        (let f1 = release_live env now sid f;
             f2 = f1\<lparr>fw_worker := clearRetry sid (fw_worker f1)\<rparr>
         in case db_try env ''DeleteSession'' sid (fw_reg f2) (Registry.DeleteSession sid (fw_reg f2)) of
              Inl e \<Rightarrow> (Some e, f2, v)
            | Inr (None, reg) \<Rightarrow> (Some not_found, f2\<lparr>fw_reg := reg\<rparr>, v)
            | Inr (Some dbDir, reg) \<Rightarrow>
                (None, f2\<lparr>fw_reg := reg\<rparr>, if dbDir \<noteq> '''' then snd (RemoveAll io dbDir v) else v)))"

subsection \<open>Downloads\<close>

definition is_letter :: "char \<Rightarrow> bool" where
  "is_letter c \<longleftrightarrow> in_range CHR ''A'' CHR ''Z'' c \<or> in_range CHR ''a'' CHR ''z'' c"

definition fileTypeFromError :: "err \<Rightarrow> string" where
  "fileTypeFromError e =
     (case as_td e of
        None \<Rightarrow> ''''
      | Some te \<Rightarrow>
          (case str_index (td_message te) ''of type '' of
             None \<Rightarrow> ''''
           | Some i \<Rightarrow>
               (let name = takeWhile is_letter (drop (i + length ''of type '') (td_message te))
                in if name = '''' then '''' else ''fileType'' @ name)))"

definition file_id_field :: "int field list" where
  "file_id_field = [(''id'', on_field (\<lambda>x. x) (\<lambda>x _. x) (dec_int min_int32 max_int32))]"

definition fileIDFromObj :: "json \<Rightarrow> err + int" where
  "fileIDFromObj res =
     (case unmarshal (dec_struct file_id_field) (RawVal res) 0 of
        (ok, n) \<Rightarrow> if \<not> ok \<or> n = 0 then Inl (EMsg ''could not resolve remote file id'') else Inr n)"

definition local_fields :: "(string \<times> bool) field list" where
  "local_fields =
     [(''path'', on_field fst (\<lambda>x p. (x, snd p)) dec_str),
      (''is_downloading_completed'', on_field snd (\<lambda>x p. (fst p, x)) dec_bool)]"

definition localPathFromFile :: "json \<Rightarrow> err + string" where
  "localPathFromFile res =
     (case unmarshal (dec_struct [(''local'', dec_struct local_fields)]) (RawVal res) ('''', False) of
        (ok, path, _) \<Rightarrow>
          if \<not> ok then Inl (EMsg ''bad file object'')
          else if path = '''' then Inl (EMsg ''download did not complete (no local path)'')
          else Inr path)"

definition getRemoteFile :: "string \<Rightarrow> string \<Rightarrow> td_env \<Rightarrow> (err + json) \<times> td_env" where
  "getRemoteFile remoteID fileType td =
     td_Call ''getRemoteFile''
       (RawVal (JObj [(''file_type'', JObj [(''@type'', JStr fileType)]), (''remote_file_id'', JStr remoteID)])) td"

definition remote_file :: "string \<Rightarrow> td_env \<Rightarrow> (err + json) \<times> td_env" where
  "remote_file remoteID td =
     (case getRemoteFile remoteID ''fileTypeNone'' td of
        (Inr res, td1) \<Rightarrow> (Inr res, td1)
      | (Inl e, td1) \<Rightarrow>
          (let ft = fileTypeFromError e in if ft = '''' then (Inl e, td1) else getRemoteFile remoteID ft td1))"

definition download_id :: "string \<Rightarrow> string \<Rightarrow> td_env \<Rightarrow> (err + int) \<times> td_env" where
  "download_id fileRef remoteID td =
     (if remoteID \<noteq> ''''
      then (case remote_file remoteID td of
              (Inl e, td1) \<Rightarrow> (Inl e, td1)
            | (Inr res, td1) \<Rightarrow> (fileIDFromObj res, td1))
      else (case parse_int64 fileRef of None \<Rightarrow> (Inl EBadFileRef, td) | Some n \<Rightarrow> (Inr (wrap32 n), td)))"

definition DownloadFile :: "ident \<Rightarrow> string \<Rightarrow> string \<Rightarrow> fleet \<Rightarrow> (err + (string \<times> int)) \<times> fleet" where
  "DownloadFile sid fileRef remoteID f =
     (case get (fw_worker f) sid of
        None \<Rightarrow> (Inl not_found, f)
      | Some le \<Rightarrow>
          if \<not> readyClient (le_ls le)
          then (Inl (EMsg (''session is '' @ ls_status (le_ls le) @ '', not authorized'')), f)
          else (case download_id fileRef remoteID (le_td le) of
                  (Inl e, td1) \<Rightarrow> (Inl e, on_client sid td1 f)
                | (Inr fid, td1) \<Rightarrow>
                    (case td_Call ''downloadFile''
                            (RawVal (JObj [(''file_id'', JInt fid), (''limit'', JInt 0), (''offset'', JInt 0),
                                           (''priority'', JInt 1), (''synchronous'', JBool True)])) td1 of
                       (Inl e, td2) \<Rightarrow> (Inl e, on_client sid td2 f)
                     | (Inr res, td2) \<Rightarrow>
                         (case localPathFromFile res of
                            Inl e \<Rightarrow> (Inl e, on_client sid td2 f)
                          | Inr path \<Rightarrow> (Inr (path, fid), on_client sid td2 f)))))"

definition DeleteTdFile :: "ident \<Rightarrow> int \<Rightarrow> fleet \<Rightarrow> fleet" where
  "DeleteTdFile sid fid f =
     (case get (fw_worker f) sid of
        None \<Rightarrow> f
      | Some le \<Rightarrow>
          if \<not> readyClient (le_ls le) then f
          else on_client sid (snd (td_Call ''deleteFile'' (RawVal (JObj [(''file_id'', JInt fid)])) (le_td le))) f)"


subsection \<open>What the code leaves open\<close>

text \<open>
  A number in the path of a download beyond 32 bits is cut to its low 32 bits: the request names another file.
\<close>

lemma download_id_wraps: "fst (download_id ''4294967297'' '''' td) = Inr 1"
  by (simp add: download_id_def) code_simp

text \<open>
  A bot login that succeeds after its 45 seconds are over makes the session usable although its creator was
  told that it failed, and the error text stays on it.
\<close>

lemma late_bot_login_revives:
  assumes "setClient later (failLogin dbt now e (s, reg)) = (s', reg')"
  shows "readyClient s' \<and> ls_status s' = ''authorized'' \<and> ls_lastErr s' = err_text dbt e"
  using assms
  by (auto simp: setClient_def failLogin_def readyClient_def Let_def dest!: setStatus_fields split: prod.splits if_splits)

text \<open>A session whose login failed is still held, and so counted against the capacity of its worker.\<close>

lemma failed_login_stays_held:
  "get (fw_worker f) sid = Some le \<Longrightarrow> get (fw_worker (on_session sid (failLogin dbt now e) f)) sid \<noteq> None"
  by (auto simp: on_session_def split: prod.splits)

end
