(* ===== verification/Api.thy ===== *)
theory Api
  imports Lifecycle Http
begin

section \<open>The worker's HTTP interface\<close>

text \<open>
  \<^verbatim>\<open>internal/api/server.go\<close>: the envelopes, the handlers on top of the manager's operations, and the routes.
  A handler maps the state of the worker to an answer and a new state. What belongs to other code is in
  the environment: TDLib's synchronous execution, the parsing of URLs, the printing of times, random
  bytes, the opening of a downloaded file.
\<close>

datatype opened = CannotOpen | CannotStat | Opened

record api_env =
  ae_fleet :: fleet_env
  ae_now :: time
  ae_clock :: "nat \<Rightarrow> time"
  ae_newid :: ident
  ae_late :: bool
  ae_meanwhile :: elapse
  ae_waits :: "duration \<Rightarrow> bool"
  ae_uploads :: string
  ae_io :: io_env
  ae_execute :: "json \<Rightarrow> err + (string \<times> json)"
  ae_text :: "json \<Rightarrow> string"
  ae_time :: "time \<Rightarrow> string"
  ae_url :: "string \<Rightarrow> (string \<times> string) option"
  ae_base64 :: "bytes \<Rightarrow> string"
  ae_open :: "string \<Rightarrow> opened"

record api_state =
  aw_fleet :: fleet
  aw_cache :: rule_cache
  aw_data :: volume

datatype answer =
    Envelope reply
  | FileBody "(string \<times> string) list" string

subsection \<open>Envelopes\<close>

definition writeErr :: "int \<Rightarrow> string \<Rightarrow> answer" where
  "writeErr status msg = Envelope (gateway_error status msg)"

definition writeOK :: "json \<Rightarrow> answer" where
  "writeOK result = Envelope (ok_reply result)"

definition httpStatusForTd :: "int \<Rightarrow> int" where
  "httpStatusForTd code =
     (if code = 0 then 502 else if code = 420 then 429 else if 400 \<le> code \<and> code \<le> 599 then code else 400)"

definition failure :: "int \<Rightarrow> (string \<times> string) list \<Rightarrow> (string \<times> json) list \<Rightarrow> answer" where
  "failure status hs members = Envelope (Reply status hs (JObj [(''error'', JObj members), (''ok'', JBool False)]))"

text \<open>The members of a Go map are written in the order of their keys.\<close>

definition refusal_details :: "(time \<Rightarrow> string) \<Rightarrow> int \<Rightarrow> refused \<Rightarrow> (string \<times> json) list" where
  "refusal_details time_text secs re =
     omit_empty ''error'' (r_cause re)
     @ (case r_limit re of None \<Rightarrow> [] | Some l \<Rightarrow> [(''level'', JStr (l_level l)), (''limit_id'', JStr (l_id l))])
     @ [(''retry_after'', JInt secs)]
     @ omit_empty ''scope'' (r_scope re)
     @ [(''source'', JStr (r_reason re)), (''until'', JStr (time_text (r_until re)))]"

definition writeRefused :: "api_env \<Rightarrow> refused \<Rightarrow> answer" where
  "writeRefused env re =
     (let secs = max (refused_RetryAfter (ae_now env) re) 1
      in failure 429 [(''Retry-After'', itoa secs)]
           [(''code'', JStr ''rate_limited''), (''details'', JObj (refusal_details (ae_time env) secs re)),
            (''message'', JStr (refused_text re)), (''retry_after'', JInt secs), (''source'', JStr ''gateway'')])"

definition writeCallErr :: "api_env \<Rightarrow> err \<Rightarrow> answer" where
  "writeCallErr env e =
     (case as_refused e of
        Some re \<Rightarrow> writeRefused env re
      | None \<Rightarrow>
          (case as_td e of
             Some te \<Rightarrow>
               failure (httpStatusForTd (td_code te))
                 (case RetryAfter te of None \<Rightarrow> [] | Some secs \<Rightarrow> [(''Retry-After'', itoa secs)])
                 ([(''code'', JInt (td_code te)), (''message'', JStr (td_message te))]
                  @ omit_nil ''retry_after'' JInt (RetryAfter te) @ [(''source'', JStr ''tdlib'')])
           | None \<Rightarrow> writeErr 502 (err_text (fe_dbt (ae_fleet env)) e)))"

definition writeLoginErr :: "api_env \<Rightarrow> err \<Rightarrow> answer" where
  "writeLoginErr env e =
     (if as_td e \<noteq> None then writeCallErr env e else writeErr 409 (err_text (fe_dbt (ae_fleet env)) e))"

definition writeConflict :: "string \<Rightarrow> ident \<Rightarrow> answer" where
  "writeConflict msg sid =
     failure 409 [] [(''message'', JStr msg), (''session_id'', JStr sid), (''source'', JStr ''gateway'')]"

definition maxBodyBytes :: int where "maxBodyBytes = 8388608"

definition decode :: "'a dec \<Rightarrow> 'a \<Rightarrow> request \<Rightarrow> 'a option" where
  "decode d dst r =
     (if maxBodyBytes < hr_json_size r then None
      else (case unmarshal d (hr_json r) dst of (ok, x) \<Rightarrow> if ok then Some x else None))"

definition invalid_body :: answer where
  "invalid_body = writeErr 400 ''invalid JSON body''"

definition text_of :: "api_env \<Rightarrow> err \<Rightarrow> string" where
  "text_of env e = err_text (fe_dbt (ae_fleet env)) e"

subsection \<open>Execute and management\<close>

definition method_fields :: "(string \<times> raw) field list" where
  "method_fields =
     [(''method'', on_field fst (\<lambda>x p. (x, snd p)) dec_str), (''params'', on_field snd (\<lambda>x p. (fst p, x)) dec_raw)]"

definition handleExecute :: "api_env \<Rightarrow> request \<Rightarrow> answer" where
  "handleExecute env r =
     (case decode (dec_struct method_fields) ('''', RawEmpty) r of
        None \<Rightarrow> invalid_body
      | Some (method, params) \<Rightarrow>
          if method = '''' then writeErr 400 ''method is required''
          else if IsBlockedMethod method then writeErr 403 ''method reserved by the gateway''
          else (case ExecuteSync (ae_execute env) (ae_text env) method params of
                  Inl e \<Rightarrow> writeCallErr env e
                | Inr res \<Rightarrow> writeOK res))"

record app_request =
  aq_id :: int
  aq_hash :: string
  aq_label :: string

definition app_request_fields :: "app_request field list" where
  "app_request_fields =
     [(''api_id'', on_field aq_id (\<lambda>x q. q\<lparr>aq_id := x\<rparr>) (dec_int min_int32 max_int32)),
      (''api_hash'', on_field aq_hash (\<lambda>x q. q\<lparr>aq_hash := x\<rparr>) dec_str),
      (''label'', on_field aq_label (\<lambda>x q. q\<lparr>aq_label := x\<rparr>) dec_str)]"

definition with_reg :: "registry \<Rightarrow> api_state \<Rightarrow> api_state" where
  "with_reg reg st = st\<lparr>aw_fleet := (aw_fleet st)\<lparr>fw_reg := reg\<rparr>\<rparr>"

definition handleCreateApp :: "api_env \<Rightarrow> request \<Rightarrow> api_state \<Rightarrow> answer \<times> api_state" where
  "handleCreateApp env r st =
     (case decode (dec_struct app_request_fields) \<lparr>aq_id = 0, aq_hash = '''', aq_label = ''''\<rparr> r of
        None \<Rightarrow> (invalid_body, st)
      | Some q \<Rightarrow>
          if aq_id q = 0 \<or> aq_hash q = '''' then (writeErr 400 ''api_id and api_hash are required'', st)
          else (case Encrypt (fe_box (ae_fleet env)) (fe_random (ae_fleet env) 0) (aq_hash q) of
                  Inl e \<Rightarrow> (writeErr 500 (text_of env e), st)
                | Inr enc \<Rightarrow>
                    (let reg = fw_reg (aw_fleet st) in
                     case db_try (ae_fleet env) ''CreateApp'' '''' reg
                            (Inr (CreateApp (ae_newid env) (ae_now env) (aq_id q) enc (aq_label q) reg)) of
                       Inl e \<Rightarrow> (writeErr 500 (text_of env e), st)
                     | Inr (i, reg') \<Rightarrow> (writeOK (JObj [(''app_id'', JStr i)]), with_reg reg' st))))"

record proxy_request =
  pq_type :: string
  pq_host :: string
  pq_port :: int
  pq_username :: string
  pq_password :: string
  pq_secret :: string
  pq_label :: string

definition proxy_request_fields :: "proxy_request field list" where
  "proxy_request_fields =
     [(''type'', on_field pq_type (\<lambda>x q. q\<lparr>pq_type := x\<rparr>) dec_str),
      (''host'', on_field pq_host (\<lambda>x q. q\<lparr>pq_host := x\<rparr>) dec_str),
      (''port'', on_field pq_port (\<lambda>x q. q\<lparr>pq_port := x\<rparr>) (dec_int min_int32 max_int32)),
      (''username'', on_field pq_username (\<lambda>x q. q\<lparr>pq_username := x\<rparr>) dec_str),
      (''password'', on_field pq_password (\<lambda>x q. q\<lparr>pq_password := x\<rparr>) dec_str),
      (''secret'', on_field pq_secret (\<lambda>x q. q\<lparr>pq_secret := x\<rparr>) dec_str),
      (''label'', on_field pq_label (\<lambda>x q. q\<lparr>pq_label := x\<rparr>) dec_str)]"

definition handleCreateProxy :: "api_env \<Rightarrow> request \<Rightarrow> api_state \<Rightarrow> answer \<times> api_state" where
  "handleCreateProxy env r st =
     (case decode (dec_struct proxy_request_fields) \<lparr>pq_type = '''', pq_host = '''', pq_port = 0, pq_username = '''',
              pq_password = '''', pq_secret = '''', pq_label = ''''\<rparr> r of
        None \<Rightarrow> (invalid_body, st)
      | Some q \<Rightarrow>
          if pq_type q = '''' \<or> pq_host q = '''' \<or> pq_port q = 0 then (writeErr 400 ''type, host, port are required'', st)
          else (let sekret = (if pq_type q = ''mtproto'' then pq_secret q else pq_password q);
                    reg = fw_reg (aw_fleet st)
                in case (if sekret = '''' then Inr ''''
                         else Encrypt (fe_box (ae_fleet env)) (fe_random (ae_fleet env) 0) sekret) of
                     Inl e \<Rightarrow> (writeErr 500 (text_of env e), st)
                   | Inr enc \<Rightarrow>
                       (case db_try (ae_fleet env) ''CreateProxy'' '''' reg
                               (CreateProxy (ae_newid env) (ae_now env)
                                 \<lparr>px_id = '''', px_type = pq_type q, px_host = pq_host q, px_port = pq_port q,
                                  px_username = nullStr (pq_username q), px_secret_enc = enc,
                                  px_label = nullStr (pq_label q), px_created = 0\<rparr> reg) of
                          Inl e \<Rightarrow> (writeErr 500 (text_of env e), st)
                        | Inr (i, reg') \<Rightarrow> (writeOK (JObj [(''proxy_id'', JStr i)]), with_reg reg' st))))"


subsection \<open>Sessions\<close>

record session_request =
  sq_token :: string
  sq_app :: string
  sq_phone :: string
  sq_proxy :: string
  sq_label :: string

definition no_session_request :: session_request where
  "no_session_request = \<lparr>sq_token = '''', sq_app = '''', sq_phone = '''', sq_proxy = '''', sq_label = ''''\<rparr>"

definition common_fields :: "session_request field list" where
  "common_fields =
     [(''app_id'', on_field sq_app (\<lambda>x q. q\<lparr>sq_app := x\<rparr>) dec_str),
      (''proxy_id'', on_field sq_proxy (\<lambda>x q. q\<lparr>sq_proxy := x\<rparr>) dec_str),
      (''label'', on_field sq_label (\<lambda>x q. q\<lparr>sq_label := x\<rparr>) dec_str)]"

definition bot_fields :: "session_request field list" where
  "bot_fields = (''token'', on_field sq_token (\<lambda>x q. q\<lparr>sq_token := x\<rparr>) dec_str) # common_fields"

definition user_fields :: "session_request field list" where
  "user_fields = (''phone'', on_field sq_phone (\<lambda>x q. q\<lparr>sq_phone := x\<rparr>) dec_str) # common_fields"

definition with_fleet :: "fleet \<Rightarrow> api_state \<Rightarrow> api_state" where
  "with_fleet f st = st\<lparr>aw_fleet := f\<rparr>"

definition handleCreateBot :: "api_env \<Rightarrow> request \<Rightarrow> api_state \<Rightarrow> answer \<times> api_state" where
  "handleCreateBot env r st =
     (case decode (dec_struct bot_fields) no_session_request r of
        None \<Rightarrow> (invalid_body, st)
      | Some q \<Rightarrow>
          if sq_token q = '''' \<or> sq_app q = '''' then (writeErr 400 ''token and app_id are required'', st)
          else (case CreateBot (ae_fleet env) (ae_now env) (ae_newid env) (ae_late env)
                       (sq_app q) (sq_token q) (sq_proxy q) (sq_label q) (aw_fleet st) of
                  ((sid, Inl e), f) \<Rightarrow> (writeCallErr env e, with_fleet f st)
                | ((sid, Inr me), f) \<Rightarrow>
                    (writeOK (JObj [(''id'', JStr sid), (''me'', me), (''status'', JStr ''authorized'')]), with_fleet f st)))"

definition sessionBody :: "ident \<Rightarrow> SessionState \<Rightarrow> json" where
  "sessionBody sid s = JObj
     ([(''id'', JStr sid), (''status'', JStr (ss_status s))]
      @ omit_nil ''code_info'' (\<lambda>j. j) (ss_codeInfo s) @ omit_empty ''last_error'' (ss_lastError s)
      @ omit_nil ''is_premium'' JBool (ss_premium s)
      @ [(''frozen'', JBool (ss_frozen s)), (''spam_limited'', JBool (ss_spam s))])"

text \<open>\<^verbatim>\<open>errors.As\<close> for the pending login.\<close>

fun as_pending :: "err \<Rightarrow> ident option" where
  "as_pending (ELoginPending sid) = Some sid"
| "as_pending (EWrap _ e) = as_pending e"
| "as_pending _ = None"

definition handleCreateUser :: "api_env \<Rightarrow> request \<Rightarrow> api_state \<Rightarrow> answer \<times> api_state" where
  "handleCreateUser env r st =
     (case decode (dec_struct user_fields) no_session_request r of
        None \<Rightarrow> (invalid_body, st)
      | Some q \<Rightarrow>
          if sq_app q = '''' \<or> sq_phone q = '''' then (writeErr 400 ''app_id and phone are required'', st)
          else (case CreateUser (ae_fleet env) (ae_now env) (ae_newid env) (ae_meanwhile env)
                       (sq_app q) (sq_phone q) (sq_proxy q) (sq_label q) (aw_fleet st) of
                  (Inl e, f) \<Rightarrow>
                    ((case as_pending e of
                        Some pending \<Rightarrow> writeConflict (text_of env e) pending
                      | None \<Rightarrow> writeCallErr env e), with_fleet f st)
                | (Inr (sid, s), f) \<Rightarrow> (writeOK (sessionBody sid s), with_fleet f st)))"

definition text_field :: "string \<Rightarrow> string field list" where
  "text_field k = [(k, on_field (\<lambda>x. x) (\<lambda>x _. x) dec_str)]"

definition login_answer :: "api_env \<Rightarrow> ident \<Rightarrow> SessionState \<times> err option \<Rightarrow> answer" where
  "login_answer env sid x =
     (case x of (s, None) \<Rightarrow> writeOK (sessionBody sid s) | (s, Some e) \<Rightarrow> writeLoginErr env e)"

definition handleLoginCode :: "api_env \<Rightarrow> ident \<Rightarrow> request \<Rightarrow> api_state \<Rightarrow> answer \<times> api_state" where
  "handleLoginCode env sid r st =
     (case decode (dec_struct (text_field ''code'')) '''' r of
        None \<Rightarrow> (invalid_body, st)
      | Some v \<Rightarrow>
          (case SubmitCode (ae_now env) (ae_meanwhile env) sid v (aw_fleet st) of
             (x, f) \<Rightarrow> (login_answer env sid x, with_fleet f st)))"

definition handleLoginPassword :: "api_env \<Rightarrow> ident \<Rightarrow> request \<Rightarrow> api_state \<Rightarrow> answer \<times> api_state" where
  "handleLoginPassword env sid r st =
     (case decode (dec_struct (text_field ''password'')) '''' r of
        None \<Rightarrow> (invalid_body, st)
      | Some v \<Rightarrow>
          (case SubmitPassword (ae_now env) (ae_meanwhile env) sid v (aw_fleet st) of
             (x, f) \<Rightarrow> (login_answer env sid x, with_fleet f st)))"

definition handleLoginResend :: "api_env \<Rightarrow> ident \<Rightarrow> api_state \<Rightarrow> answer \<times> api_state" where
  "handleLoginResend env sid st =
     (case resend_session (fe_dbt (ae_fleet env)) (ae_now env) sid (aw_fleet st) of
        (x, f) \<Rightarrow> (login_answer env sid x, with_fleet f st))"

subsection \<open>Calls\<close>

text \<open>
  \<^verbatim>\<open>Manager.Call\<close> on the worker's state: the session's guard and client, the shared rule cache, the record
  of uploads in flight.
\<close>

definition call_session ::
  "api_env \<Rightarrow> ident \<Rightarrow> ident \<Rightarrow> string \<Rightarrow> raw \<Rightarrow> api_state \<Rightarrow> (err + json) \<times> api_state" where
  "call_session env sid token method params st =
     (let f = aw_fleet st; wk = fw_worker f in
      case get wk sid of
        None \<Rightarrow> (Inl not_found, st)
      | Some le \<Rightarrow>
          (case Call (ae_waits env) (fe_dbt (ae_fleet env)) (ae_uploads env) (Some (le_ls le))
                  \<lparr>cl_session = sid, cl_kind = ls_kind (le_ls le), cl_token = token\<rparr> method params
                  \<lparr>cc_state = \<lparr>cs_guard = le_guard le, cs_td = le_td le, cs_reg = fw_reg f, cs_cache = aw_cache st,
                                cs_jobs = [], cs_clock = ae_clock env, cs_tick = 0\<rparr>,
                   cc_pending = wk_pending wk\<rparr> of
             (res, cc) \<Rightarrow>
               (let cs = cc_state cc;
                    wk' = (update_live sid (\<lambda>le. le\<lparr>le_guard := cs_guard cs, le_td := cs_td cs\<rparr>) wk)
                      \<lparr>wk_jobs := wk_jobs wk @ map (Pair sid) (cs_jobs cs), wk_pending := cc_pending cc\<rparr>
                in (res, st\<lparr>aw_fleet := f\<lparr>fw_worker := wk', fw_reg := cs_reg cs\<rparr>, aw_cache := cs_cache cs\<rparr>))))"

text \<open>\<^verbatim>\<open>errors.Is(err, session.ErrLocalPathDenied)\<close>.\<close>

fun is_path_denied :: "err \<Rightarrow> bool" where
  "is_path_denied ELocalPathDenied = True"
| "is_path_denied (EWrap _ e) = is_path_denied e"
| "is_path_denied _ = False"

definition tokenIDHeader :: string where "tokenIDHeader = ''X-Tgcontrol-Token-Id''"

definition call_answer :: "api_env \<Rightarrow> err + json \<Rightarrow> answer" where
  "call_answer env x =
     (case x of
        Inr res \<Rightarrow> writeOK res
      | Inl e \<Rightarrow> if is_path_denied e then writeErr 403 (text_of env e) else writeCallErr env e)"

definition handleCall :: "api_env \<Rightarrow> ident \<Rightarrow> request \<Rightarrow> api_state \<Rightarrow> answer \<times> api_state" where
  "handleCall env sid r st =
     (case decode (dec_struct method_fields) ('''', RawEmpty) r of
        None \<Rightarrow> (invalid_body, st)
      | Some (method, params) \<Rightarrow>
          if method = '''' then (writeErr 400 ''method is required'', st)
          else if IsBlockedMethod method then (writeErr 403 ''method reserved by the gateway'', st)
          else (case call_session env sid (header r tokenIDHeader) method params st of
                  (x, st') \<Rightarrow> (call_answer env x, st')))"

subsection \<open>Subscriptions, changes, downloads\<close>

record subscription_request =
  uq_url :: string
  uq_secret :: string
  uq_filters :: FilterSpec

definition subscription_request_fields :: "subscription_request field list" where
  "subscription_request_fields =
     [(''url'', on_field uq_url (\<lambda>x q. q\<lparr>uq_url := x\<rparr>) dec_str),
      (''secret'', on_field uq_secret (\<lambda>x q. q\<lparr>uq_secret := x\<rparr>) dec_str),
      (''filters'', on_field uq_filters (\<lambda>x q. q\<lparr>uq_filters := x\<rparr>) (dec_struct filter_fields))]"

definition absolute_http :: "(string \<times> string) option \<Rightarrow> bool" where
  "absolute_http u = (case u of None \<Rightarrow> False | Some (scheme, host) \<Rightarrow> scheme \<in> {''http'', ''https''} \<and> host \<noteq> '''')"

definition handleCreateSubscription :: "api_env \<Rightarrow> ident \<Rightarrow> request \<Rightarrow> api_state \<Rightarrow> answer \<times> api_state" where
  "handleCreateSubscription env sid r st =
     (case decode (dec_struct subscription_request_fields) \<lparr>uq_url = '''', uq_secret = '''', uq_filters = no_filter\<rparr> r of
        None \<Rightarrow> (invalid_body, st)
      | Some q \<Rightarrow>
          if \<not> absolute_http (ae_url env (uq_url q)) then (writeErr 400 ''url must be an absolute http(s) URL'', st)
          else (case (if uq_secret q \<noteq> '''' then Inr (uq_secret q, False)
                      else (case random32 (fe_random (ae_fleet env) 0) of
                              Inl e \<Rightarrow> Inl e | Inr b \<Rightarrow> Inr (ae_base64 env b, True))) of
                  Inl e \<Rightarrow> (writeErr 500 (text_of env e), st)
                | Inr (sekret, generated) \<Rightarrow>
                    (case Encrypt (fe_box (ae_fleet env)) (fe_random (ae_fleet env) 1) sekret of
                       Inl e \<Rightarrow> (writeErr 500 (text_of env e), st)
                     | Inr secEnc \<Rightarrow>
                         (let filters = (if fs_types (uq_filters q) \<noteq> [] \<or> fs_chats (uq_filters q) \<noteq> []
                                         then RawVal (marshal_filter (uq_filters q)) else RawEmpty);
                              f = aw_fleet st; reg = fw_reg f
                          in case db_try (ae_fleet env) ''CreateSubscription'' sid reg
                                    (CreateSubscription (ae_newid env) (ae_now env) sid (header r tokenIDHeader)
                                       (uq_url q) secEnc filters reg) of
                               Inl e \<Rightarrow> (writeErr 502 (text_of env e), st)
                             | Inr (i, reg') \<Rightarrow>
                                 (writeOK (JObj ([(''id'', JStr i)] @ (if generated then [(''secret'', JStr sekret)] else []))),
                                  with_fleet (f\<lparr>fw_reg := reg', fw_worker := RefreshSubscriptions sid reg' (fw_worker f)\<rparr>) st)))))"

definition change_fields :: "(string option \<times> string option) field list" where
  "change_fields =
     [(''label'', on_field fst (\<lambda>x p. (x, snd p)) (dec_ptr '''' dec_str)),
      (''proxy_id'', on_field snd (\<lambda>x p. (fst p, x)) (dec_ptr '''' dec_str))]"

text \<open>The status of a failed change or removal goes by the error's text.\<close>

definition missing_or_bad :: "api_env \<Rightarrow> err \<Rightarrow> answer" where
  "missing_or_bad env e =
     writeErr (if text_of env e = ''session not found'' then 404 else 502) (text_of env e)"

definition handleUpdateSession :: "api_env \<Rightarrow> ident \<Rightarrow> request \<Rightarrow> api_state \<Rightarrow> answer \<times> api_state" where
  "handleUpdateSession env sid r st =
     (case decode (dec_struct change_fields) (None, None) r of
        None \<Rightarrow> (invalid_body, st)
      | Some (label, proxyID) \<Rightarrow>
          (case UpdateSession (ae_fleet env) (ae_now env) sid label proxyID (aw_fleet st) of
             (Some e, f) \<Rightarrow> (missing_or_bad env e, with_fleet f st)
           | (None, f) \<Rightarrow> (writeOK (status_ok ''updated''), with_fleet f st)))"

definition handleDeleteSession :: "api_env \<Rightarrow> ident \<Rightarrow> api_state \<Rightarrow> answer \<times> api_state" where
  "handleDeleteSession env sid st =
     (case Lifecycle.DeleteSession (ae_fleet env) (ae_io env) (ae_now env) sid (aw_fleet st, aw_data st) of
        (e, f, v) \<Rightarrow>
          ((case e of Some x \<Rightarrow> missing_or_bad env x | None \<Rightarrow> writeOK (status_ok ''deleted'')),
           st\<lparr>aw_fleet := f, aw_data := v\<rparr>))"

definition handleClearCooldown :: "api_env \<Rightarrow> ident \<Rightarrow> string \<Rightarrow> api_state \<Rightarrow> answer \<times> api_state" where
  "handleClearCooldown env sid scope st =
     (case clear_cooldown sid scope (aw_fleet st) of
        (Inl e, f) \<Rightarrow> (writeErr 502 (text_of env e), with_fleet f st)
      | (Inr False, f) \<Rightarrow> (writeErr 404 ''no such cooldown'', with_fleet f st)
      | (Inr True, f) \<Rightarrow> (writeOK (status_ok ''deleted''), with_fleet f st))"

text \<open>\<^verbatim>\<open>errors.Is(err, session.ErrBadFileRef)\<close>.\<close>

fun is_bad_ref :: "err \<Rightarrow> bool" where
  "is_bad_ref EBadFileRef = True"
| "is_bad_ref (EWrap _ e) = is_bad_ref e"
| "is_bad_ref _ = False"

definition handleDownloadFile :: "api_env \<Rightarrow> ident \<Rightarrow> string \<Rightarrow> request \<Rightarrow> api_state \<Rightarrow> answer \<times> api_state" where
  "handleDownloadFile env sid fileRef r st =
     (case DownloadFile sid fileRef (query r ''remote_id'') (aw_fleet st) of
        (Inl e, f) \<Rightarrow>
          ((if is_bad_ref e then writeErr 400 (text_of env e)
            else if text_of env e = ''session not found'' then writeErr 404 (text_of env e)
            else writeCallErr env e), with_fleet f st)
      | (Inr (path, fid), f) \<Rightarrow>
          (case ae_open env path of
             CannotOpen \<Rightarrow> (writeErr 502 ''downloaded file unavailable'', with_fleet f st)
           | CannotStat \<Rightarrow> (writeErr 502 ''stat downloaded file'', with_fleet f st)
           | Opened \<Rightarrow>
               (FileBody [(''Content-Disposition'', ''attachment; filename=\"'' @ Base path @ ''\"'')] path,
                with_fleet (if query r ''delete'' = ''1'' \<and> header r ''Range'' = '''' then DeleteTdFile sid fid f else f) st)))"

definition handleGetSession :: "api_env \<Rightarrow> ident \<Rightarrow> api_state \<Rightarrow> answer" where
  "handleGetSession env sid st =
     (case State (ae_now env) sid (aw_fleet st) of
        Inl e \<Rightarrow> writeErr 404 (text_of env e)
      | Inr s \<Rightarrow> writeOK (sessionBody sid s))"

subsection \<open>Routes\<close>

datatype worker_handler =
    HHealth | HExecute | HCreateApp | HCreateProxy | HCreateBot | HCreateUser | HLoginCode | HLoginPassword
  | HLoginResend | HCall | HSubscribe | HGetSession | HDownload | HDeleteSession | HUpdateSession | HClearCooldown

definition both_kinds ::
  "string \<Rightarrow> segment list \<Rightarrow> worker_handler \<Rightarrow> (string \<times> segment list \<times> worker_handler) list" where
  "both_kinds m rest h =
     [(m, [Lit ''v1'', Lit ''user'', Wild ''id''] @ rest, h), (m, [Lit ''v1'', Lit ''bot'', Wild ''id''] @ rest, h)]"

definition worker_routes :: "(string \<times> segment list \<times> worker_handler) list" where
  "worker_routes =
     [(''GET'', [Lit ''healthz''], HHealth),
      (''POST'', [Lit ''v1'', Lit ''execute''], HExecute),
      (''POST'', [Lit ''v1'', Lit ''apps''], HCreateApp),
      (''POST'', [Lit ''v1'', Lit ''proxies''], HCreateProxy),
      (''POST'', [Lit ''v1'', Lit ''bot''], HCreateBot),
      (''POST'', [Lit ''v1'', Lit ''user''], HCreateUser),
      (''POST'', [Lit ''v1'', Lit ''user'', Wild ''id'', Lit ''login'', Lit ''code''], HLoginCode),
      (''POST'', [Lit ''v1'', Lit ''user'', Wild ''id'', Lit ''login'', Lit ''password''], HLoginPassword),
      (''POST'', [Lit ''v1'', Lit ''user'', Wild ''id'', Lit ''login'', Lit ''resend''], HLoginResend)]
     @ both_kinds ''POST'' [Lit ''call''] HCall
     @ both_kinds ''POST'' [Lit ''updates'', Lit ''subscriptions''] HSubscribe
     @ both_kinds ''GET'' [] HGetSession
     @ both_kinds ''GET'' [Lit ''files'', Wild ''file_id''] HDownload
     @ both_kinds ''DELETE'' [] HDeleteSession
     @ both_kinds ''PATCH'' [] HUpdateSession
     @ both_kinds ''DELETE'' [Lit ''limits'', Lit ''cooldowns'', Wild ''scope''] HClearCooldown"

definition handle_worker ::
  "api_env \<Rightarrow> worker_handler \<Rightarrow> (string \<times> string) list \<Rightarrow> request \<Rightarrow> api_state \<Rightarrow> answer \<times> api_state" where
  "handle_worker env h vs r st =
     (let sid = path_value vs ''id'' in
      case h of
        HHealth \<Rightarrow> (Envelope (plain_text 200 ''ok''), st)
      | HExecute \<Rightarrow> (handleExecute env r, st)
      | HCreateApp \<Rightarrow> handleCreateApp env r st
      | HCreateProxy \<Rightarrow> handleCreateProxy env r st
      | HCreateBot \<Rightarrow> handleCreateBot env r st
      | HCreateUser \<Rightarrow> handleCreateUser env r st
      | HLoginCode \<Rightarrow> handleLoginCode env sid r st
      | HLoginPassword \<Rightarrow> handleLoginPassword env sid r st
      | HLoginResend \<Rightarrow> handleLoginResend env sid st
      | HCall \<Rightarrow> handleCall env sid r st
      | HSubscribe \<Rightarrow> handleCreateSubscription env sid r st
      | HGetSession \<Rightarrow> (handleGetSession env sid st, st)
      | HDownload \<Rightarrow> handleDownloadFile env sid (path_value vs ''file_id'') r st
      | HDeleteSession \<Rightarrow> handleDeleteSession env sid st
      | HUpdateSession \<Rightarrow> handleUpdateSession env sid r st
      | HClearCooldown \<Rightarrow> handleClearCooldown env sid (path_value vs ''scope'') st)"

definition serve_worker :: "api_env \<Rightarrow> request \<Rightarrow> api_state \<Rightarrow> answer \<times> api_state" where
  "serve_worker env r st =
     (case mux_lookup worker_routes r of
        Found h vs \<Rightarrow> handle_worker env h vs r st
      | MethodNotAllowed \<Rightarrow> (Envelope (plain_text 405 ''Method Not Allowed''), st)
      | NotFound \<Rightarrow> (Envelope (plain_text 404 ''404 page not found''), st))"


subsection \<open>What a call may send\<close>

definition loaders :: "string set" where
  "loaders = {''createPrivateChat'', ''createSupergroupChat'', ''createBasicGroupChat''}"

lemma forceLoadChat_loaders: "forceLoadChat ps = Some (k, q) \<Longrightarrow> k \<in> loaders"
  by (auto simp: forceLoadChat_def loaders_def split: option.splits if_splits)

lemma dispatch_sends:
  assumes "dispatch dbt m ps st = (r, st')"
  shows "sends_only (insert m loaders) (cs_td st) (cs_td st')"
proof -
  have req: "sends_only (insert m loaders) (cs_td s) (cs_td s')" if "td_request k p s = (x, s')" "k \<in> insert m loaders" for k p s x s'
    using sends_only_mono [OF td_request_sends [OF that(1)]] that(2) by simp
  obtain r1 st1 where 1: "td_request m ps st = (r1, st1)" by (cases "td_request m ps st")
  have s1: "sends_only (insert m loaders) (cs_td st) (cs_td st1)" using req [OF 1] by simp
  show ?thesis
  proof (cases "isChatUnresolved dbt (err_of r1) \<and> forceLoadChat ps \<noteq> None")
    case False
    then have "st' = st1" using assms 1 by (auto simp: dispatch_def split: if_splits option.splits)
    then show ?thesis using s1 by simp
  next
    case True
    then obtain k q where k: "forceLoadChat ps = Some (k, q)" by auto
    obtain r2 st2 where 2: "td_request k (RawVal q) st1 = (r2, st2)" by (cases "td_request k (RawVal q) st1")
    obtain r3 st3 where 3: "td_request m ps st2 = (r3, st3)" by (cases "td_request m ps st2")
    have s2: "sends_only (insert m loaders) (cs_td st) (cs_td st2)"
      using sends_only_trans [OF s1 req [OF 2]] forceLoadChat_loaders [OF k] by simp
    have s3: "sends_only (insert m loaders) (cs_td st) (cs_td st3)"
      using sends_only_trans [OF s2 req [OF 3]] by simp
    have "st' = st2 \<or> st' = st3" using assms True k by (auto simp: dispatch_def 1 2 3 split: sum.splits)
    then show ?thesis using s2 s3 by auto
  qed
qed

lemma Call_sends:
  assumes "Call waits dbt dir (Some ls) cl m ps cc = (r, cc')"
  shows "sends_only ({m} \<union> loaders \<union> helpers) (cs_td (cc_state cc)) (cs_td (cc_state cc'))"
proof (cases "readyClient ls \<and> (\<exists>dirs. guardLocalPaths dir ps = Inr dirs)")
  case False
  then have "cc' = cc" using assms by (auto simp: Call_def split: sum.splits if_splits)
  then show ?thesis by simp
next
  case True
  then obtain dirs where l: "readyClient ls" "guardLocalPaths dir ps = Inr dirs" by blast
  let ?S = "sends_only ({m} \<union> loaders \<union> helpers) (cs_td (cc_state cc))"
  obtain c st1 where c: "check_cooldown (Scope m) (cc_state cc) = (c, st1)" by (cases "check_cooldown (Scope m) (cc_state cc)")
  obtain p st2 where p: "resolveChatUsername waits cl ps st1 = (p, st2)" by (cases "resolveChatUsername waits cl ps st1")
  have s1: "?S (cs_td st1)" using check_cooldown_td [OF c] by simp
  have "sends_only helpers (cs_td (cc_state cc)) (cs_td st2)"
    using resolve_sends [OF p] check_cooldown_td [OF c] by simp
  then have s2: "?S (cs_td st2)" by (rule sends_only_mono) blast
  show ?thesis
  proof (cases "c = None \<and> (\<exists>ps'. p = Inr ps')")
    case False
    then have "cs_td (cc_state cc') = cs_td st1 \<or> cs_td (cc_state cc') = cs_td st2"
      using assms l by (auto simp: Call_def c p Let_def split: option.splits sum.splits)
    then show ?thesis using s1 s2 by auto
  next
    case True
    then obtain ps' where ps': "c = None" "p = Inr ps'" by blast
    obtain a st3 where a: "admit waits cl m (Scope m) ps' st2 = (a, st3)" by (cases "admit waits cl m (Scope m) ps' st2")
    obtain d st4 where d: "dispatch dbt m ps' st3 = (d, st4)" by (cases "dispatch dbt m ps' st3")
    have s3: "?S (cs_td st3)"
      by (rule sends_only_trans [OF s2 sends_only_mono [OF admit_sends [OF a]]]) (simp add: helpers_def)
    have s4: "?S (cs_td st4)"
      by (rule sends_only_trans [OF s3 sends_only_mono [OF dispatch_sends [OF d]]]) auto
    have "cs_td (cc_state cc') = cs_td st3 \<or> cs_td (cc_state cc') = cs_td st4"
      using assms l
      by (auto simp: Call_def c p ps' a d Let_def note_answer_td read_clock_def split: option.splits sum.splits prod.splits)
    then show ?thesis using s3 s4 by auto
  qed
qed

text \<open>The requests the client of a session has been sent.\<close>

definition sent_to :: "ident \<Rightarrow> api_state \<Rightarrow> json list" where
  "sent_to sid st = (case get (fw_worker (aw_fleet st)) sid of None \<Rightarrow> [] | Some le \<Rightarrow> td_log (le_td le))"

lemma helpers_not_reserved: "k \<in> loaders \<union> helpers \<Longrightarrow> \<not> IsBlockedMethod k"
  by (auto simp: IsBlockedMethod_def blockedMethods_def loaders_def helpers_def)

lemma call_session_sends:
  assumes "call_session env sid token m ps st = (x, st')"
  shows "\<exists>qs. sent_to k st' = sent_to k st @ qs
    \<and> (\<forall>q \<in> set qs. \<exists>m' \<in> {m} \<union> loaders \<union> helpers. obj_get q ''@type'' = Some (JStr m'))"
proof (cases "get (fw_worker (aw_fleet st)) sid")
  case None
  then show ?thesis using assms by (simp add: call_session_def)
next
  case (Some le)
  let ?cc = "\<lparr>cc_state = \<lparr>cs_guard = le_guard le, cs_td = le_td le, cs_reg = fw_reg (aw_fleet st), cs_cache = aw_cache st,
      cs_jobs = [], cs_clock = ae_clock env, cs_tick = 0\<rparr>, cc_pending = wk_pending (fw_worker (aw_fleet st))\<rparr>"
  obtain r cc' where c: "Call (ae_waits env) (fe_dbt (ae_fleet env)) (ae_uploads env) (Some (le_ls le))
      \<lparr>cl_session = sid, cl_kind = ls_kind (le_ls le), cl_token = token\<rparr> m ps ?cc = (r, cc')"
    by fastforce
  have g: "get (wk\<lparr>wk_jobs := a, wk_pending := b\<rparr>) = get wk" for wk a b by (simp add: get_def fun_eq_iff)
  have "sent_to k st' = (if k = sid then td_log (cs_td (cc_state cc')) else sent_to k st)"
    using assms Some by (auto simp: call_session_def Let_def c sent_to_def g)
  moreover have "k = sid \<Longrightarrow> sent_to k st = td_log (cs_td (cc_state ?cc))" using Some by (simp add: sent_to_def)
  ultimately show ?thesis using Call_sends [OF c] by (auto simp: sends_only_def)
qed



subsection \<open>What a caller learns from a failure\<close>

lemma refused_td: "as_refused e = Some re \<Longrightarrow> \<not> is_path_denied e"
  "as_td e = Some te \<Longrightarrow> \<not> is_path_denied e"
  "as_td e = Some te \<Longrightarrow> as_refused e = None"
  by (induction e) auto

lemma httpStatusForTd_range: "400 \<le> httpStatusForTd c \<and> httpStatusForTd c \<le> 599"
  by (simp add: httpStatusForTd_def)

definition error_member :: "answer \<Rightarrow> string \<Rightarrow> json option" where
  "error_member a k =
     (case a of
        Envelope (Reply _ _ body) \<Rightarrow> (case obj_get body ''error'' of None \<Rightarrow> None | Some m \<Rightarrow> obj_get m k)
      | _ \<Rightarrow> None)"

definition answer_status :: "answer \<Rightarrow> int option" where
  "answer_status a = (case a of Envelope x \<Rightarrow> status_of x | FileBody _ _ \<Rightarrow> Some 200)"

definition answer_header :: "answer \<Rightarrow> string \<Rightarrow> string option" where
  "answer_header a k = (case a of Envelope (Reply _ hs _) \<Rightarrow> map_of hs k | FileBody hs _ \<Rightarrow> map_of hs k | _ \<Rightarrow> None)"

text \<open>What a failure of the call endpoint is to look like.\<close>

definition told_apart :: "api_env \<Rightarrow> err \<Rightarrow> answer \<Rightarrow> bool" where
  "told_apart env e a \<longleftrightarrow>
     (case as_refused e of
        Some re \<Rightarrow>
          answer_status a = Some 429 \<and> error_member a ''source'' = Some (JStr ''gateway'')
          \<and> error_member a ''code'' = Some (JStr ''rate_limited'')
          \<and> (\<exists>n \<ge> 1. answer_header a ''Retry-After'' = Some (itoa n) \<and> error_member a ''retry_after'' = Some (JInt n)
                  \<and> r_until re \<le> ae_now env + n * second)
      | None \<Rightarrow>
          (case as_td e of
             Some te \<Rightarrow>
               (\<exists>s. answer_status a = Some s \<and> 400 \<le> s \<and> s \<le> 599
                    \<and> (400 \<le> td_code te \<and> td_code te \<le> 599 \<and> td_code te \<noteq> 420 \<longrightarrow> s = td_code te))
               \<and> error_member a ''source'' = Some (JStr ''tdlib'')
               \<and> error_member a ''code'' = Some (JInt (td_code te))
               \<and> answer_header a ''Retry-After'' = map_option itoa (RetryAfter te)
           | None \<Rightarrow>
               answer_status a \<in> {Some 403, Some 502} \<and> error_member a ''source'' = Some (JStr ''gateway'')))"

lemma refused_wait:
  assumes "r_until re - now \<le> max_int64"
  shows "r_until re \<le> now + max (refused_RetryAfter now re) 1 * second"
proof -
  have "r_until re - now \<le> sub_time (r_until re) now" using assms by (simp add: sub_time_def)
  also have "\<dots> \<le> refused_RetryAfter now re * second"
    using ceil_seconds_bounds [of "sub_time (r_until re) now"] by (simp add: refused_RetryAfter_def)
  also have "\<dots> \<le> max (refused_RetryAfter now re) 1 * second"
    by (intro mult_right_mono) (simp_all add: second_def)
  finally show ?thesis by simp
qed

lemma failure_members:
  "answer_status (failure s hs ms) = Some s"
  "answer_header (failure s hs ms) k = map_of hs k"
  "error_member (failure s hs ms) k = map_of (rev ms) k"
  by (simp_all add: failure_def answer_status_def answer_header_def status_of_def error_member_def
      map_of_last_wins del: map_of_eq_Some_iff)

lemma writeErr_failure: "writeErr s msg = failure s [] [(''message'', JStr msg), (''source'', JStr ''gateway'')]"
  by (simp add: writeErr_def failure_def gateway_error_def)

lemma call_answer_told_apart:
  assumes "\<forall>re. as_refused e = Some re \<longrightarrow> r_until re - ae_now env \<le> max_int64"
  shows "told_apart env e (call_answer env (Inl e))"
proof (cases "as_refused e")
  case (Some re)
  then have a: "call_answer env (Inl e) = writeRefused env re"
    by (simp add: call_answer_def refused_td(1) writeCallErr_def)
  have "r_until re \<le> ae_now env + max (refused_RetryAfter (ae_now env) re) 1 * second"
    using assms Some by (simp add: refused_wait)
  then show ?thesis
    unfolding told_apart_def a writeRefused_def Let_def failure_members using Some
    by (auto intro!: exI [of _ "max (refused_RetryAfter (ae_now env) re) 1"])
next
  case None
  show ?thesis
  proof (cases "as_td e")
    case (Some te)
    then have "call_answer env (Inl e) = writeCallErr env e" by (simp add: call_answer_def refused_td(2))
    then show ?thesis
      using None Some httpStatusForTd_range [of "td_code te"]
      by (auto simp: told_apart_def writeCallErr_def failure_members omit_nil_def httpStatusForTd_def split: option.splits)
  next
    case N: None
    then show ?thesis
      using None by (auto simp: told_apart_def call_answer_def writeCallErr_def writeErr_failure failure_members)
  qed
qed


subsection \<open>A worker to try things on\<close>

definition busy_td :: td_env where
  "busy_td = silent_td\<lparr>td_answer := (\<lambda>_ _. Inr (''error'',
     JObj [(''code'', JInt 400), (''message'', JStr ''MESSAGE_EMPTY'')]))\<rparr>"

definition sample_api :: api_env where
  "sample_api = \<lparr>ae_fleet = sample_env, ae_now = 100, ae_clock = (\<lambda>n. 100), ae_newid = ''n1'', ae_late = False,
     ae_meanwhile = (\<lambda>x. x), ae_waits = (\<lambda>_. True), ae_uploads = ''/uploads'', ae_io = calm_io,
     ae_execute = (\<lambda>_. Inr (''ok'', JObj [])), ae_text = (\<lambda>_. ''''), ae_time = itoa,
     ae_url = (\<lambda>u. Some (''https'', u)), ae_base64 = (\<lambda>b. b), ae_open = (\<lambda>_. Opened)\<rparr>"

definition sample_api_state :: api_state where
  "sample_api_state =
     \<lparr>aw_fleet = (sample_fleet ''w1'')\<lparr>fw_worker := update_live ''s1'' (\<lambda>le. le\<lparr>le_td := busy_td\<rparr>) (holding ''s1'')\<rparr>,
      aw_cache = \<lparr>rc_rules = [], rc_at = 0\<rparr>, aw_data = \<lparr>v_dirs = [], v_files = []\<rparr>\<rparr>"

definition call_request :: "string \<Rightarrow> json \<Rightarrow> request" where
  "call_request m ps = \<lparr>hr_method = ''POST'', hr_segs = [''v1'', ''user'', ''s1'', ''call''], hr_headers = [], hr_query = [],
     hr_json = RawVal (JObj [(''method'', JStr m), (''params'', ps)]), hr_json_size = 80, hr_length = 80\<rparr>"


lemma sample_call_fails:
  "map_option as_td (err_of (fst (call_session sample_api ''s1'' '''' ''sendMessage'' (RawVal (JObj [])) sample_api_state)))
   = Some (Some \<lparr>td_code = 400, td_message = ''MESSAGE_EMPTY''\<rparr>)"
  by code_simp


end
