(* ===== verification/Integrity.thy ===== *)
theory Integrity
  imports Sends Workers Deliveries
begin

section \<open>The registry stays well formed\<close>

text \<open>
  What the tables of \<^verbatim>\<open>internal/store/migrations.go\<close> promise of their rows (keys, references, the checks
  on a rule) and one thing they do not: a delivery belongs to the session of its subscription. Every
  statement of the store that changes the registry is a step; none breaks it, the cascades of a removed
  session and of a removed token included.
\<close>

subsection \<open>Well formed\<close>

text \<open>What references and keys look at in each table.\<close>

record shape =
  sh_apps :: "ident list"
  sh_proxies :: "ident list"
  sh_sessions :: "(ident \<times> string \<times> ident \<times> ident option) list"
  sh_tokens :: "ident list"
  sh_subs :: "(ident \<times> ident \<times> ident option) list"
  sh_workers :: "ident list"
  sh_deliveries :: "(ident \<times> ident) list"
  sh_sent :: "(ident \<times> int \<times> int) list"
  sh_cooldowns :: "(ident \<times> string) list"
  sh_token_apps :: "(ident \<times> ident) list"
  sh_token_sessions :: "(ident \<times> ident) list"
  sh_rules :: "(ident \<times> ident option \<times> ident option \<times> bool) list"

definition shape_of :: "registry \<Rightarrow> shape" where
  "shape_of reg =
     \<lparr>sh_apps = map app_id (apps reg), sh_proxies = map px_id (proxies reg),
      sh_sessions = map (\<lambda>s. (s_id s, s_kind s, s_app s, s_proxy s)) (sessions reg),
      sh_tokens = map t_id (tokens reg),
      sh_subs = map (\<lambda>x. (sub_id x, sub_session x, sub_token x)) (subs reg),
      sh_workers = map w_id (workers reg),
      sh_deliveries = map (\<lambda>d. (d_sub d, d_session d)) (deliveries reg),
      sh_sent = map sent_key (sent reg),
      sh_cooldowns = map (\<lambda>c. (cd_session c, cd_scope c)) (cooldowns reg),
      sh_token_apps = token_apps reg, sh_token_sessions = token_sessions reg,
      sh_rules = map (\<lambda>l. (l_id l, l_session l, l_token l, limit_checks l)) (rate_limit (quota reg))\<rparr>"

definition ref_ok :: "'a option \<Rightarrow> 'a set \<Rightarrow> bool" where
  "ref_ok x A \<longleftrightarrow> (case x of None \<Rightarrow> True | Some a \<Rightarrow> a \<in> A)"

definition session_keys :: "shape \<Rightarrow> ident set" where
  "session_keys h = fst ` set (sh_sessions h)"

definition keys_distinct :: "shape \<Rightarrow> bool" where
  "keys_distinct h \<longleftrightarrow>
     distinct (sh_apps h) \<and> distinct (sh_proxies h) \<and> distinct (map fst (sh_sessions h)) \<and> distinct (sh_tokens h)
     \<and> distinct (map fst (sh_subs h)) \<and> distinct (sh_workers h) \<and> distinct (sh_sent h) \<and> distinct (sh_cooldowns h)
     \<and> distinct (sh_token_apps h) \<and> distinct (sh_token_sessions h) \<and> distinct (map fst (sh_rules h))"

definition session_ref :: "shape \<Rightarrow> ident \<times> string \<times> ident \<times> ident option \<Rightarrow> bool" where
  "session_ref h r \<longleftrightarrow>
     (case r of (_, kind, app, proxy) \<Rightarrow>
        kind \<in> {''user'', ''bot''} \<and> app \<in> set (sh_apps h) \<and> ref_ok proxy (set (sh_proxies h)))"

definition sub_ref :: "shape \<Rightarrow> ident \<times> ident \<times> ident option \<Rightarrow> bool" where
  "sub_ref h r \<longleftrightarrow> (case r of (_, s, t) \<Rightarrow> s \<in> session_keys h \<and> ref_ok t (set (sh_tokens h)))"

definition delivery_ref :: "shape \<Rightarrow> ident \<times> ident \<Rightarrow> bool" where
  "delivery_ref h r \<longleftrightarrow> (case r of (x, s) \<Rightarrow> \<exists>t. (x, s, t) \<in> set (sh_subs h))"

definition of_session :: "shape \<Rightarrow> ident \<times> 'a \<Rightarrow> bool" where
  "of_session h r \<longleftrightarrow> fst r \<in> session_keys h"

definition app_grant_ref :: "shape \<Rightarrow> ident \<times> ident \<Rightarrow> bool" where
  "app_grant_ref h r \<longleftrightarrow> fst r \<in> set (sh_tokens h) \<and> snd r \<in> set (sh_apps h)"

definition session_grant_ref :: "shape \<Rightarrow> ident \<times> ident \<Rightarrow> bool" where
  "session_grant_ref h r \<longleftrightarrow> fst r \<in> set (sh_tokens h) \<and> snd r \<in> session_keys h"

definition rule_ref :: "shape \<Rightarrow> ident \<times> ident option \<times> ident option \<times> bool \<Rightarrow> bool" where
  "rule_ref h r \<longleftrightarrow>
     (case r of (_, s, t, checks) \<Rightarrow> ref_ok s (session_keys h) \<and> ref_ok t (set (sh_tokens h)) \<and> checks)"

definition refs_ok :: "shape \<Rightarrow> bool" where
  "refs_ok h \<longleftrightarrow>
     list_all (session_ref h) (sh_sessions h) \<and> list_all (sub_ref h) (sh_subs h)
     \<and> list_all (delivery_ref h) (sh_deliveries h)
     \<and> list_all (of_session h) (sh_sent h) \<and> list_all (of_session h) (sh_cooldowns h)
     \<and> list_all (app_grant_ref h) (sh_token_apps h) \<and> list_all (session_grant_ref h) (sh_token_sessions h)
     \<and> list_all (rule_ref h) (sh_rules h)"

lemmas ref_defs = session_ref_def sub_ref_def delivery_ref_def of_session_def app_grant_ref_def
  session_grant_ref_def rule_ref_def session_keys_def

definition registry_ok :: "registry \<Rightarrow> bool" where
  "registry_ok reg \<longleftrightarrow> keys_distinct (shape_of reg) \<and> refs_ok (shape_of reg)"

subsection \<open>The statements\<close>

inductive store_step :: "registry \<Rightarrow> registry \<Rightarrow> bool" where
  create_app: "CreateApp newid now a e l reg = (i, reg') \<Longrightarrow> newid \<notin> app_id ` set (apps reg) \<Longrightarrow> store_step reg reg'"
| create_proxy: "CreateProxy newid now p reg = Inr (i, reg') \<Longrightarrow> newid \<notin> px_id ` set (proxies reg) \<Longrightarrow> store_step reg reg'"
| label_app: "UpdateAppLabel i l reg = Inr (b, reg') \<Longrightarrow> store_step reg reg'"
| label_proxy: "UpdateProxyLabel i l reg = Inr (b, reg') \<Longrightarrow> store_step reg reg'"
| create_session: "CreateSession newid now n reg = Inr (i, reg') \<Longrightarrow> newid \<notin> s_id ` set (sessions reg) \<Longrightarrow> store_step reg reg'"
| set_dir: "SetSessionDBDir now sid d reg = Inr reg' \<Longrightarrow> store_step reg reg'"
| set_status: "store_step reg (UpdateSessionStatus now sid st reg)"
| expire_logins: "store_step reg (snd (ExpireStaleLogins now cutoff grace reg))"
| update_meta: "UpdateSessionMeta now sid l p reg = Inr (b, reg') \<Longrightarrow> store_step reg reg'"
| delete_session: "Registry.DeleteSession sid reg = Inr (b, reg') \<Longrightarrow> store_step reg reg'"
| set_premium: "store_step reg (SetSessionPremium sid b reg)"
| set_frozen: "store_step reg (SetSessionFrozen now sid b reg)"
| set_freeze: "store_step reg (SetSessionFreeze sid since del appeal reg)"
| set_cooldown: "SetCooldown sid c reg = Inr reg' \<Longrightarrow> store_step reg reg'"
| purge_cooldowns: "store_step reg (snd (PurgeCooldowns t reg))"
| delete_cooldown: "store_step reg (snd (DeleteCooldown sid scope reg))"
| register_worker: "store_step reg (RegisterWorker now w addr reg)"
| deregister_worker: "store_step reg (DeregisterWorker w reg)"
| purge_workers: "store_step reg (snd (PurgeWorkers t reg))"
| set_session_owner: "SetSessionOwner now sid w reg = Inr reg' \<Longrightarrow> store_step reg reg'"
| claim: "store_step reg (snd (ClaimOrphans locked now w cutoff lim reg))"
| release_all: "store_step reg (snd (ReleaseSessions now w reg))"
| release: "ReleaseSession now sid reg = Inr reg' \<Longrightarrow> store_step reg reg'"
| create_token: "CreateToken newid now nm h en alls as ss reg = Inr (i, reg') \<Longrightarrow> newid \<notin> t_id ` set (tokens reg) \<Longrightarrow> store_step reg reg'"
| update_token: "UpdateToken tok p reg = Inr (b, reg') \<Longrightarrow> store_step reg reg'"
| delete_token: "DeleteToken tok reg = Inr (b, reg') \<Longrightarrow> store_step reg reg'"
| create_sub: "CreateSubscription newid now sid tok url e f reg = Inr (i, reg') \<Longrightarrow> newid \<notin> sub_id ` set (subs reg) \<Longrightarrow> store_step reg reg'"
| delete_sub: "DeleteSubscription sid tok x reg = Inr (b, reg') \<Longrightarrow> store_step reg reg'"
| add_dropped: "AddDropped sid n reg = Inr reg' \<Longrightarrow> store_step reg reg'"
| enqueue: "EnqueueDeliveries newids now sid ids p reg = Inr reg' \<Longrightarrow> store_step reg reg'"
| delivered: "store_step reg (MarkDelivered now i reg)"
| failed: "store_step reg (FailDelivery now i next giveUp reason reg)"
| purge_deliveries: "store_step reg (snd (PurgeDeliveries t reg))"
| register_send: "RegisterSend now sid c t reg = Inr reg' \<Longrightarrow> store_step reg reg'"
| record_outcome: "RecordSendOutcome now sid c t fin e reg = Inr reg' \<Longrightarrow> store_step reg reg'"
| purge_sends: "PurgeSends t reg = Inr (n, reg') \<Longrightarrow> store_step reg reg'"
| create_limit: "CreateLimit (\<lambda>s. session_exists s reg) (\<lambda>t. list_ex (\<lambda>r. t_id r = t) (tokens reg)) newid now l (quota reg) = Inr (row, q)
    \<Longrightarrow> newid \<notin> l_id ` set (rate_limit (quota reg)) \<Longrightarrow> store_step reg (reg\<lparr>quota := q\<rparr>)"
| update_limit: "UpdateLimit l (quota reg) = Inr (row, q) \<Longrightarrow> store_step reg (reg\<lparr>quota := q\<rparr>)"
| delete_limit: "store_step reg (reg\<lparr>quota := snd (DeleteLimit lid (quota reg))\<rparr>)"
| count_calls: "rate_limit q = rate_limit (quota reg) \<Longrightarrow> store_step reg (reg\<lparr>quota := q\<rparr>)"

text \<open>The last one stands for taking, giving back and purging counters, which leave the rules alone.\<close>

inductive store_reach :: "registry \<Rightarrow> registry \<Rightarrow> bool" for r0 where
  start: "store_reach r0 r0"
| step: "store_reach r0 reg \<Longrightarrow> store_step reg reg' \<Longrightarrow> store_reach r0 reg'"


subsection \<open>Statements that leave the shape alone\<close>

lemma map_if_same: "(\<And>x. g (f x) = g x) \<Longrightarrow> map g (map (\<lambda>x. if P x then f x else x) xs) = map g xs"
  by (induction xs) auto

lemma map_if_same_comp: "(\<And>x. g (f x) = g x) \<Longrightarrow> map (g \<circ> (\<lambda>x. if P x then f x else x)) xs = map g xs"
  using map_if_same [of g f P xs] by simp

lemma shape_sessions:
  assumes "\<And>s. s_id (f s) = s_id s \<and> s_kind (f s) = s_kind s \<and> s_app (f s) = s_app s \<and> s_proxy (f s) = s_proxy s"
  shows "shape_of (reg\<lparr>sessions := map (\<lambda>s. if P s then f s else s) (sessions reg)\<rparr>) = shape_of reg"
  using map_if_same [of "\<lambda>s. (s_id s, s_kind s, s_app s, s_proxy s)" f P "sessions reg"] assms
  by (simp add: shape_of_def)

lemma shape_update_session:
  "(\<And>s. s_id (f s) = s_id s \<and> s_kind (f s) = s_kind s \<and> s_app (f s) = s_app s \<and> s_proxy (f s) = s_proxy s)
   \<Longrightarrow> shape_of (update_session sid f reg) = shape_of reg"
  unfolding update_session_def by (rule shape_sessions)

lemma shape_set_owner [simp]: "shape_of (set_owner now w P reg) = shape_of reg"
  unfolding set_owner_def by (rule shape_sessions) simp

lemma shape_subs:
  assumes "\<And>x. sub_id (f x) = sub_id x \<and> sub_session (f x) = sub_session x \<and> sub_token (f x) = sub_token x"
  shows "shape_of (reg\<lparr>subs := map (\<lambda>x. if P x then f x else x) (subs reg)\<rparr>) = shape_of reg"
  using map_if_same [of "\<lambda>x. (sub_id x, sub_session x, sub_token x)" f P "subs reg"] assms
  by (simp add: shape_of_def)

lemma shape_update_delivery:
  assumes "\<And>d. d_sub (f d) = d_sub d \<and> d_session (f d) = d_session d"
  shows "shape_of (update_delivery i f reg) = shape_of reg"
  using map_if_same [of "\<lambda>d. (d_sub d, d_session d)" f "\<lambda>d. d_id d = i" "deliveries reg"] assms
  by (simp add: update_delivery_def shape_of_def)

lemma shape_touch_sub:
  "(\<And>x. sub_id (f x) = sub_id x \<and> sub_session (f x) = sub_session x \<and> sub_token (f x) = sub_token x)
   \<Longrightarrow> shape_of (touch_sub i f reg) = shape_of reg"
  unfolding touch_sub_def by (rule shape_subs)

lemma shape_labels:
  "UpdateAppLabel i l reg = Inr (b, reg') \<Longrightarrow> shape_of reg' = shape_of reg"
  "UpdateProxyLabel i l reg = Inr (b, reg') \<Longrightarrow> shape_of reg' = shape_of reg"
  using map_if_same [of app_id "\<lambda>a. a\<lparr>app_label := nullStr l\<rparr>" "\<lambda>a. app_id a = i" "apps reg"]
    map_if_same [of px_id "\<lambda>a. a\<lparr>px_label := nullStr l\<rparr>" "\<lambda>a. px_id a = i" "proxies reg"]
  by (auto simp: UpdateAppLabel_def UpdateProxyLabel_def shape_of_def)

lemma shape_session_writes:
  "SetSessionDBDir now sid d reg = Inr reg' \<Longrightarrow> shape_of reg' = shape_of reg"
  "shape_of (UpdateSessionStatus now sid st reg) = shape_of reg"
  "shape_of (snd (ExpireStaleLogins now cutoff grace reg)) = shape_of reg"
  "shape_of (SetSessionPremium sid b reg) = shape_of reg"
  "shape_of (SetSessionFrozen now sid b reg) = shape_of reg"
  "shape_of (SetSessionFreeze sid since del appeal reg) = shape_of reg"
  by (auto simp: SetSessionDBDir_def UpdateSessionStatus_def ExpireStaleLogins_def SetSessionPremium_def
      SetSessionFrozen_def SetSessionFreeze_def shape_update_session shape_sessions split: if_splits)

lemma shape_lease:
  "SetSessionOwner now sid w reg = Inr reg' \<Longrightarrow> shape_of reg' = shape_of reg"
  "shape_of (snd (ClaimOrphans locked now w cutoff lim reg)) = shape_of reg"
  "shape_of (snd (ReleaseSessions now w reg)) = shape_of reg"
  "ReleaseSession now sid reg = Inr reg' \<Longrightarrow> shape_of reg' = shape_of reg"
  by (auto simp: SetSessionOwner_def ClaimOrphans_def ReleaseSessions_def ReleaseSession_def Let_def)

lemma shape_queue_writes:
  "AddDropped sid n reg = Inr reg' \<Longrightarrow> shape_of reg' = shape_of reg"
  "shape_of (MarkDelivered now i reg) = shape_of reg"
  "shape_of (FailDelivery now i next giveUp reason reg) = shape_of reg"
  by (auto simp: AddDropped_def MarkDelivered_def FailDelivery_def shape_subs shape_update_delivery shape_touch_sub
      split: if_splits)

subsection \<open>Statements that only remove from a table nothing refers to\<close>

definition shrinks :: "'a list \<Rightarrow> 'a list \<Rightarrow> bool" where
  "shrinks xs ys \<longleftrightarrow> set ys \<subseteq> set xs \<and> (distinct xs \<longrightarrow> distinct ys)"

lemma shrinks_filter [simp]: "shrinks (map f xs) (map f (filter P xs))"
  by (auto simp: shrinks_def distinct_map_filter)

lemma shrinks_refl [simp]: "shrinks xs xs"
  by (simp add: shrinks_def)

lemma list_all_sub: "list_all P xs \<Longrightarrow> set ys \<subseteq> set xs \<Longrightarrow> list_all P ys"
  by (auto simp: list_all_iff)

lemma leaf_refs [simp]:
  "session_ref (h\<lparr>sh_workers := ws, sh_deliveries := ds, sh_sent := ms, sh_cooldowns := cs, sh_rules := rs\<rparr>) = session_ref h"
  "sub_ref (h\<lparr>sh_workers := ws, sh_deliveries := ds, sh_sent := ms, sh_cooldowns := cs, sh_rules := rs\<rparr>) = sub_ref h"
  "delivery_ref (h\<lparr>sh_workers := ws, sh_deliveries := ds, sh_sent := ms, sh_cooldowns := cs, sh_rules := rs\<rparr>) = delivery_ref h"
  "of_session (h\<lparr>sh_workers := ws, sh_deliveries := ds, sh_sent := ms, sh_cooldowns := cs, sh_rules := rs\<rparr>) = of_session h"
  "app_grant_ref (h\<lparr>sh_workers := ws, sh_deliveries := ds, sh_sent := ms, sh_cooldowns := cs, sh_rules := rs\<rparr>) = app_grant_ref h"
  "session_grant_ref (h\<lparr>sh_workers := ws, sh_deliveries := ds, sh_sent := ms, sh_cooldowns := cs, sh_rules := rs\<rparr>) = session_grant_ref h"
  "rule_ref (h\<lparr>sh_workers := ws, sh_deliveries := ds, sh_sent := ms, sh_cooldowns := cs, sh_rules := rs\<rparr>) = rule_ref h"
  by (simp_all add: fun_eq_iff ref_defs)

text \<open>Only leaves change: workers, deliveries, sends, cooldowns and rules, to which no row refers.\<close>

lemma leaves_ok:
  assumes "registry_ok reg"
    and "shape_of reg' = (shape_of reg)\<lparr>sh_workers := ws, sh_deliveries := ds, sh_sent := ms, sh_cooldowns := cs, sh_rules := rs\<rparr>"
    and "distinct ws" "distinct ms" "distinct cs" "distinct (map fst rs)"
    and "list_all (delivery_ref (shape_of reg)) ds" "list_all (of_session (shape_of reg)) ms"
    and "list_all (of_session (shape_of reg)) cs" "list_all (rule_ref (shape_of reg)) rs"
  shows "registry_ok reg'"
  using assms by (simp add: registry_ok_def keys_distinct_def refs_ok_def)

lemma leaves_shrink:
  assumes "registry_ok reg"
    and "shape_of reg' = (shape_of reg)\<lparr>sh_workers := ws, sh_deliveries := ds, sh_sent := ms, sh_cooldowns := cs, sh_rules := rs\<rparr>"
    and "shrinks (sh_workers (shape_of reg)) ws" "set ds \<subseteq> set (sh_deliveries (shape_of reg))"
    and "shrinks (sh_sent (shape_of reg)) ms" "shrinks (sh_cooldowns (shape_of reg)) cs"
    and "shrinks (map fst (sh_rules (shape_of reg))) (map fst rs)" "set rs \<subseteq> set (sh_rules (shape_of reg))"
  shows "registry_ok reg'"
proof (rule leaves_ok [OF assms(1,2)])
  note a = assms(1) [unfolded registry_ok_def keys_distinct_def refs_ok_def]
  show "distinct ws" "distinct ms" "distinct cs" "distinct (map fst rs)"
    using a assms(3,5-7) by (simp_all add: shrinks_def)
  show "list_all (delivery_ref (shape_of reg)) ds" "list_all (of_session (shape_of reg)) ms"
    "list_all (of_session (shape_of reg)) cs" "list_all (rule_ref (shape_of reg)) rs"
    using a assms(4-6,8) list_all_sub by (auto simp: shrinks_def)
qed

lemma same_shape: "shape_of reg' = shape_of reg \<Longrightarrow> registry_ok reg \<Longrightarrow> registry_ok reg'"
  by (simp add: registry_ok_def)

lemma purges_ok:
  assumes "registry_ok reg"
  shows "registry_ok (snd (PurgeCooldowns t reg))" "registry_ok (snd (DeleteCooldown sid scope reg))"
    and "registry_ok (DeregisterWorker w reg)" "registry_ok (snd (PurgeWorkers t reg))"
    and "registry_ok (snd (PurgeDeliveries t reg))" "PurgeSends t reg = Inr (n, reg') \<Longrightarrow> registry_ok reg'"
    and "registry_ok (reg\<lparr>quota := snd (DeleteLimit lid (quota reg))\<rparr>)"
proof -

  note l = leaves_shrink [OF assms]
  show "registry_ok (snd (PurgeCooldowns t reg))"
    by (rule l) (auto simp: PurgeCooldowns_def shape_of_def)
  show "registry_ok (snd (DeleteCooldown sid scope reg))"
    by (rule l) (auto simp: DeleteCooldown_def shape_of_def)
  show "registry_ok (DeregisterWorker w reg)"
    by (rule l) (auto simp: DeregisterWorker_def shape_of_def)
  show "registry_ok (snd (PurgeWorkers t reg))"
    by (rule l) (auto simp: PurgeWorkers_def shape_of_def)
  show "registry_ok (snd (PurgeDeliveries t reg))"
    by (rule l) (auto simp: PurgeDeliveries_def shape_of_def)
  show "PurgeSends t reg = Inr (n, reg') \<Longrightarrow> registry_ok reg'"
    by (rule l) (auto simp: PurgeSends_def shape_of_def split: if_splits)
  show "registry_ok (reg\<lparr>quota := snd (DeleteLimit lid (quota reg))\<rparr>)"
    by (rule l) (auto simp: DeleteLimit_def shape_of_def comp_def)
qed

subsection \<open>Statements that add or replace\<close>

text \<open>What rows refer to only grows: a row refers well if it did before, or if it is new and refers well now.\<close>

definition grows :: "shape \<Rightarrow> shape \<Rightarrow> bool" where
  "grows h h' \<longleftrightarrow> set (sh_apps h) \<subseteq> set (sh_apps h') \<and> set (sh_proxies h) \<subseteq> set (sh_proxies h')
     \<and> session_keys h \<subseteq> session_keys h' \<and> set (sh_tokens h) \<subseteq> set (sh_tokens h') \<and> set (sh_subs h) \<subseteq> set (sh_subs h')"

lemma ref_ok_mono: "ref_ok x A \<Longrightarrow> A \<subseteq> B \<Longrightarrow> ref_ok x B"
  by (auto simp: ref_ok_def split: option.splits)

lemma refs_grow:
  assumes "grows h h'"
  shows "session_ref h \<le> session_ref h'" "sub_ref h \<le> sub_ref h'" "delivery_ref h \<le> delivery_ref h'"
    "of_session h \<le> of_session h'" "app_grant_ref h \<le> app_grant_ref h'"
    "session_grant_ref h \<le> session_grant_ref h'" "rule_ref h \<le> rule_ref h'"
  using assms by (auto simp: grows_def session_ref_def sub_ref_def delivery_ref_def of_session_def app_grant_ref_def
      session_grant_ref_def rule_ref_def split: prod.splits elim: ref_ok_mono) blast

definition fresh_ok :: "('a \<Rightarrow> bool) \<Rightarrow> 'a list \<Rightarrow> 'a list \<Rightarrow> bool" where
  "fresh_ok P old new \<longleftrightarrow> (\<forall>r \<in> set new. r \<in> set old \<or> P r)"

lemma fresh_same [simp]: "fresh_ok P xs xs"
  by (simp add: fresh_ok_def)

lemma fresh_all: "fresh_ok P' old new \<Longrightarrow> P \<le> P' \<Longrightarrow> list_all P old \<Longrightarrow> list_all P' new"
  by (auto simp: fresh_ok_def list_all_iff)

lemma grown_ok:
  assumes "registry_ok reg" "keys_distinct (shape_of reg) \<Longrightarrow> keys_distinct (shape_of reg')"
    and g: "grows (shape_of reg) (shape_of reg')"
    and f: "fresh_ok (session_ref (shape_of reg')) (sh_sessions (shape_of reg)) (sh_sessions (shape_of reg'))"
      "fresh_ok (sub_ref (shape_of reg')) (sh_subs (shape_of reg)) (sh_subs (shape_of reg'))"
      "fresh_ok (delivery_ref (shape_of reg')) (sh_deliveries (shape_of reg)) (sh_deliveries (shape_of reg'))"
      "fresh_ok (of_session (shape_of reg')) (sh_sent (shape_of reg)) (sh_sent (shape_of reg'))"
      "fresh_ok (of_session (shape_of reg')) (sh_cooldowns (shape_of reg)) (sh_cooldowns (shape_of reg'))"
      "fresh_ok (app_grant_ref (shape_of reg')) (sh_token_apps (shape_of reg)) (sh_token_apps (shape_of reg'))"
      "fresh_ok (session_grant_ref (shape_of reg')) (sh_token_sessions (shape_of reg)) (sh_token_sessions (shape_of reg'))"
      "fresh_ok (rule_ref (shape_of reg')) (sh_rules (shape_of reg)) (sh_rules (shape_of reg'))"
  shows "registry_ok reg'"
proof -
  have "keys_distinct (shape_of reg)" and old: "refs_ok (shape_of reg)"
    using assms(1) by (simp_all add: registry_ok_def)
  note a = old [unfolded refs_ok_def]
  note m = refs_grow [OF g]
  have "list_all (session_ref (shape_of reg')) (sh_sessions (shape_of reg'))"
    "list_all (sub_ref (shape_of reg')) (sh_subs (shape_of reg'))"
    "list_all (delivery_ref (shape_of reg')) (sh_deliveries (shape_of reg'))"
    using fresh_all [OF f(1) m(1)] fresh_all [OF f(2) m(2)] fresh_all [OF f(3) m(3)] a by simp_all
  moreover have "list_all (of_session (shape_of reg')) (sh_sent (shape_of reg'))"
    "list_all (of_session (shape_of reg')) (sh_cooldowns (shape_of reg'))"
    "list_all (app_grant_ref (shape_of reg')) (sh_token_apps (shape_of reg'))"
    using fresh_all [OF f(4) m(4)] fresh_all [OF f(5) m(4)] fresh_all [OF f(6) m(5)] a by simp_all
  moreover have "list_all (session_grant_ref (shape_of reg')) (sh_token_sessions (shape_of reg'))"
    "list_all (rule_ref (shape_of reg')) (sh_rules (shape_of reg'))"
    using fresh_all [OF f(7) m(6)] fresh_all [OF f(8) m(7)] a by simp_all
  ultimately show ?thesis
    using assms(2) \<open>keys_distinct (shape_of reg)\<close> by (simp add: registry_ok_def refs_ok_def)
qed

lemmas grown = grows_def fresh_ok_def keys_distinct_def shape_of_def ref_defs ref_ok_def

lemma map_fst_triple [simp]: "map fst (map (\<lambda>x. (f x, g x)) xs) = map f xs"
  by simp

lemma list_ex_image: "list_ex (\<lambda>x. f x = v) xs \<longleftrightarrow> v \<in> f ` set xs"
  by (auto simp: list_ex_iff)

lemma accounts_added:
  assumes "registry_ok reg"
  shows "CreateApp i now a e l reg = (j, reg') \<Longrightarrow> i \<notin> app_id ` set (apps reg) \<Longrightarrow> registry_ok reg'"
    and "CreateProxy i now p reg = Inr (j, reg') \<Longrightarrow> i \<notin> px_id ` set (proxies reg) \<Longrightarrow> registry_ok reg'"
    and "CreateSession i now n reg = Inr (j, reg') \<Longrightarrow> i \<notin> s_id ` set (sessions reg) \<Longrightarrow> registry_ok reg'"
    and "registry_ok (RegisterWorker now w addr reg)"
proof -
  note g = grown_ok [OF assms]
  show "registry_ok reg'" if "CreateApp i now a e l reg = (j, reg')" "i \<notin> app_id ` set (apps reg)"
    by (rule g) (use that in \<open>auto simp: CreateApp_def grown\<close>)
  show "registry_ok reg'" if "CreateProxy i now p reg = Inr (j, reg')" "i \<notin> px_id ` set (proxies reg)"
    by (rule g) (use that in \<open>auto simp: CreateProxy_def grown split: if_splits\<close>)
  show "registry_ok reg'" if c: "CreateSession i now n reg = Inr (j, reg')" "i \<notin> s_id ` set (sessions reg)"
  proof -
    let ?r = "(i, n_kind n, n_app n, nullStr (n_proxy n))"
    have sh: "shape_of reg' = (shape_of reg)\<lparr>sh_sessions := sh_sessions (shape_of reg) @ [?r]\<rparr>"
      using c by (auto simp: CreateSession_def shape_of_def split: if_splits)
    have "session_ref (shape_of reg) ?r"
      using c(1) by (simp add: CreateSession_def session_ref_def shape_of_def ref_ok_def nullStr_def list_ex_image
          split: if_split_asm)
    then have new: "session_ref (shape_of reg') ?r"
      by (simp add: sh session_ref_def)
    have key: "i \<notin> fst ` set (sh_sessions (shape_of reg))"
      using c(2) by (auto simp: shape_of_def)
    show ?thesis
      by (rule g) (use new key in \<open>auto simp: sh fresh_ok_def grows_def session_keys_def keys_distinct_def\<close>)
  qed
  show "registry_ok (RegisterWorker now w addr reg)"
    by (rule g) (auto simp: RegisterWorker_def grown list_ex_iff map_if_same_comp)
qed

lemma meta_changed:
  assumes "registry_ok reg" "UpdateSessionMeta now sid l p reg = Inr (b, reg')"
  shows "registry_ok reg'"
proof -
  let ?new = "\<lambda>s. (s_id s, s_kind s, s_app s, if s_id s = sid then (case p of None \<Rightarrow> s_proxy s | Some q \<Rightarrow> nullStr q)
    else s_proxy s)"
  have same: "reg' = reg" if "l = None" "p = None"
    using assms(2) that by (simp add: UpdateSessionMeta_def)
  have sh: "shape_of reg' = (shape_of reg)\<lparr>sh_sessions := map ?new (sessions reg)\<rparr>" if "l \<noteq> None \<or> p \<noteq> None"
    using assms(2) that by (auto simp: UpdateSessionMeta_def update_session_def shape_of_def split: if_split_asm)
  have target: "nullStr q = None \<or> the (nullStr q) \<in> px_id ` set (proxies reg)" if "p = Some q" "s \<in> set (sessions reg)" "s_id s = sid" for q s
    using assms(2) that
    by (auto simp: UpdateSessionMeta_def session_exists_def list_ex_iff nullStr_def split: if_split_asm)
  have old: "session_ref (shape_of reg) (s_id s, s_kind s, s_app s, s_proxy s)" if "s \<in> set (sessions reg)" for s
    using assms(1) that by (auto simp: registry_ok_def refs_ok_def list_all_iff shape_of_def)
  have new: "session_ref (shape_of reg) (?new s)" if "s \<in> set (sessions reg)" for s
    using old [OF that] target [OF _ that]
    by (auto simp: session_ref_def ref_ok_def shape_of_def split: option.splits)
  show ?thesis
  proof (cases "l = None \<and> p = None")
    case True
    then show ?thesis using same assms(1) by simp
  next
    case False
    then have sh: "shape_of reg' = (shape_of reg)\<lparr>sh_sessions := map ?new (sessions reg)\<rparr>" using sh by simp
    have k: "map fst (map ?new (sessions reg)) = map fst (sh_sessions (shape_of reg))"
      by (simp add: shape_of_def comp_def)
    have keys: "fst ` set (map ?new (sessions reg)) = fst ` set (sh_sessions (shape_of reg))"
      using arg_cong [OF k, of set] by (simp only: set_map)
    show ?thesis
    proof (rule grown_ok [OF assms(1)])
      show "fresh_ok (session_ref (shape_of reg')) (sh_sessions (shape_of reg)) (sh_sessions (shape_of reg'))"
        using new by (auto simp: fresh_ok_def sh session_ref_def)
    qed (use k keys in \<open>simp_all del: map_map set_map list.map_comp add: sh grows_def keys_distinct_def session_keys_def\<close>)
  qed
qed

text \<open>Rows added to a leaf, or replaced there under their key.\<close>

lemma one_leaf:
  assumes "registry_ok reg"
  shows "shape_of reg' = (shape_of reg)\<lparr>sh_cooldowns := cs\<rparr> \<Longrightarrow> distinct cs
      \<Longrightarrow> list_all (of_session (shape_of reg)) cs \<Longrightarrow> registry_ok reg'"
    and "shape_of reg' = (shape_of reg)\<lparr>sh_sent := ms\<rparr> \<Longrightarrow> distinct ms
      \<Longrightarrow> list_all (of_session (shape_of reg)) ms \<Longrightarrow> registry_ok reg'"
    and "shape_of reg' = (shape_of reg)\<lparr>sh_deliveries := ds\<rparr> \<Longrightarrow> list_all (delivery_ref (shape_of reg)) ds \<Longrightarrow> registry_ok reg'"
    and "shape_of reg' = (shape_of reg)\<lparr>sh_rules := rs\<rparr> \<Longrightarrow> distinct (map fst rs)
      \<Longrightarrow> list_all (rule_ref (shape_of reg)) rs \<Longrightarrow> registry_ok reg'"
proof -
  let ?h = "shape_of reg"
  note l = leaves_ok [OF assms, where ws = "sh_workers ?h"]
  note a = assms [unfolded registry_ok_def keys_distinct_def refs_ok_def]
  show "registry_ok reg'" if "shape_of reg' = ?h\<lparr>sh_cooldowns := cs\<rparr>" "distinct cs" "list_all (of_session ?h) cs"
    by (rule l [where ds = "sh_deliveries ?h" and ms = "sh_sent ?h" and cs = cs and rs = "sh_rules ?h"])
      (use a that in simp_all)
  show "registry_ok reg'" if "shape_of reg' = ?h\<lparr>sh_sent := ms\<rparr>" "distinct ms" "list_all (of_session ?h) ms"
    by (rule l [where ds = "sh_deliveries ?h" and ms = ms and cs = "sh_cooldowns ?h" and rs = "sh_rules ?h"])
      (use a that in simp_all)
  show "registry_ok reg'" if "shape_of reg' = ?h\<lparr>sh_deliveries := ds\<rparr>" "list_all (delivery_ref ?h) ds"
    by (rule l [where ds = ds and ms = "sh_sent ?h" and cs = "sh_cooldowns ?h" and rs = "sh_rules ?h"])
      (use a that in simp_all)
  show "registry_ok reg'" if "shape_of reg' = ?h\<lparr>sh_rules := rs\<rparr>" "distinct (map fst rs)" "list_all (rule_ref ?h) rs"
    by (rule l [where ds = "sh_deliveries ?h" and ms = "sh_sent ?h" and cs = "sh_cooldowns ?h" and rs = rs])
      (use a that in simp_all)
qed

lemma known_session: "session_exists sid reg \<Longrightarrow> sid \<in> session_keys (shape_of reg)"
  by (auto simp: session_exists_def list_ex_iff session_keys_def shape_of_def comp_def image_image)

lemma leaves_before:
  assumes "registry_ok reg"
  shows "distinct (sh_sent (shape_of reg))" "distinct (sh_cooldowns (shape_of reg))" "distinct (map fst (sh_rules (shape_of reg)))"
    and "list_all (of_session (shape_of reg)) (sh_sent (shape_of reg))"
    and "list_all (of_session (shape_of reg)) (sh_cooldowns (shape_of reg))"
    and "list_all (delivery_ref (shape_of reg)) (sh_deliveries (shape_of reg))"
    and "list_all (rule_ref (shape_of reg)) (sh_rules (shape_of reg))"
  using assms by (simp_all add: registry_ok_def keys_distinct_def refs_ok_def)

lemma cooldown_set_ok:
  assumes "registry_ok reg" "SetCooldown sid c reg = Inr reg'"
  shows "registry_ok reg'"
proof (cases "cooldown_row_of sid (c_scope c) reg")
  case None
  then have free: "(sid, c_scope c) \<notin> set (sh_cooldowns (shape_of reg))"
    by (auto simp: cooldown_row_of_def find_None_iff shape_of_def)
  have sh: "shape_of reg' = (shape_of reg)\<lparr>sh_cooldowns := sh_cooldowns (shape_of reg) @ [(sid, c_scope c)]\<rparr>"
    using assms(2) None by (auto simp: SetCooldown_def shape_of_def split: if_splits)
  have "of_session (shape_of reg) (sid, c_scope c)"
    using assms(2) known_session [of sid reg] by (simp add: SetCooldown_def of_session_def split: if_splits)
  with leaves_before [OF assms(1)] free show ?thesis
    by (intro one_leaf(1) [OF assms(1) sh]) simp_all
next
  case (Some r)
  let ?up = "\<lambda>r. r\<lparr>cd_ends := c_until c, cd_reason := c_reason c\<rparr>"
  have "shape_of reg' = shape_of reg"
    using assms(2) Some map_if_same [of "\<lambda>c. (cd_session c, cd_scope c)" ?up "\<lambda>r. cd_session r = sid \<and> cd_scope r = c_scope c \<and> cd_ends r < c_until c" "cooldowns reg"]
    by (auto simp: SetCooldown_def shape_of_def split: if_splits)
  then show ?thesis by (rule same_shape [OF _ assms(1)])
qed

lemma sent_added:
  assumes "registry_ok reg" "session_exists sid reg" "sent_key m = (sid, c, t)"
    and "\<not> list_ex (\<lambda>r. sent_key r = (sid, c, t)) (sent reg)"
  shows "registry_ok (reg\<lparr>sent := sent reg @ [m]\<rparr>)"
proof (rule one_leaf(2) [OF assms(1)])
  show "shape_of (reg\<lparr>sent := sent reg @ [m]\<rparr>) = (shape_of reg)\<lparr>sh_sent := sh_sent (shape_of reg) @ [(sid, c, t)]\<rparr>"
    by (simp add: shape_of_def assms(3))
  have "(sid, c, t) \<notin> set (sh_sent (shape_of reg))"
    using assms(4) by (auto simp: shape_of_def list_ex_iff)
  then show "distinct (sh_sent (shape_of reg) @ [(sid, c, t)])"
    using leaves_before(1) [OF assms(1)] by simp
  show "list_all (of_session (shape_of reg)) (sh_sent (shape_of reg) @ [(sid, c, t)])"
    using leaves_before(4) [OF assms(1)] known_session [OF assms(2)] by (simp add: of_session_def)
qed

lemma sends_ok:
  assumes "registry_ok reg"
  shows "RegisterSend now sid c t reg = Inr reg' \<Longrightarrow> registry_ok reg'"
    and "RecordSendOutcome now sid c t fin e reg = Inr reg' \<Longrightarrow> registry_ok reg'"
proof -
  show "registry_ok reg'" if "RegisterSend now sid c t reg = Inr reg'"
    using that assms sent_added [OF assms, of sid _ c t]
    by (auto simp: RegisterSend_def sent_key_def split: if_split_asm)
  show "registry_ok reg'" if o: "RecordSendOutcome now sid c t fin e reg = Inr reg'"
  proof (cases "list_ex (\<lambda>r. sent_key r = (sid, c, t)) (sent reg)")
    case True
    obtain st f where r: "reg' = reg\<lparr>sent := map (\<lambda>r. if sent_key r = (sid, c, t)
        then r\<lparr>m_status := st, m_final := f, m_error := e\<rparr> else r) (sent reg)\<rparr>"
      using o True by (auto simp: RecordSendOutcome_def Let_def split: if_split_asm)
    have "shape_of reg' = shape_of reg"
      using map_if_same [of sent_key "\<lambda>r. r\<lparr>m_status := st, m_final := f, m_error := e\<rparr>"
          "\<lambda>r. sent_key r = (sid, c, t)" "sent reg"]
      by (simp add: r shape_of_def sent_key_def)
    then show ?thesis by (rule same_shape [OF _ assms])
  next
    case False
    then show ?thesis
      using o sent_added [OF assms _ _ False]
      by (auto simp: RecordSendOutcome_def sent_key_def Let_def split: if_split_asm)
  qed
qed

lemma known_token: "list_ex (\<lambda>r. t_id r = t) (tokens reg) \<longleftrightarrow> t \<in> set (sh_tokens (shape_of reg))"
  by (auto simp: list_ex_iff shape_of_def)

lemma shape_quota: "shape_of (reg\<lparr>quota := q\<rparr>)
   = (shape_of reg)\<lparr>sh_rules := map (\<lambda>l. (l_id l, l_session l, l_token l, limit_checks l)) (rate_limit q)\<rparr>"
  by (simp add: shape_of_def)

lemma rules_before:
  assumes "registry_ok reg" "l \<in> set (rate_limit (quota reg))"
  shows "rule_ref (shape_of reg) (l_id l, l_session l, l_token l, limit_checks l)"
  using leaves_before(7) [OF assms(1)] assms(2) by (auto simp: shape_of_def list_all_iff)

lemma rules_distinct: "registry_ok reg \<Longrightarrow> distinct (map l_id (rate_limit (quota reg)))"
  using leaves_before(3) [of reg] by (simp add: shape_of_def comp_def)

lemma find_member: "List.find P xs = Some x \<Longrightarrow> x \<in> set xs \<and> P x"
  by (auto simp: find_Some_iff)

lemma limits_ok:
  assumes "registry_ok reg"
  shows "CreateLimit (\<lambda>s. session_exists s reg) (\<lambda>t. list_ex (\<lambda>r. t_id r = t) (tokens reg)) i now l (quota reg) = Inr (row, q)
    \<Longrightarrow> i \<notin> l_id ` set (rate_limit (quota reg)) \<Longrightarrow> registry_ok (reg\<lparr>quota := q\<rparr>)"
    and "UpdateLimit l (quota reg) = Inr (row, q) \<Longrightarrow> registry_ok (reg\<lparr>quota := q\<rparr>)"
    and "rate_limit q = rate_limit (quota reg) \<Longrightarrow> registry_ok (reg\<lparr>quota := q\<rparr>)"
proof -
  note leaf = one_leaf(4) [OF assms shape_quota]
  show "registry_ok (reg\<lparr>quota := q\<rparr>)"
    if c: "CreateLimit (\<lambda>s. session_exists s reg) (\<lambda>t. list_ex (\<lambda>r. t_id r = t) (tokens reg)) i now l (quota reg) = Inr (row, q)"
      and new: "i \<notin> l_id ` set (rate_limit (quota reg))"
  proof -
    have rules: "rate_limit q = rate_limit (quota reg) @ [l\<lparr>l_id := i, l_created := now\<rparr>]"
      using c by (auto simp: CreateLimit_def Let_def split: if_splits)
    have "rule_ref (shape_of reg) (i, l_session l, l_token l, limit_checks (l\<lparr>l_id := i, l_created := now\<rparr>))"
      using c known_session by (auto simp: CreateLimit_def rule_ref_def ref_ok_def limit_checks_def known_token
          split: if_splits option.splits)
    then show ?thesis
      using rules_distinct [OF assms] new rules_before [OF assms]
      by (intro leaf) (auto simp: rules comp_def list_all_iff)
  qed
  show "registry_ok (reg\<lparr>quota := q\<rparr>)" if u: "UpdateLimit l (quota reg) = Inr (row, q)"
  proof -
    obtain old where old: "old \<in> set (rate_limit (quota reg))" "l_id old = l_id l" "l_id row = l_id l"
        "l_session row = l_session old" "l_token row = l_token old" "limit_checks row"
      and rules: "rate_limit q = map (\<lambda>r. if l_id r = l_id l then row else r) (rate_limit (quota reg))"
      using u by (auto simp: UpdateLimit_def GetLimit_def Let_def split: option.splits if_splits dest!: find_member)
    have "map l_id (rate_limit q) = map l_id (rate_limit (quota reg))"
      using old(3) by (auto simp: rules)
    then have "distinct (map l_id (rate_limit q))" using rules_distinct [OF assms] by simp
    moreover have "rule_ref (shape_of reg) (l_id r, l_session r, l_token r, limit_checks r)" if "r \<in> set (rate_limit q)" for r
      using that rules_before [OF assms] rules_before [OF assms old(1)] old(3-6)
      by (auto simp: rules rule_ref_def split: if_splits)
    ultimately show ?thesis
      by (intro leaf) (auto simp: comp_def list_all_iff)
  qed
  show "registry_ok (reg\<lparr>quota := q\<rparr>)" if "rate_limit q = rate_limit (quota reg)"
    using that assms by (intro same_shape [OF _ assms]) (simp add: shape_of_def)
qed

lemma enqueue_ok:
  assumes "registry_ok reg" "EnqueueDeliveries ni now sid ids p reg = Inr reg'"
  shows "registry_ok reg'"
proof -
  let ?new = "map (\<lambda>x. (sub_id x, sid)) (filter (\<lambda>x. sub_id x \<in> set ids \<and> sub_session x = sid) (subs reg))"
  have "shape_of reg' = (shape_of reg)\<lparr>sh_deliveries := sh_deliveries (shape_of reg) @ ?new\<rparr>"
    using assms(2) by (auto simp: EnqueueDeliveries_def shape_of_def split: if_splits)
  note sh = this
  have "list_all (delivery_ref (shape_of reg)) ?new"
    by (auto simp: list_all_iff delivery_ref_def shape_of_def image_iff)
  then show ?thesis
    using leaves_before(6) [OF assms(1)] by (intro one_leaf(3) [OF assms(1) sh]) simp_all
qed

lemma sub_added:
  assumes "registry_ok reg" "CreateSubscription i now sid tok url e f reg = Inr (j, reg')" "i \<notin> sub_id ` set (subs reg)"
  shows "registry_ok reg'"
proof -
  let ?r = "(i, sid, nullStr tok)"
  have sh: "shape_of reg' = (shape_of reg)\<lparr>sh_subs := sh_subs (shape_of reg) @ [?r]\<rparr>"
    using assms(2) by (auto simp: CreateSubscription_def shape_of_def split: if_splits)
  have "sub_ref (shape_of reg) ?r"
    using assms(2) known_session by (auto simp: CreateSubscription_def sub_ref_def ref_ok_def nullStr_def known_token split: if_splits)
  then have new: "sub_ref (shape_of reg') ?r" by (simp add: sh sub_ref_def session_keys_def)
  have key: "i \<notin> fst ` set (sh_subs (shape_of reg))" using assms(3) by (auto simp: shape_of_def)
  show ?thesis
  proof (rule grown_ok [OF assms(1)])
    show "keys_distinct (shape_of reg')" if "keys_distinct (shape_of reg)"
      using that key by (simp add: sh keys_distinct_def)
    show "fresh_ok (sub_ref (shape_of reg')) (sh_subs (shape_of reg)) (sh_subs (shape_of reg'))"
      using new by (auto simp: fresh_ok_def sh)
  qed (auto simp: sh grows_def session_keys_def)
qed

text \<open>Tokens and their grants.\<close>

lemma insert_grants_shape:
  "insert_grants P Q tok is gs = Inr gs' \<Longrightarrow> \<forall>g \<in> set gs'. g \<in> set gs \<or> (fst g = tok \<and> Q (snd g))"
  by (induction P Q tok "is" gs rule: insert_grants.induct) (auto split: if_split_asm)

lemma insert_grants_distinct:
  "insert_grants P Q tok is gs = Inr gs' \<Longrightarrow> distinct gs \<Longrightarrow> distinct gs'"
  by (induction P Q tok "is" gs rule: insert_grants.induct) (auto split: if_split_asm)

lemma app_grants_ok:
  assumes "registry_ok reg" "tok \<in> set (sh_tokens (shape_of reg))" "set_app_grants tok is reg = Inr reg'"
  shows "registry_ok reg' \<and> sh_tokens (shape_of reg') = sh_tokens (shape_of reg)"
proof
  obtain gs where gs: "insert_grants (is_uuid reg) (app_exists reg) tok is (filter (\<lambda>g. fst g \<noteq> tok) (token_apps reg)) = Inr gs"
      and r: "reg' = reg\<lparr>token_apps := gs\<rparr>"
    using assms(3) by (auto simp: set_app_grants_def split: sum.splits)
  have sh: "shape_of reg' = (shape_of reg)\<lparr>sh_token_apps := gs\<rparr>" by (simp add: r shape_of_def)
  have "g \<in> set (sh_token_apps (shape_of reg)) \<or> app_grant_ref (shape_of reg) g" if "g \<in> set gs" for g
    using insert_grants_shape [OF gs] that assms(2)
    by (auto simp: app_grant_ref_def shape_of_def app_exists_def list_ex_image)
  moreover have "app_grant_ref (shape_of reg') = app_grant_ref (shape_of reg)"
    by (simp add: fun_eq_iff sh app_grant_ref_def session_keys_def)
  moreover have "distinct gs" if "distinct (sh_token_apps (shape_of reg))"
    using insert_grants_distinct [OF gs] that by (simp add: shape_of_def)
  ultimately show "registry_ok reg'"
    by (intro grown_ok [OF assms(1)]) (auto simp: sh fresh_ok_def grows_def session_keys_def keys_distinct_def)
  show "sh_tokens (shape_of reg') = sh_tokens (shape_of reg)" by (simp add: sh)
qed

lemma session_grants_ok:
  assumes "registry_ok reg" "tok \<in> set (sh_tokens (shape_of reg))" "set_session_grants tok is reg = Inr reg'"
  shows "registry_ok reg'"
proof -
  obtain gs where gs: "insert_grants (is_uuid reg) (\<lambda>i. session_exists i reg) tok is
        (filter (\<lambda>g. fst g \<noteq> tok) (token_sessions reg)) = Inr gs"
      and r: "reg' = reg\<lparr>token_sessions := gs\<rparr>"
    using assms(3) by (auto simp: set_session_grants_def split: sum.splits)
  have sh: "shape_of reg' = (shape_of reg)\<lparr>sh_token_sessions := gs\<rparr>" by (simp add: r shape_of_def)
  have "g \<in> set (sh_token_sessions (shape_of reg)) \<or> session_grant_ref (shape_of reg) g" if "g \<in> set gs" for g
    using insert_grants_shape [OF gs] that assms(2)
    by (auto simp: session_grant_ref_def shape_of_def session_exists_def list_ex_image session_keys_def image_image)
  moreover have "session_grant_ref (shape_of reg') = session_grant_ref (shape_of reg)"
    by (simp add: fun_eq_iff sh session_grant_ref_def session_keys_def)
  moreover have "distinct gs" if "distinct (sh_token_sessions (shape_of reg))"
    using insert_grants_distinct [OF gs] that by (simp add: shape_of_def)
  ultimately show ?thesis
    by (intro grown_ok [OF assms(1)]) (auto simp: sh fresh_ok_def grows_def session_keys_def keys_distinct_def)
qed

lemma grants_ok:
  assumes "registry_ok reg" "tok \<in> set (sh_tokens (shape_of reg))"
  shows "replaceTokenGrants tok as ss reg = Inr reg' \<Longrightarrow> registry_ok reg'"
    and "patchTokenGrants tok pa ps reg = Inr reg' \<Longrightarrow> registry_ok reg'"
proof -
  show "registry_ok reg'" if "replaceTokenGrants tok as ss reg = Inr reg'"
  proof (cases "set_app_grants tok as reg")
    case (Inr r)
    then show ?thesis
      using app_grants_ok [OF assms Inr] that assms(2) session_grants_ok [of r tok ss reg']
      by (simp add: replaceTokenGrants_def)
  qed (use that in \<open>simp add: replaceTokenGrants_def\<close>)
  show "registry_ok reg'" if p: "patchTokenGrants tok pa ps reg = Inr reg'"
  proof -
    obtain r where r: "(case pa of None \<Rightarrow> Inr reg | Some is \<Rightarrow> set_app_grants tok is reg) = Inr r"
        and rest: "(case ps of None \<Rightarrow> Inr r | Some is \<Rightarrow> set_session_grants tok is r) = Inr reg'"
      using p by (auto simp: patchTokenGrants_def split: sum.splits)
    have "registry_ok r \<and> sh_tokens (shape_of r) = sh_tokens (shape_of reg)"
      using r assms app_grants_ok [OF assms] by (auto split: option.splits)
    then show ?thesis
      using rest assms(2) session_grants_ok [of r tok] by (auto split: option.splits)
  qed
qed

lemma tokens_written:
  assumes "registry_ok reg"
  shows "CreateToken i now nm h en alls as ss reg = Inr (j, reg') \<Longrightarrow> i \<notin> t_id ` set (tokens reg) \<Longrightarrow> registry_ok reg'"
    and "UpdateToken tok p reg = Inr (b, reg') \<Longrightarrow> registry_ok reg'"
proof -
  show "registry_ok reg'" if c: "CreateToken i now nm h en alls as ss reg = Inr (j, reg')" and new: "i \<notin> t_id ` set (tokens reg)"
  proof -
    let ?row = "\<lparr>t_id = i, t_name = nullStr nm, t_hash = h, t_enabled = en, t_all = alls, t_created = now\<rparr>"
    let ?r1 = "reg\<lparr>tokens := tokens reg @ [?row]\<rparr>"
    have sh: "shape_of ?r1 = (shape_of reg)\<lparr>sh_tokens := sh_tokens (shape_of reg) @ [i]\<rparr>" by (simp add: shape_of_def)
    have "i \<notin> set (sh_tokens (shape_of reg))" using new by (simp add: shape_of_def)
    then have ok1: "registry_ok ?r1"
      by (intro grown_ok [OF assms]) (auto simp: sh grows_def session_keys_def keys_distinct_def simp del: fresh_same intro: fresh_same)
    have rep: "replaceTokenGrants i as ss ?r1 = Inr reg'"
      using c by (auto simp: CreateToken_def split: sum.splits if_splits)
    show ?thesis using grants_ok(1) [OF ok1 _ rep] by (simp only: sh) simp
  qed
  show "registry_ok reg'" if u: "UpdateToken tok p reg = Inr (b, reg')"
  proof (cases "list_ex (\<lambda>t. t_id t = tok) (tokens reg)")
    case True
    let ?r1 = "reg\<lparr>tokens := map (\<lambda>t. if t_id t = tok then patch_token p t else t) (tokens reg)\<rparr>"
    have "t_id (patch_token p t) = t_id t" for t by (simp add: patch_token_def)
    then have sh: "shape_of ?r1 = shape_of reg"
      using map_if_same [of t_id "patch_token p" "\<lambda>t. t_id t = tok" "tokens reg"] by (simp add: shape_of_def)
    moreover have "patchTokenGrants tok (tp_apps p) (tp_sessions p) ?r1 = Inr reg'"
      using u True by (auto simp: UpdateToken_def uuid_arg_def split: sum.splits if_splits)
    ultimately show ?thesis
      using grants_ok(2) [of ?r1 tok "tp_apps p" "tp_sessions p" reg'] True same_shape [OF sh assms]
      by (simp only: known_token)
  next
    case False
    then show ?thesis using u assms by (auto simp: UpdateToken_def uuid_arg_def split: if_splits)
  qed
qed

subsection \<open>Cascades\<close>

text \<open>Rows go from several tables at once; a row that stays refers to rows that stay.\<close>

lemma subs_removed:
  assumes ok: "registry_ok reg"
  shows "registry_ok (delete_subs P reg)"
proof -
  let ?h = "shape_of reg" and ?r = "delete_subs P reg"
  note a = ok [unfolded registry_ok_def keys_distinct_def refs_ok_def]
  have sub: "set (sh_subs (shape_of ?r)) \<subseteq> set (sh_subs ?h)"
    by (auto simp: delete_subs_def shape_of_def)
  have same: "sh_apps (shape_of ?r) = sh_apps ?h" "sh_proxies (shape_of ?r) = sh_proxies ?h" "sh_sessions (shape_of ?r) = sh_sessions ?h"
    "sh_tokens (shape_of ?r) = sh_tokens ?h" "sh_workers (shape_of ?r) = sh_workers ?h" "sh_sent (shape_of ?r) = sh_sent ?h"
    "sh_cooldowns (shape_of ?r) = sh_cooldowns ?h" "sh_token_apps (shape_of ?r) = sh_token_apps ?h" "sh_token_sessions (shape_of ?r) = sh_token_sessions ?h"
    "sh_rules (shape_of ?r) = sh_rules ?h"
    by (simp_all add: delete_subs_def shape_of_def)
  have "delivery_ref (shape_of ?r) d" if d: "d \<in> set (sh_deliveries (shape_of ?r))" for d
  proof -
    obtain row where row: "row \<in> set (deliveries reg)" "d = (d_sub row, d_session row)"
        "\<forall>x \<in> set (subs reg). \<not> (P x \<and> sub_id x = d_sub row)"
      using d unfolding delete_subs_def shape_of_def list_ex_iff by auto
    have "delivery_ref ?h d" using a row by (auto simp: list_all_iff shape_of_def)
    then obtain x where x: "x \<in> set (subs reg)" "sub_id x = d_sub row" "sub_session x = d_session row"
      by (auto simp: row delivery_ref_def shape_of_def)
    then have "\<not> P x" using row(3) by auto
    with x show ?thesis by (auto simp: row delivery_ref_def delete_subs_def shape_of_def image_iff intro!: bexI [of _ x])
  qed
  moreover have "distinct (map fst (sh_subs (shape_of ?r)))"
    using a by (simp add: delete_subs_def shape_of_def comp_def distinct_map_filter)
  moreover have "sub_ref (shape_of ?r) = sub_ref ?h" "session_ref (shape_of ?r) = session_ref ?h"
    "of_session (shape_of ?r) = (of_session ?h :: ident \<times> string \<Rightarrow> bool)"
    "of_session (shape_of ?r) = (of_session ?h :: ident \<times> int \<times> int \<Rightarrow> bool)"
    "app_grant_ref (shape_of ?r) = app_grant_ref ?h" "session_grant_ref (shape_of ?r) = session_grant_ref ?h"
    "rule_ref (shape_of ?r) = rule_ref ?h"
    by (simp_all add: fun_eq_iff delete_subs_def shape_of_def ref_defs)
  moreover have "list_all (sub_ref ?h) (sh_subs (shape_of ?r))"
    using a sub list_all_sub by blast
  ultimately show ?thesis
    using a same by (simp add: registry_ok_def keys_distinct_def refs_ok_def list_all_iff)
qed

lemma session_gone:
  assumes ok: "registry_ok r1" and no_subs: "\<forall>x \<in> set (subs r1). sub_session x \<noteq> sid"
  shows "registry_ok (r1\<lparr>sessions := filter (\<lambda>s. s_id s \<noteq> sid) (sessions r1),
     deliveries := filter (\<lambda>d. d_session d \<noteq> sid) (deliveries r1), sent := filter (\<lambda>m. m_session m \<noteq> sid) (sent r1),
     cooldowns := filter (\<lambda>c. cd_session c \<noteq> sid) (cooldowns r1),
     token_sessions := filter (\<lambda>(_, s). s \<noteq> sid) (token_sessions r1),
     quota := delete_rules (\<lambda>l. l_session l = Some sid) (quota r1)\<rparr>)" (is "registry_ok ?r")
proof -
  let ?h = "shape_of r1" and ?k = "shape_of ?r"
  note a = ok [unfolded registry_ok_def keys_distinct_def refs_ok_def]
  have same: "sh_apps ?k = sh_apps ?h" "sh_proxies ?k = sh_proxies ?h" "sh_tokens ?k = sh_tokens ?h"
    "sh_subs ?k = sh_subs ?h" "sh_workers ?k = sh_workers ?h" "sh_token_apps ?k = sh_token_apps ?h"
    by (simp_all add: shape_of_def)
  have fewer: "sh_sessions ?k = filter (\<lambda>r. fst r \<noteq> sid) (sh_sessions ?h)"
    "sh_deliveries ?k = filter (\<lambda>r. snd r \<noteq> sid) (sh_deliveries ?h)"
    "sh_sent ?k = filter (\<lambda>r. fst r \<noteq> sid) (sh_sent ?h)" "sh_cooldowns ?k = filter (\<lambda>r. fst r \<noteq> sid) (sh_cooldowns ?h)"
    "sh_token_sessions ?k = filter (\<lambda>r. snd r \<noteq> sid) (sh_token_sessions ?h)"
    "sh_rules ?k = filter (\<lambda>r. fst (snd r) \<noteq> Some sid) (sh_rules ?h)"
    by (simp_all add: shape_of_def filter_map comp_def delete_rules_def sent_key_def case_prod_unfold)
  have keys: "session_keys ?k = session_keys ?h - {sid}"
    by (auto simp: session_keys_def fewer)
  have subs: "\<forall>q \<in> set (sh_subs ?h). fst (snd q) \<noteq> sid" using no_subs by (auto simp: shape_of_def)
  have "sub_ref ?k q" if "q \<in> set (sh_subs ?h)" for q
    using that a subs by (auto simp: list_all_iff sub_ref_def keys same split: prod.splits)
  moreover have "session_ref ?k = session_ref ?h" "delivery_ref ?k = delivery_ref ?h" "app_grant_ref ?k = app_grant_ref ?h"
    by (simp_all add: fun_eq_iff session_ref_def delivery_ref_def app_grant_ref_def same)
  moreover have "rule_ref ?h l \<Longrightarrow> fst (snd l) \<noteq> Some sid \<Longrightarrow> rule_ref ?k l" for l
    by (auto simp: rule_ref_def ref_ok_def keys same split: prod.splits option.splits)
  moreover have "session_grant_ref ?h g \<Longrightarrow> snd g \<noteq> sid \<Longrightarrow> session_grant_ref ?k g" for g
    by (auto simp: session_grant_ref_def keys same)
  moreover have "of_session ?h m \<Longrightarrow> fst m \<noteq> sid \<Longrightarrow> of_session ?k m" for m :: "ident \<times> int \<times> int"
    by (auto simp: of_session_def keys)
  moreover have "of_session ?h m \<Longrightarrow> fst m \<noteq> sid \<Longrightarrow> of_session ?k m" for m :: "ident \<times> string"
    by (auto simp: of_session_def keys)
  ultimately show ?thesis
    using a by (simp add: registry_ok_def keys_distinct_def refs_ok_def list_all_iff same fewer distinct_map_filter)
qed

lemma token_gone:
  assumes ok: "registry_ok r1" and no_subs: "\<forall>x \<in> set (subs r1). sub_token x \<noteq> Some tok"
  shows "registry_ok (r1\<lparr>tokens := filter (\<lambda>t. t_id t \<noteq> tok) (tokens r1),
     token_apps := filter (\<lambda>g. fst g \<noteq> tok) (token_apps r1), token_sessions := filter (\<lambda>g. fst g \<noteq> tok) (token_sessions r1),
     quota := delete_rules (\<lambda>l. l_token l = Some tok) (quota r1)\<rparr>)" (is "registry_ok ?r")
proof -
  let ?h = "shape_of r1" and ?k = "shape_of ?r"
  note a = ok [unfolded registry_ok_def keys_distinct_def refs_ok_def]
  have same: "sh_apps ?k = sh_apps ?h" "sh_proxies ?k = sh_proxies ?h" "sh_sessions ?k = sh_sessions ?h"
    "sh_subs ?k = sh_subs ?h" "sh_workers ?k = sh_workers ?h" "sh_deliveries ?k = sh_deliveries ?h"
    "sh_sent ?k = sh_sent ?h" "sh_cooldowns ?k = sh_cooldowns ?h" "session_keys ?k = session_keys ?h"
    by (simp_all add: shape_of_def session_keys_def)
  have fewer: "sh_tokens ?k = filter (\<lambda>t. t \<noteq> tok) (sh_tokens ?h)"
    "sh_token_apps ?k = filter (\<lambda>g. fst g \<noteq> tok) (sh_token_apps ?h)"
    "sh_token_sessions ?k = filter (\<lambda>g. fst g \<noteq> tok) (sh_token_sessions ?h)"
    "sh_rules ?k = filter (\<lambda>r. fst (snd (snd r)) \<noteq> Some tok) (sh_rules ?h)"
    by (simp_all add: shape_of_def filter_map comp_def delete_rules_def)
  have subs: "\<forall>q \<in> set (sh_subs ?h). snd (snd q) \<noteq> Some tok" using no_subs by (auto simp: shape_of_def)
  have "sub_ref ?k q" if "q \<in> set (sh_subs ?h)" for q
    using that a subs by (auto simp: list_all_iff sub_ref_def ref_ok_def fewer same split: prod.splits option.splits)
  moreover have "session_ref ?k = session_ref ?h" "delivery_ref ?k = delivery_ref ?h"
    "of_session ?k = (of_session ?h :: ident \<times> string \<Rightarrow> bool)"
    "of_session ?k = (of_session ?h :: ident \<times> int \<times> int \<Rightarrow> bool)"
    by (simp_all add: fun_eq_iff session_ref_def delivery_ref_def of_session_def same)
  moreover have "rule_ref ?h l \<Longrightarrow> fst (snd (snd l)) \<noteq> Some tok \<Longrightarrow> rule_ref ?k l" for l
    by (auto simp: rule_ref_def ref_ok_def fewer same split: prod.splits option.splits)
  moreover have "session_grant_ref ?h g \<Longrightarrow> fst g \<noteq> tok \<Longrightarrow> session_grant_ref ?k g" for g
    by (auto simp: session_grant_ref_def fewer same)
  moreover have "app_grant_ref ?h g \<Longrightarrow> fst g \<noteq> tok \<Longrightarrow> app_grant_ref ?k g" for g
    by (auto simp: app_grant_ref_def fewer same)
  ultimately show ?thesis
    using a by (simp add: registry_ok_def keys_distinct_def refs_ok_def list_all_iff same fewer distinct_map_filter)
qed

lemma cascades_ok:
  assumes "registry_ok reg"
  shows "Registry.DeleteSession sid reg = Inr (b, reg') \<Longrightarrow> registry_ok reg'"
    and "DeleteToken tok reg = Inr (c, reg') \<Longrightarrow> registry_ok reg'"
    and "DeleteSubscription sid tok x reg = Inr (c, reg') \<Longrightarrow> registry_ok reg'"
proof -
  have s: "\<forall>x \<in> set (subs (delete_subs (\<lambda>x. sub_session x = sid) reg)). sub_session x \<noteq> sid"
    and t: "\<forall>x \<in> set (subs (delete_subs (\<lambda>x. sub_token x = Some tok) reg)). sub_token x \<noteq> Some tok"
    by (auto simp: delete_subs_def)
  show "registry_ok reg'" if "Registry.DeleteSession sid reg = Inr (b, reg')"
    using that assms session_gone [OF subs_removed [OF assms] s]
    by (auto simp: Registry.DeleteSession_def uuid_arg_def Let_def split: option.splits if_split_asm)
  show "registry_ok reg'" if "DeleteToken tok reg = Inr (c, reg')"
    using that token_gone [OF subs_removed [OF assms] t]
    by (auto simp: DeleteToken_def uuid_arg_def Let_def split: if_split_asm)
  show "registry_ok reg'" if "DeleteSubscription sid tok x reg = Inr (c, reg')"
    using that subs_removed [OF assms] by (auto simp: DeleteSubscription_def uuid_arg_def split: if_split_asm)
qed

subsection \<open>Every statement, and every run of them\<close>

lemma store_step_ok: "store_step reg reg' \<Longrightarrow> registry_ok reg \<Longrightarrow> registry_ok reg'"
  by (induction rule: store_step.induct)
    (blast intro: accounts_added meta_changed cooldown_set_ok sends_ok limits_ok enqueue_ok sub_added tokens_written
      cascades_ok purges_ok same_shape shape_labels shape_session_writes shape_lease shape_queue_writes)+


definition after :: "'e + ('a \<times> registry) \<Rightarrow> registry" where
  "after r = (case r of Inr (_, reg) \<Rightarrow> reg | Inl _ \<Rightarrow> empty_registry)"

definition sample_session :: new_session where
  "sample_session = \<lparr>n_kind = ''bot'', n_app = ''a1'', n_proxy = '''', n_phone = '''', n_bot_token_enc = [],
     n_db_key_enc = [], n_label = ''''\<rparr>"

definition run1 :: registry where "run1 = snd (CreateApp ''a1'' 0 1 [] '''' empty_registry)"
definition run2 :: registry where "run2 = after (CreateSession ''u1'' 0 sample_session run1)"
definition run3 :: registry where
  "run3 = after (CreateSubscription ''w1'' 0 ''u1'' '''' ''https://x'' [] (RawVal JNull) run2)"
definition run4 :: registry where
  "run4 = (case EnqueueDeliveries (\<lambda>x. x) 0 ''u1'' [''w1''] JNull run3 of Inr r \<Rightarrow> r | Inl _ \<Rightarrow> empty_registry)"

lemmas start_defs = run1_def CreateApp_def sample_session_def empty_registry_def

lemma sample_states:
  "\<exists>a x. run2 = empty_registry\<lparr>apps := [a], sessions := [x]\<rparr> \<and> s_id x = ''u1''"
  "\<exists>a x w. run3 = empty_registry\<lparr>apps := [a], sessions := [x], subs := [w]\<rparr> \<and> sub_id w = ''w1'' \<and> sub_session w = ''u1''"
proof -
  show "\<exists>a x. run2 = empty_registry\<lparr>apps := [a], sessions := [x]\<rparr> \<and> s_id x = ''u1''"
    by (simp add: run2_def after_def CreateSession_def start_defs)
  then obtain a x where r2: "run2 = empty_registry\<lparr>apps := [a], sessions := [x]\<rparr>" "s_id x = ''u1''" by blast
  show "\<exists>a x w. run3 = empty_registry\<lparr>apps := [a], sessions := [x], subs := [w]\<rparr> \<and> sub_id w = ''w1'' \<and> sub_session w = ''u1''"
    unfolding run3_def r2(1) using r2(2) by (simp add: after_def CreateSubscription_def session_exists_def empty_registry_def)
qed

lemma sample_run: "store_reach empty_registry run4" "map d_sub (deliveries run4) = [''w1'']"
proof -
  obtain a x where r2: "run2 = empty_registry\<lparr>apps := [a], sessions := [x]\<rparr>" "s_id x = ''u1''"
    using sample_states(1) by blast
  obtain a x w where r3: "run3 = empty_registry\<lparr>apps := [a], sessions := [x], subs := [w]\<rparr>" "sub_id w = ''w1''"
    "sub_session w = ''u1''"
    using sample_states(2) by blast
  have s1: "store_step empty_registry run1"
    by (rule create_app [of "''a1''" 0 1 "[]" "''''" _ "''a1''"]) (simp_all add: start_defs)
  have "CreateSession ''u1'' 0 sample_session run1 = Inr (''u1'', run2)" "sessions run1 = []"
    by (simp_all add: run2_def after_def CreateSession_def start_defs)
  then have s2: "store_step run1 run2" by (intro create_session) auto
  have "CreateSubscription ''w1'' 0 ''u1'' '''' ''https://x'' [] (RawVal JNull) run2 = Inr (''w1'', run3)"
    "subs run2 = []"
    unfolding run3_def r2(1) using r2(2)
    by (simp_all add: after_def CreateSubscription_def session_exists_def empty_registry_def)
  then have s3: "store_step run2 run3" by (intro create_sub) auto
  have "EnqueueDeliveries (\<lambda>x. x) 0 ''u1'' [''w1''] JNull run3 = Inr run4"
    unfolding run4_def r3(1) by (simp add: EnqueueDeliveries_def empty_registry_def)
  then have s4: "store_step run3 run4" by (rule enqueue)
  show "store_reach empty_registry run4"
    by (rule store_reach.step [OF store_reach.step [OF store_reach.step [OF store_reach.step [OF store_reach.start s1] s2] s3] s4])
  show "map d_sub (deliveries run4) = [''w1'']"
    unfolding run4_def r3(1) using r3(2,3) by (simp add: EnqueueDeliveries_def empty_registry_def)
qed


end
