(* ===== verification/Webhook.thy ===== *)
theory Webhook
  imports Api Integrity
begin

section \<open>The post of an update, and its signature\<close>

text \<open>
  \<^verbatim>\<open>Manager.post\<close> of \<^verbatim>\<open>internal/session/deliver.go\<close>: the request a receiver gets, and what counts as delivered.
  The bytes Postgres returns for a payload, HMAC-SHA256, the parsing of the receiver's URL and the sending are
  library code: \<open>we_bytes\<close>, \<open>we_hmac\<close>, \<open>we_bad_url\<close>, \<open>we_send\<close>. With these a worker is a \<open>poster\<close> of the delivery
  queue. The property goes through the three components that share a subscription's secret: the interface
  that seals it, the registry that keeps it, the dispatcher that signs with it.
\<close>

record webhook =
  wh_url :: string
  wh_headers :: "(string \<times> string) list"
  wh_body :: bytes

record webhook_env =
  we_bytes :: "json \<Rightarrow> bytes"
  we_hmac :: "bytes \<Rightarrow> bytes \<Rightarrow> bytes"
  we_bad_url :: "string \<Rightarrow> string option"
  we_send :: "webhook \<Rightarrow> time \<Rightarrow> string + int"

text \<open>\<^verbatim>\<open>hex.EncodeToString\<close>.\<close>

definition hex_digit :: "nat \<Rightarrow> char" where
  "hex_digit n = ''0123456789abcdef'' ! n"

definition hex :: "bytes \<Rightarrow> string" where
  "hex bs = concat (map (\<lambda>c. [hex_digit (of_char c div 16), hex_digit (of_char c mod 16)]) bs)"

definition delivery_headers :: "Delivery \<Rightarrow> (string \<times> string) list" where
  "delivery_headers d =
     [(''Content-Type'', ''application/json''), (''X-Tgcontrol-Session'', dl_session d),
      (''X-Tgcontrol-Kind'', dl_kind d), (''X-Tgcontrol-Subscription'', dl_sub d),
      (''X-Tgcontrol-Delivery'', dl_id d), (''X-Tgcontrol-Attempt'', itoa (dl_attempts d + 1))]"

definition signed_header :: "webhook_env \<Rightarrow> box \<Rightarrow> Delivery \<Rightarrow> err + (string \<times> string) list" where
  "signed_header we b d =
     (if dl_secret_enc d = '''' then Inr []
      else (case Decrypt b (dl_secret_enc d) of
              Inl e \<Rightarrow> Inl e
            | Inr sekret \<Rightarrow>
                Inr [(''X-Tgcontrol-Signature'', ''sha256='' @ hex (we_hmac we sekret (we_bytes we (dl_payload d))))]))"

definition webhook_request :: "webhook_env \<Rightarrow> box \<Rightarrow> Delivery \<Rightarrow> err + webhook" where
  "webhook_request we b d =
     (case we_bad_url we (dl_url d) of
        Some reason \<Rightarrow> Inl (EMsg reason)
      | None \<Rightarrow>
          (case signed_header we b d of
             Inl e \<Rightarrow> Inl e
           | Inr signed \<Rightarrow>
               Inr \<lparr>wh_url = dl_url d, wh_headers = delivery_headers d @ signed, wh_body = we_bytes we (dl_payload d)\<rparr>))"

definition post_webhook :: "(db_err \<Rightarrow> string) \<Rightarrow> webhook_env \<Rightarrow> box \<Rightarrow> Delivery \<Rightarrow> time \<Rightarrow> string option" where
  "post_webhook dbt we b d now =
     (case webhook_request we b d of
        Inl e \<Rightarrow> Some (err_text dbt e)
      | Inr q \<Rightarrow>
          (case we_send we q now of
             Inl reason \<Rightarrow> Some reason
           | Inr status \<Rightarrow> if status < 200 \<or> 300 \<le> status then Some (''status '' @ itoa status) else None))"

definition webhook_poster :: "(db_err \<Rightarrow> string) \<Rightarrow> webhook_env \<Rightarrow> box \<Rightarrow> (string \<Rightarrow> string) \<Rightarrow> poster" where
  "webhook_poster dbt we b valid = \<lparr>po_post = post_webhook dbt we b, po_valid_utf8 = valid, po_log = []\<rparr>"

definition header_of :: "webhook \<Rightarrow> string \<Rightarrow> string option" where
  "header_of q k = map_of (wh_headers q) k"

subsection \<open>What the receiver can check\<close>

lemma webhook_request_headers:
  assumes "webhook_request we b d = Inr q"
  shows "wh_body q = we_bytes we (dl_payload d)" "header_of q ''X-Tgcontrol-Delivery'' = Some (dl_id d)"
    "header_of q ''X-Tgcontrol-Subscription'' = Some (dl_sub d)"
    "header_of q ''X-Tgcontrol-Attempt'' = Some (itoa (dl_attempts d + 1))"
  using assms by (auto simp: webhook_request_def header_of_def delivery_headers_def split: option.splits sum.splits)

lemma signed_with:
  assumes "opens_sealed b" "0 < bx_nonce b" "Encrypt b rnd sekret = Inr (dl_secret_enc d)"
    and "we_bad_url we (dl_url d) = None"
  shows "\<exists>q. webhook_request we b d = Inr q \<and> wh_body q = we_bytes we (dl_payload d)
     \<and> header_of q ''X-Tgcontrol-Signature'' = Some (''sha256='' @ hex (we_hmac we sekret (wh_body q)))"
proof -
  have "dl_secret_enc d \<noteq> ''''"
    using assms(2,3) by (auto simp: Encrypt_def Let_def split: option.splits if_splits)
  moreover have "Decrypt b (dl_secret_enc d) = Inr sekret"
    by (rule Decrypt_Encrypt [OF assms(1,3)])
  ultimately show ?thesis
    using assms(4) by (simp add: webhook_request_def signed_header_def header_of_def delivery_headers_def)
qed

text \<open>The secret a subscription is made with: the caller's, or the one the answer shows.\<close>

definition result_member :: "answer \<Rightarrow> string \<Rightarrow> json option" where
  "result_member a k =
     (case a of
        Envelope (Reply status _ body) \<Rightarrow>
          (if status = 200 then Option.bind (obj_get body ''result'') (\<lambda>res. obj_get res k) else None)
      | _ \<Rightarrow> None)"

definition shown_secret :: "subscription_request \<Rightarrow> answer \<Rightarrow> string option" where
  "shown_secret q a =
     (if uq_secret q \<noteq> '''' then Some (uq_secret q)
      else (case result_member a ''secret'' of Some (JStr s) \<Rightarrow> Some s | _ \<Rightarrow> None))"

definition no_subscription_request :: subscription_request where
  "no_subscription_request = \<lparr>uq_url = '''', uq_secret = '''', uq_filters = no_filter\<rparr>"

lemma created_subscription:
  assumes "decode (dec_struct subscription_request_fields) no_subscription_request r = Some q"
    and "handleCreateSubscription env sid r st = (a, st')" and "result_member a ''id'' = Some (JStr i)"
  shows "\<exists>sekret enc x. shown_secret q a = Some sekret
     \<and> Encrypt (fe_box (ae_fleet env)) (fe_random (ae_fleet env) 1) sekret = Inr enc
     \<and> subs (fw_reg (aw_fleet st')) = subs (fw_reg (aw_fleet st)) @ [x]
     \<and> i = ae_newid env \<and> sub_id x = i \<and> sub_secret_enc x = enc \<and> sub_url x = uq_url q \<and> sub_session x = sid"
  using assms
  by (auto simp: handleCreateSubscription_def no_subscription_request_def Let_def db_try_def CreateSubscription_def
      with_fleet_def writeErr_def writeOK_def gateway_error_def ok_reply_def result_member_def shown_secret_def
      split: if_split_asm sum.splits prod.splits)

subsection \<open>The registry keeps the secret\<close>

text \<open>Any run of statements during which the subscription \<open>i\<close> is never gone.\<close>

inductive while_subscribed :: "ident \<Rightarrow> registry \<Rightarrow> registry \<Rightarrow> bool" for i r0 where
  start: "while_subscribed i r0 r0"
| step: "while_subscribed i r0 reg \<Longrightarrow> i \<in> sub_id ` set (subs reg) \<Longrightarrow> store_step reg reg' \<Longrightarrow> while_subscribed i r0 reg'"

definition sealed :: "registry \<Rightarrow> (ident \<times> bytes) list" where
  "sealed reg = map (\<lambda>x. (sub_id x, sub_secret_enc x)) (subs reg)"

lemma sealed_map: "(\<And>x. sub_id (f x) = sub_id x \<and> sub_secret_enc (f x) = sub_secret_enc x)
   \<Longrightarrow> sealed (reg\<lparr>subs := map (\<lambda>x. if P x then f x else x) (subs reg)\<rparr>) = sealed reg"
  using map_if_same [of "\<lambda>x. (sub_id x, sub_secret_enc x)" f P "subs reg"] by (simp add: sealed_def)

lemma sealed_account_writes:
  "CreateApp j now a e l reg = (k, reg') \<Longrightarrow> sealed reg' = sealed reg"
  "CreateProxy j now p reg = Inr (k, reg') \<Longrightarrow> sealed reg' = sealed reg"
  "UpdateAppLabel j l reg = Inr (b, reg') \<Longrightarrow> sealed reg' = sealed reg"
  "UpdateProxyLabel j l reg = Inr (b, reg') \<Longrightarrow> sealed reg' = sealed reg"
  "CreateSession j now n reg = Inr (k, reg') \<Longrightarrow> sealed reg' = sealed reg"
  "SetSessionDBDir now sid d reg = Inr reg' \<Longrightarrow> sealed reg' = sealed reg"
  "sealed (UpdateSessionStatus now sid st reg) = sealed reg"
  "sealed (snd (ExpireStaleLogins now cutoff grace reg)) = sealed reg"
  "UpdateSessionMeta now sid l' p' reg = Inr (b, reg') \<Longrightarrow> sealed reg' = sealed reg"
  "sealed (SetSessionPremium sid b reg) = sealed reg"
  "sealed (SetSessionFrozen now sid b reg) = sealed reg"
  "sealed (SetSessionFreeze sid since del appeal reg) = sealed reg"
  "SetCooldown sid c reg = Inr reg' \<Longrightarrow> sealed reg' = sealed reg"
  "sealed (snd (PurgeCooldowns t reg)) = sealed reg"
  "sealed (snd (DeleteCooldown sid scope reg)) = sealed reg"
  by (auto simp: sealed_def CreateApp_def CreateProxy_def UpdateAppLabel_def UpdateProxyLabel_def CreateSession_def
      SetSessionDBDir_def UpdateSessionStatus_def ExpireStaleLogins_def UpdateSessionMeta_def SetSessionPremium_def
      SetSessionFrozen_def SetSessionFreeze_def SetCooldown_def PurgeCooldowns_def DeleteCooldown_def
      update_session_def split: if_split_asm option.splits)

lemma sealed_worker_writes:
  "sealed (RegisterWorker now w addr reg) = sealed reg"
  "sealed (DeregisterWorker w reg) = sealed reg"
  "sealed (snd (PurgeWorkers t reg)) = sealed reg"
  "SetSessionOwner now sid w reg = Inr reg' \<Longrightarrow> sealed reg' = sealed reg"
  "sealed (snd (ClaimOrphans locked now w cutoff lim reg)) = sealed reg"
  "sealed (snd (ReleaseSessions now w reg)) = sealed reg"
  "ReleaseSession now sid reg = Inr reg' \<Longrightarrow> sealed reg' = sealed reg"
  by (auto simp: sealed_def RegisterWorker_def DeregisterWorker_def PurgeWorkers_def SetSessionOwner_def ClaimOrphans_def
      ReleaseSessions_def ReleaseSession_def set_owner_def Let_def)

lemma sealed_grants:
  "replaceTokenGrants tok as ss reg = Inr reg' \<Longrightarrow> sealed reg' = sealed reg"
  "patchTokenGrants tok pa ps reg = Inr reg' \<Longrightarrow> sealed reg' = sealed reg"
  by (auto simp: sealed_def replaceTokenGrants_def patchTokenGrants_def set_app_grants_def set_session_grants_def
      split: sum.splits option.splits)

lemma sealed_token_writes:
  "CreateToken j now nm h en alls as ss reg = Inr (k, reg') \<Longrightarrow> sealed reg' = sealed reg"
  "UpdateToken tok p reg = Inr (b, reg') \<Longrightarrow> sealed reg' = sealed reg"
proof -
  show "sealed reg' = sealed reg" if "CreateToken j now nm h en alls as ss reg = Inr (k, reg')"
    using that by (auto simp: CreateToken_def sealed_def split: sum.splits if_split_asm dest!: sealed_grants(1))
  show "sealed reg' = sealed reg" if "UpdateToken tok p reg = Inr (b, reg')"
    using that by (auto simp: UpdateToken_def uuid_arg_def sealed_def split: sum.splits if_split_asm dest!: sealed_grants(2))
qed

lemma sealed_queue_writes:
  "AddDropped sid n reg = Inr reg' \<Longrightarrow> sealed reg' = sealed reg"
  "EnqueueDeliveries ni now sid ids p reg = Inr reg' \<Longrightarrow> sealed reg' = sealed reg"
  "sealed (MarkDelivered now j reg) = sealed reg"
  "sealed (FailDelivery now j next giveUp reason reg) = sealed reg"
  "sealed (snd (PurgeDeliveries t reg)) = sealed reg"
  "RegisterSend now sid c u reg = Inr reg' \<Longrightarrow> sealed reg' = sealed reg"
  "RecordSendOutcome now sid c u fin e reg = Inr reg' \<Longrightarrow> sealed reg' = sealed reg"
  "PurgeSends t reg = Inr (m, reg') \<Longrightarrow> sealed reg' = sealed reg"
  "sealed (reg\<lparr>quota := q\<rparr>) = sealed reg"
  by (auto simp: AddDropped_def EnqueueDeliveries_def MarkDelivered_def FailDelivery_def PurgeDeliveries_def RegisterSend_def
      RecordSendOutcome_def PurgeSends_def update_delivery_def touch_sub_def sealed_def Let_def map_if_same_comp
      split: if_split_asm)

lemma sealed_removed:
  "Registry.DeleteSession sid reg = Inr (b, reg') \<Longrightarrow> set (sealed reg') \<subseteq> set (sealed reg)"
  "DeleteToken tok reg = Inr (c, reg') \<Longrightarrow> set (sealed reg') \<subseteq> set (sealed reg)"
  "DeleteSubscription sid tk x reg = Inr (c, reg') \<Longrightarrow> set (sealed reg') \<subseteq> set (sealed reg)"
  by (auto simp: sealed_def Registry.DeleteSession_def DeleteToken_def DeleteSubscription_def uuid_arg_def delete_subs_def
      Let_def split: option.splits if_split_asm)

lemma sealed_added:
  "CreateSubscription j now sid tok url e f reg = Inr (k, reg') \<Longrightarrow> sealed reg' = sealed reg @ [(j, e)]"
  by (auto simp: CreateSubscription_def sealed_def split: if_split_asm)

text \<open>No statement changes the secret of a subscription that is there.\<close>

lemma sealed_step:
  assumes "store_step reg reg'" "(i, e) \<in> set (sealed reg')" "i \<in> sub_id ` set (subs reg)"
  shows "(i, e) \<in> set (sealed reg)"
  using assms
proof (induction rule: store_step.induct)
  case (create_sub newid now sid tok url e' f reg j reg')
  then show ?case by (auto dest!: sealed_added)
qed (auto dest: sealed_account_writes(1-6,9,13) sealed_worker_writes(4,7) sealed_token_writes sealed_queue_writes(1,2,6-8)
      sealed_removed
      simp: sealed_account_writes(7,8,10-12,14,15) sealed_worker_writes(1-3,5,6) sealed_queue_writes(3-5,9))

lemma sealed_kept:
  "while_subscribed i r0 reg \<Longrightarrow> (i, e) \<in> set (sealed reg) \<Longrightarrow> (i, e) \<in> set (sealed r0)"
  by (induction rule: while_subscribed.induct) (auto dest: sealed_step)

lemma claimed_secret:
  assumes "d \<in> set (ClaimDeliveries now w busy n lim reg)"
  shows "(dl_sub d, dl_secret_enc d) \<in> set (sealed reg)"
proof -
  obtain row where row: "row \<in> set (claimed_rows now w busy n lim reg)" "d = delivery_of reg row"
    using assms by (auto simp: ClaimDeliveries_def)
  then have "due now w busy reg row"
    using claimed_rows_due by blast
  then obtain x where x: "sub_of reg row = Some x" by (auto simp: due_def split: option.splits)
  then have "x \<in> set (subs reg)" "sub_id x = d_sub row" using find_member [OF x [unfolded sub_of_def]] by auto
  then show ?thesis
    using row(2) x by (auto simp: delivery_of_def sealed_def intro!: image_eqI [of _ _ x])
qed

text \<open>
  C15: A subscription is made with a secret, its creator's or one generated and shown once. Whenever the
  dispatcher of any worker later posts an update to it, the request carries the HMAC of exactly the body it
  has under that secret, so whoever made the subscription can check where the update comes from.
\<close>

theorem webhooks_carry_the_signature:
  assumes "opens_sealed (fe_box (ae_fleet env))" and "0 < bx_nonce (fe_box (ae_fleet env))"
    and "decode (dec_struct subscription_request_fields) no_subscription_request r = Some q"
    and "handleCreateSubscription env sid r st = (a, st')" and "result_member a ''id'' = Some (JStr i)"
    and "i \<notin> sub_id ` set (subs (fw_reg (aw_fleet st)))"
    and "while_subscribed i (fw_reg (aw_fleet st')) reg"
    and "d \<in> set (ClaimDeliveries now w busy n lim reg)" and "dl_sub d = i" and "we_bad_url we (dl_url d) = None"
  shows "\<exists>sekret m. shown_secret q a = Some sekret \<and> webhook_request we (fe_box (ae_fleet env)) d = Inr m
    \<and> wh_body m = we_bytes we (dl_payload d)
    \<and> header_of m ''X-Tgcontrol-Signature'' = Some (''sha256='' @ hex (we_hmac we sekret (wh_body m)))"
proof -
  obtain sekret enc x where made: "shown_secret q a = Some sekret"
      "Encrypt (fe_box (ae_fleet env)) (fe_random (ae_fleet env) 1) sekret = Inr enc"
      "subs (fw_reg (aw_fleet st')) = subs (fw_reg (aw_fleet st)) @ [x]" "sub_id x = i" "sub_secret_enc x = enc"
    using created_subscription [OF assms(3,4,5)] by blast
  have "(i, dl_secret_enc d) \<in> set (sealed (fw_reg (aw_fleet st')))"
    using sealed_kept [OF assms(7)] claimed_secret [OF assms(8)] assms(9) by simp
  then have "dl_secret_enc d = enc"
    using assms(6) made(3,4,5) by (auto simp: sealed_def)
  then have "Encrypt (fe_box (ae_fleet env)) (fe_random (ae_fleet env) 1) sekret = Inr (dl_secret_enc d)"
    using made(2) by simp
  then show ?thesis
    using signed_with [OF assms(1,2) _ assms(10)] made(1) by blast
qed

text \<open>A subscription with the secret \<open>k\<close>, one update queued for it, and a toy authenticator that only joins.\<close>

definition subscribe :: request where
  "subscribe = \<lparr>hr_method = ''POST'', hr_segs = [''v1'', ''user'', ''s1'', ''updates'', ''subscriptions''], hr_headers = [],
     hr_query = [], hr_json = RawVal (JObj [(''url'', JStr ''https://x''), (''secret'', JStr ''k'')]),
     hr_json_size = 80, hr_length = 80\<rparr>"

definition subscribed :: registry where
  "subscribed = fw_reg (aw_fleet (snd (handleCreateSubscription sample_api ''s1'' subscribe sample_api_state)))"

definition queued :: registry where
  "queued = (case EnqueueDeliveries (\<lambda>x. x) 0 ''s1'' [''n1''] JNull subscribed of Inr r \<Rightarrow> r | Inl _ \<Rightarrow> subscribed)"

definition joining :: webhook_env where
  "joining = \<lparr>we_bytes = (\<lambda>_. ''null''), we_hmac = (\<lambda>k m. k @ m), we_bad_url = (\<lambda>_. None), we_send = (\<lambda>_ _. Inr 200)\<rparr>"

theorem webhooks_carry_the_signature_witness:
  "\<exists>d m. ClaimDeliveries 100 ''w1'' [] 5 5 queued = [d] \<and> webhook_request joining open_box d = Inr m
     \<and> header_of m ''X-Tgcontrol-Signature'' = Some (''sha256='' @ hex ''knull'')"
proof -
  let ?r = "handleCreateSubscription sample_api ''s1'' subscribe sample_api_state"
  let ?q = "\<lparr>uq_url = ''https://x'', uq_secret = ''k'', uq_filters = no_filter\<rparr>"
  have q: "decode (dec_struct subscription_request_fields) no_subscription_request subscribe = Some ?q" by code_simp
  have a: "result_member (fst ?r) ''id'' = Some (JStr ''n1'')" by code_simp
  have fresh: "''n1'' \<notin> sub_id ` set (subs (fw_reg (aw_fleet sample_api_state)))" by code_simp
  have here: "''n1'' \<in> sub_id ` set (subs subscribed)" by code_simp
  have "EnqueueDeliveries (\<lambda>x. x) 0 ''s1'' [''n1''] JNull subscribed = Inr queued"
  proof -
    have "is_uuid subscribed ''s1'' \<and> is_uuid subscribed ''n1''" by code_simp
    then show ?thesis by (simp add: queued_def EnqueueDeliveries_def)
  qed
  then have "while_subscribed ''n1'' subscribed queued"
    using here by (blast intro: while_subscribed.intros store_step.enqueue)
  then have run: "while_subscribed ''n1'' (fw_reg (aw_fleet (snd ?r))) queued" by (simp only: subscribed_def)
  have "map dl_sub (ClaimDeliveries 100 ''w1'' [] 5 5 queued) = [''n1'']" by code_simp
  then obtain d where d: "ClaimDeliveries 100 ''w1'' [] 5 5 queued = [d]" "dl_sub d = ''n1''" by auto
  have box: "fe_box (ae_fleet sample_api) = open_box" "0 < bx_nonce open_box"
    by (simp_all add: sample_api_def sample_env_def open_box_def)
  obtain sekret m where m: "shown_secret ?q (fst ?r) = Some sekret" "webhook_request joining open_box d = Inr m"
      "wh_body m = we_bytes joining (dl_payload d)"
      "header_of m ''X-Tgcontrol-Signature'' = Some (''sha256='' @ hex (we_hmac joining sekret (wh_body m)))"
    using webhooks_carry_the_signature [of sample_api, unfolded box(1), OF open_box_opens box(2) q surjective_pairing a
        fresh run, of d 100 "''w1''" "[]" 5 5 joining] d
    by (auto simp: joining_def)
  have "sekret = ''k''" using m(1) by (simp add: shown_secret_def)
  then show ?thesis
    using d(1) m by (simp add: joining_def)
qed

end
