(* ===== verification/System.thy ===== *)
theory System
  imports Router Webhook
begin

section \<open>A request through gateway and worker\<close>

text \<open>
  The gateway and the worker it forwards to, put together: the reply of \<^verbatim>\<open>serve\<close> is what the client gets unless it
  is a relay; then the worker serves the forwarded request on the registry they share. What the gateway's
  tokens promise is here a statement about the accounts behind the workers.
\<close>

definition request_through ::
  "gateway \<Rightarrow> files_env \<Rightarrow> api_env \<Rightarrow> request \<Rightarrow> gw_state \<times> api_state \<Rightarrow> answer \<times> gw_state \<times> api_state" where
  "request_through gw fe env r x =
     (case x of (s, st) \<Rightarrow>
        (case serve gw fe r s of
           (Reply status hs body, s') \<Rightarrow> (Envelope (Reply status hs body), s', st)
         | (Relay a q, s') \<Rightarrow>
             (case serve_worker env q (with_reg (gs_reg s') st) of
                (ans, st') \<Rightarrow> (ans, s'\<lparr>gs_reg := fw_reg (aw_fleet st')\<rparr>, st'))))"

subsection \<open>What the gateway forwards, the worker has a route for\<close>

lemma del_header_same [simp]: "hr_segs (del_header k r) = hr_segs r" "hr_method (del_header k r) = hr_method r"
  by (simp_all add: del_header_def)

lemma set_header_same [simp]: "hr_segs (set_header k v r) = hr_segs r" "hr_method (set_header k v r) = hr_method r"
  by (simp_all add: set_header_def)

lemma forward_same: "forward gw c base = Relay a q \<Longrightarrow> hr_segs q = hr_segs (rc_req c) \<and> hr_method q = hr_method (rc_req c)"
  by (drule forward_relay) simp

definition relays :: "handler set" where
  "relays = {AnyWorker_h, Scoped_h, OwnerOrAny_h}"

lemma relayed_by:
  assumes "serve gw fe r s = (Relay a q, s')"
  obtains h vs where "mux_lookup routes r = Found h vs" "h \<in> relays" "hr_segs q = hr_segs r" "hr_method q = hr_method r" "s' = s"
proof -
  obtain t h vs where au: "mux_lookup routes r = Found h vs" "h \<notin> quiet"
      "handle gw fe h \<lparr>rc_req = r, rc_token = t, rc_vars = vs\<rparr> s = (Relay a q, s')"
    using serve_acts [OF assms] by blast
  let ?c = "\<lparr>rc_req = r, rc_token = t, rc_vars = vs\<rparr>"
  have h: "h \<in> relays"
    using au(2,3)
    by (cases h)
       (auto simp: quiet_def relays_def on_reg_def createLimit_def updateLimit_def deleteLimit_def updateApp_def updateProxy_def
         createToken_def updateToken_def deleteToken_def deleteSubscription_def found_or_404_def limitByPath_def Let_def
         dest: resolveSession_no_relay split: sum.splits option.splits if_splits prod.splits db_err.splits)
  have "forward gw ?c base = Relay a q \<Longrightarrow> hr_segs q = hr_segs r \<and> hr_method q = hr_method r" for base
    using forward_same [of gw ?c base a q] by simp
  moreover have nr: "resolveSession gw ?c reg \<noteq> Inl (Relay a q)" for reg
    using resolveSession_no_relay by blast
  ultimately have "s' = s \<and> hr_segs q = hr_segs r \<and> hr_method q = hr_method r"
    using au(3) h nr
    by (auto simp: relays_def anyWorker_def scoped_def ownerOrAnyWorker_def Let_def split: sum.splits if_splits option.splits)
  then show thesis using that au(1) h by blast
qed


lemma mux_finds:
  assumes "(m, p, h) \<in> set rs" "match_segs p (hr_segs r) \<noteq> None" "method_matches m (hr_method r)"
  shows "\<exists>h' vs. mux_lookup rs r = Found h' vs"
  using assms(1)
proof (induction rs)
  case (Cons x rs)
  obtain m' p' h' where x: "x = (m', p', h')" by (cases x)
  show ?case
  proof (cases "match_segs p' (hr_segs r) \<noteq> None \<and> method_matches m' (hr_method r)")
    case True
    then show ?thesis by (auto simp: x)
  next
    case False
    then have "(m, p, h) \<in> set rs" using Cons.prems assms(2,3) by (auto simp: x)
    then obtain h2 vs where "mux_lookup rs r = Found h2 vs" using Cons.IH by blast
    then show ?thesis using False by (cases "match_segs p' (hr_segs r)") (auto simp: x)
  qed
qed simp

text \<open>Every pattern the gateway forwards is a pattern of the worker.\<close>

lemma relayed_patterns_check:
  "list_all (\<lambda>(m, p, h). h \<in> relays \<longrightarrow> list_ex (\<lambda>(m', p', _). m' = m \<and> p' = p) worker_routes) routes"
  by code_simp

lemma relayed_patterns: "(m, p, h) \<in> set routes \<Longrightarrow> h \<in> relays \<Longrightarrow> \<exists>h'. (m, p, h') \<in> set worker_routes"
  using relayed_patterns_check by (fastforce simp: list_all_iff list_ex_iff)

text \<open>
  C20: A request the gateway forwards is one the worker has a route for: no request passes authentication and
  routing at the gateway only to be turned away by the worker's mux.
\<close>

theorem forwarded_requests_have_a_route:
  assumes "serve gw fe r s = (Relay a q, s')"
  shows "\<exists>h vs. mux_lookup worker_routes q = Found h vs
     \<and> serve_worker env q st = handle_worker env h vs q st"
proof -
  obtain h vs where g: "mux_lookup routes r = Found h vs" "h \<in> relays" "hr_segs q = hr_segs r" "hr_method q = hr_method r"
    using relayed_by [OF assms] by blast
  obtain m p where mp: "(m, p, h) \<in> set routes" "match_segs p (hr_segs r) = Some vs" "method_matches m (hr_method r)"
    using mux_lookup_found [OF g(1)] by blast
  obtain h' where "(m, p, h') \<in> set worker_routes" using relayed_patterns [OF mp(1) g(2)] by blast
  then have "\<exists>h' vs'. mux_lookup worker_routes q = Found h' vs'"
    using mp g(3,4) by (intro mux_finds) auto
  then show ?thesis by (auto simp: serve_worker_def)
qed

subsection \<open>Whose account a request can reach\<close>

lemma sent_with_fleet [simp]: "sent_to k (with_reg reg st) = sent_to k st"
  by (simp add: sent_to_def with_reg_def)

lemma call_session_other:
  "call_session env sid token m ps st = (x, st') \<Longrightarrow> k \<noteq> sid \<Longrightarrow> sent_to k st' = sent_to k st"
proof -
  have g: "get (wk\<lparr>wk_jobs := a, wk_pending := b\<rparr>) = get wk" for wk a b by (simp add: get_def fun_eq_iff)
  show "call_session env sid token m ps st = (x, st') \<Longrightarrow> k \<noteq> sid \<Longrightarrow> sent_to k st' = sent_to k st"
    by (auto simp: call_session_def Let_def sent_to_def g split: option.splits prod.splits)
qed

lemma on_client_other: "k \<noteq> sid \<Longrightarrow> get (fw_worker (on_client sid td f)) k = get (fw_worker f) k"
  by (simp add: on_client_def)

lemma DownloadFile_other: "DownloadFile sid fr ri f = (x, f') \<Longrightarrow> k \<noteq> sid \<Longrightarrow> get (fw_worker f') k = get (fw_worker f) k"
  by (auto simp: DownloadFile_def on_client_other split: option.splits if_splits prod.splits sum.splits)

lemma DeleteTdFile_other: "k \<noteq> sid \<Longrightarrow> get (fw_worker (DeleteTdFile sid fid f)) k = get (fw_worker f) k"
  by (auto simp: DeleteTdFile_def on_client_other split: option.splits)

lemma sync_td: "map_option le_td (get (syncSubscriptions ids reg wk) k) = map_option le_td (get wk k)"
proof -
  have "map_option le_td (map_of (map (\<lambda>(k, le). (k, if k \<in> set ids then le\<lparr>le_subs := f k\<rparr> else le)) xs) k)
      = map_option le_td (map_of xs k)" for f xs
    by (induction xs) auto
  from this [of "\<lambda>k. newSnapshot (filter (\<lambda>f. sf_session f = k) fs)" "wk_live wk" for fs]
  show ?thesis
    by (auto simp: syncSubscriptions_def get_def split: sum.split)
qed

lemma sent_to_same:
  "map_option le_td (get (fw_worker (aw_fleet st')) k) = map_option le_td (get (fw_worker (aw_fleet st)) k)
   \<Longrightarrow> sent_to k st' = sent_to k st"
  by (auto simp: sent_to_def split: option.splits)

lemma handleCreateSubscription_sends:
  assumes "handleCreateSubscription env sid r st = (a, st')"
  shows "sent_to k st' = sent_to k st"
proof -
  have "fw_worker (aw_fleet st') = fw_worker (aw_fleet st)
      \<or> (\<exists>reg. fw_worker (aw_fleet st') = RefreshSubscriptions sid reg (fw_worker (aw_fleet st)))"
    using assms by (auto simp: handleCreateSubscription_def Let_def with_fleet_def
        split: option.splits if_split_asm sum.splits prod.splits)
  then show ?thesis
    by (intro sent_to_same) (auto simp: RefreshSubscriptions_def sync_td split: option.splits)
qed

lemma handleCall_other: "handleCall env sid r st = (a, st') \<Longrightarrow> k \<noteq> sid \<Longrightarrow> sent_to k st' = sent_to k st"
  by (auto simp: handleCall_def split: option.splits if_splits prod.splits dest: call_session_other)

lemma handleDownloadFile_other:
  assumes "handleDownloadFile env sid fr r st = (a, st')" and "k \<noteq> sid"
  shows "sent_to k st' = sent_to k st"
proof -
  obtain x f where d: "DownloadFile sid fr (query r ''remote_id'') (aw_fleet st) = (x, f)" by fastforce
  show ?thesis
    using assms DownloadFile_other [OF d assms(2)] DeleteTdFile_other [OF assms(2)]
    by (auto simp: handleDownloadFile_def d with_fleet_def sent_to_def split: sum.splits prod.splits opened.splits if_splits)
qed

text \<open>What a scoped token may use a session for ends at a handler that names that session.\<close>

definition on_one_session :: "worker_handler set" where
  "on_one_session = {HCall, HSubscribe, HGetSession, HDownload}"

text \<open>The other session routes: what they have after the session's id is no use a token has.\<close>

fun unused_tail :: "string \<Rightarrow> segment list \<Rightarrow> bool" where
  "unused_tail m [] = (m = ''DELETE'' \<or> m = ''PATCH'')"
| "unused_tail m (Lit x # later) = (x = ''login'' \<or> (x = ''limits'' \<and> later \<noteq> []))"
| "unused_tail m (Wild v # later) = False"

fun worker_route_ok :: "string \<Rightarrow> segment list \<Rightarrow> worker_handler \<Rightarrow> bool" where
  "worker_route_ok m (Lit a # Lit b # Wild i # tail) h = (i = ''id'' \<and> (h \<in> on_one_session \<or> unused_tail m tail))"
| "worker_route_ok m [x, y] h = True"
| "worker_route_ok m [x] h = True"
| "worker_route_ok m p h = False"

lemma worker_routes_ok: "list_all (\<lambda>(m, p, h). worker_route_ok m p h) worker_routes"
  by code_simp

lemma unused_tail_not_used:
  assumes "unused_tail m tail" "match_segs tail rest = Some vs" "method_matches m q"
  shows "\<not> session_use q rest"
proof (cases tail)
  case Nil
  then show ?thesis using assms by (cases rest) (auto simp: session_use_def method_matches_def)
next
  case (Cons x later)
  then obtain l where "x = Lit l" using assms(1) by (cases x) auto
  then show ?thesis
    using assms(1,2) Cons by (cases rest; cases later) (auto simp: session_use_def match_simps split: if_splits)
qed

lemma used_handler:
  assumes "mux_lookup worker_routes q = Found h vs" "hr_segs q = ''v1'' # kind # sid # rest" "session_use (hr_method q) rest"
  shows "h \<in> on_one_session \<and> path_value vs ''id'' = sid"
proof -
  obtain m p where mp: "(m, p, h) \<in> set worker_routes" "match_segs p (hr_segs q) = Some vs" "method_matches m (hr_method q)"
    using mux_lookup_found [OF assms(1)] by blast
  have ok: "worker_route_ok m p h" using worker_routes_ok mp(1) by (auto simp: list_all_iff)
  have "3 \<le> length p" using match_segs_length [OF mp(2)] assms(2) by simp
  then obtain a b tail where p: "p = Lit a # Lit b # Wild ''id'' # tail" and h: "h \<in> on_one_session \<or> unused_tail m tail"
    using ok by (cases "(m, p, h)" rule: worker_route_ok.cases) auto
  obtain ws where ws: "match_segs tail rest = Some ws" "vs = (''id'', sid) # ws"
    using mp(2) unfolding p assms(2) match_simps by auto
  then show ?thesis
    using h unused_tail_not_used [OF _ ws(1) mp(3)] assms(3) by (auto simp: path_value_def)
qed

lemma execute_handler:
  assumes "mux_lookup worker_routes q = Found h vs" "hr_segs q = [''v1'', ''execute'']"
  shows "h = HExecute"
proof -
  obtain m p where mp: "(m, p, h) \<in> set worker_routes" "match_segs p (hr_segs q) = Some vs"
    using mux_lookup_found [OF assms(1)] by blast
  then show ?thesis
    using assms(2) by (auto simp: worker_routes_def both_kinds_def match_simps)
qed

lemma handled_on_one:
  assumes "handle_worker env h vs q st = (a, st')" "h \<in> on_one_session" "k \<noteq> path_value vs ''id''"
  shows "sent_to k st' = sent_to k st"
proof -
  consider "h = HCall" | "h = HSubscribe" | "h = HGetSession" | "h = HDownload"
    using assms(2) by (auto simp: on_one_session_def)
  then show ?thesis
  proof cases
    case 1
    then have "handleCall env (path_value vs ''id'') q st = (a, st')" using assms(1) by (simp add: handle_worker_def)
    then show ?thesis using handleCall_other assms(3) by blast
  next
    case 2
    then have "handleCreateSubscription env (path_value vs ''id'') q st = (a, st')" using assms(1) by (simp add: handle_worker_def)
    then show ?thesis by (rule handleCreateSubscription_sends)
  next
    case 3
    then show ?thesis using assms(1) by (simp add: handle_worker_def)
  next
    case 4
    then have "handleDownloadFile env (path_value vs ''id'') (path_value vs ''file_id'') q st = (a, st')"
      using assms(1) by (simp add: handle_worker_def)
    then show ?thesis using handleDownloadFile_other assms(3) by blast
  qed
qed

lemma serve_worker_other:
  assumes "serve_worker env q st = (a, st')" and "hr_segs q = ''v1'' # kind # sid # rest"
    and "session_use (hr_method q) rest" and "k \<noteq> sid"
  shows "sent_to k st' = sent_to k st"
proof (cases "mux_lookup worker_routes q")
  case (Found h vs)
  then show ?thesis
    using used_handler [OF Found assms(2,3)] assms(1,4) handled_on_one [of env h vs q st a st' k]
    by (simp add: serve_worker_def)
qed (use assms(1) in \<open>simp_all add: serve_worker_def\<close>)

lemma serve_worker_execute:
  assumes "serve_worker env q st = (a, st')" and "hr_segs q = [''v1'', ''execute'']"
  shows "st' = st"
proof (cases "mux_lookup worker_routes q")
  case (Found h vs)
  then show ?thesis
    using execute_handler [OF Found assms(2)] assms(1) by (simp add: serve_worker_def handle_worker_def Let_def)
qed (use assms(1) in \<open>simp_all add: serve_worker_def\<close>)

text \<open>
  C1: From the client's request to the Telegram account: whatever a client without the master token sends, and
  however its path is escaped, the TDLib client of an account is sent a request on account of it only if
  the request carries the secret of an enabled token and that token's grants cover this very account.
\<close>

theorem tokens_reach_only_granted_accounts:
  assumes "request_through gw fe env r (s, st) = (ans, s', st')"
    and "header r ''Authorization'' \<noteq> ''Bearer '' @ gw_master gw"
    and "\<forall>i. is_uuid (gs_reg s) i \<longrightarrow> clean_seg i"
    and "sent_to k st' \<noteq> sent_to k st"
  shows "\<exists>secret tok. header r ''Authorization'' = ''Bearer '' @ secret
     \<and> ResolveToken (gw_sha256 gw secret) (gs_reg s) = Some (tok, True)
     \<and> TokenGrantsSession tok k (gs_reg s) = Inr True"
proof -
  obtain a q s1 where rel: "serve gw fe r s = (Relay a q, s1)"
      and wk: "serve_worker env q (with_reg (gs_reg s1) st) = (ans, st')"
    using assms(1,4) by (auto simp: request_through_def split: reply.splits prod.splits)
  obtain h vs where q: "hr_segs q = hr_segs r" "hr_method q = hr_method r"
    using relayed_by [OF rel] by blast
  obtain secret tok where t: "header r ''Authorization'' = ''Bearer '' @ secret"
      "ResolveToken (gw_sha256 gw secret) (gs_reg s) = Some (tok, True)"
      and at: "hr_segs r = [''v1'', ''execute'']
        \<or> (\<exists>kind sid rest. hr_segs r = ''v1'' # kind # sid # rest \<and> session_use (hr_method r) rest
             \<and> TokenGrantsSession tok sid (gs_reg s) = Inr True)"
    using scoped_request [OF rel assms(2,3), of a q] by blast
  from at show ?thesis
  proof (elim disjE exE conjE)
    assume "hr_segs r = [''v1'', ''execute'']"
    then show ?thesis using serve_worker_execute [OF wk] q(1) assms(4) by simp
  next
    fix kind sid rest
    assume u: "hr_segs r = ''v1'' # kind # sid # rest" "session_use (hr_method r) rest"
      and g: "TokenGrantsSession tok sid (gs_reg s) = Inr True"
    have "k = sid"
      using serve_worker_other [OF wk, of kind sid rest k] u q assms(4) by auto
    then show ?thesis using t g by blast
  qed
qed

subsection \<open>A call of a scoped token\<close>

definition token_call :: request where
  "token_call = sample_request\<lparr>hr_json := RawVal (JObj [(''method'', JStr ''getMe'')]), hr_json_size := 20, hr_length := 20\<rparr>"

definition holder :: api_state where
  "holder = \<lparr>aw_fleet = \<lparr>fw_worker = holding ''u1'', fw_reg = empty_registry, fw_closed = []\<rparr>,
     aw_cache = \<lparr>rc_rules = [], rc_at = 0\<rparr>, aw_data = \<lparr>v_dirs = [], v_files = []\<rparr>\<rparr>"

theorem tokens_reach_only_granted_accounts_witness:
  "map (\<lambda>q. obj_get q ''@type'') (sent_to ''u1''
      (snd (snd (request_through sample_gateway sample_files sample_api token_call (sample_gw_state, holder))))) = [Some (JStr ''getMe'')]
   \<and> (\<exists>tok. ResolveToken ''t1'' (gs_reg sample_gw_state) = Some (tok, True)
        \<and> TokenGrantsSession tok ''u1'' (gs_reg sample_gw_state) = Inr True)"
proof -
  let ?x = "request_through sample_gateway sample_files sample_api token_call (sample_gw_state, holder)"
  obtain ans s' st' where x: "?x = (ans, s', st')" by (cases ?x)
  have e: "map (\<lambda>q. obj_get q ''@type'') (sent_to ''u1'' (snd (snd ?x))) = [Some (JStr ''getMe'')]" by code_simp
  have "sent_to ''u1'' holder = []" by code_simp
  then have sent: "sent_to ''u1'' st' \<noteq> sent_to ''u1'' holder" using e x by auto
  have h: "header token_call ''Authorization'' \<noteq> ''Bearer '' @ gw_master sample_gateway" by code_simp
  have u: "\<forall>i. is_uuid (gs_reg sample_gw_state) i \<longrightarrow> clean_seg i" by (simp add: sample_gw_state_def)
  obtain secret tok where w: "header token_call ''Authorization'' = ''Bearer '' @ secret"
     "ResolveToken (gw_sha256 sample_gateway secret) (gs_reg sample_gw_state) = Some (tok, True)"
     "TokenGrantsSession tok ''u1'' (gs_reg sample_gw_state) = Inr True"
    using tokens_reach_only_granted_accounts [OF x h u sent] by blast
  have "secret = ''t1''" using w(1) by (simp add: header_def token_call_def sample_request_def)
  then show ?thesis using e w(2,3) by (auto simp: sample_gateway_def)
qed

theorem forwarded_requests_have_a_route_witness:
  "\<exists>q h vs. fst (serve sample_gateway sample_files sample_request sample_gw_state) = Relay ''http://w1'' q
     \<and> mux_lookup worker_routes q = Found h vs"
  using forwarded_requests_have_a_route [where env = sample_api and st = holder, OF sample_serve] sample_serve by auto

end
