(* ===== verification/Migrations.thy ===== *)
theory Migrations
  imports TdJson
begin

section \<open>Opening the registry: schema migrations\<close>

text \<open>
  \<^verbatim>\<open>internal/store/migrations.go\<close> (\<^verbatim>\<open>applyMigrations\<close>) and \<^verbatim>\<open>New\<close> of \<^verbatim>\<open>internal/store/store.go\<close>. The text of a
  migration is known by the name of its constant; what running it does to the tables is a parameter \<open>exec\<close>.
  Every statement of a start may fail on its own, and a failed start leaves the database as it was: the
  transaction is rolled back. The advisory lock makes starts run one after the other.
\<close>

type_synonym migration = "int \<times> string"

definition migrations :: "migration list" where
  "migrations = [(1, ''schemaV1''), (2, ''schemaV2''), (3, ''schemaV3''), (4, ''schemaV4''), (5, ''schemaV5''), (6, ''schemaV6'')]"

text \<open>The versions recorded in \<^verbatim>\<open>schema_migration\<close>, none when the table is not there yet, and the tables.\<close>

record 'd schema_db =
  sd_versions :: "int list option"
  sd_tables :: 'd

datatype statement = Begin | Lock | MakeTable | ReadMax | RunSql int | RecordVersion int | Commit

definition recorded :: "'d schema_db \<Rightarrow> int list" where
  "recorded db = (case sd_versions db of None \<Rightarrow> [] | Some vs \<Rightarrow> vs)"

text \<open>\<^verbatim>\<open>SELECT COALESCE(MAX(version), 0)\<close>.\<close>

definition max_version :: "int list \<Rightarrow> int" where
  "max_version vs = (case vs of [] \<Rightarrow> 0 | v # rest \<Rightarrow> foldl max v rest)"

fun migrate_loop ::
  "(string \<Rightarrow> 'd \<Rightarrow> db_err + 'd) \<Rightarrow> (statement \<Rightarrow> bool) \<Rightarrow> int \<Rightarrow> migration list \<Rightarrow> int list \<times> 'd
   \<Rightarrow> err + (int list \<times> 'd)" where
  "migrate_loop exec fails current [] (vs, d) = Inr (vs, d)"
| "migrate_loop exec fails current ((v, sql) # ms) (vs, d) =
     (if v \<le> current then migrate_loop exec fails current ms (vs, d)
      else (case (if fails (RunSql v) then Inl DbDown else exec sql d) of
              Inl e \<Rightarrow> Inl (EWrap ''apply migration'' (EDb e))
            | Inr d' \<Rightarrow>
                (case (if fails (RecordVersion v) then Inl DbDown
                       else if v \<in> set vs then Inl UniqueViolation else Inr (vs @ [v])) of
                   Inl e \<Rightarrow> Inl (EWrap ''record migration'' (EDb e))
                 | Inr vs' \<Rightarrow> migrate_loop exec fails current ms (vs', d'))))"

definition applyMigrations ::
  "(string \<Rightarrow> 'd \<Rightarrow> db_err + 'd) \<Rightarrow> (statement \<Rightarrow> bool) \<Rightarrow> 'd schema_db \<Rightarrow> err + 'd schema_db" where
  "applyMigrations exec fails db =
     (if fails MakeTable then Inl (EWrap ''migration table'' (EDb DbDown))
      else if fails ReadMax then Inl (EWrap ''read migration version'' (EDb DbDown))
      else (case migrate_loop exec fails (max_version (recorded db)) migrations (recorded db, sd_tables db) of
              Inl e \<Rightarrow> Inl e
            | Inr (vs, d) \<Rightarrow> Inr \<lparr>sd_versions = Some vs, sd_tables = d\<rparr>))"

definition New_Store ::
  "(string \<Rightarrow> 'd \<Rightarrow> db_err + 'd) \<Rightarrow> (statement \<Rightarrow> bool) \<Rightarrow> 'd schema_db \<Rightarrow> err option \<times> 'd schema_db" where
  "New_Store exec fails db =
     (if fails Begin \<or> fails Lock then (Some (EDb DbDown), db)
      else (case applyMigrations exec fails db of
              Inl e \<Rightarrow> (Some e, db)
            | Inr db' \<Rightarrow> if fails Commit then (Some (EDb DbDown), db) else (None, db')))"

text \<open>Gateway and workers starting in any number, one transaction after the other.\<close>

fun starts ::
  "(string \<Rightarrow> 'd \<Rightarrow> db_err + 'd) \<Rightarrow> (statement \<Rightarrow> bool) list \<Rightarrow> 'd schema_db \<Rightarrow> bool list \<times> 'd schema_db" where
  "starts exec [] db = ([], db)"
| "starts exec (fails # fs) db =
     (case New_Store exec fails db of
        (e, db') \<Rightarrow> (case starts exec fs db' of (oks, db'') \<Rightarrow> ((e = None) # oks, db'')))"

subsection \<open>Each migration once, in order\<close>

fun run_sql :: "(string \<Rightarrow> 'd \<Rightarrow> db_err + 'd) \<Rightarrow> migration list \<Rightarrow> 'd \<Rightarrow> db_err + 'd" where
  "run_sql exec [] d = Inr d"
| "run_sql exec ((_, sql) # ms) d = (case exec sql d of Inl e \<Rightarrow> Inl e | Inr d' \<Rightarrow> run_sql exec ms d')"

definition at_version :: "nat \<Rightarrow> 'd schema_db \<Rightarrow> bool" where
  "at_version k db \<longleftrightarrow> recorded db = map fst (take k migrations)"

lemma migrate_loop_runs:
  "migrate_loop exec fails current ms (vs, d) = Inr (vs', d') \<Longrightarrow>
   vs' = vs @ map fst (filter (\<lambda>m. current < fst m) ms) \<and> run_sql exec (filter (\<lambda>m. current < fst m) ms) d = Inr d'"
proof (induction ms arbitrary: vs d)
  case (Cons m ms)
  obtain v sql where m: "m = (v, sql)" by fastforce
  show ?case
  proof (cases "v \<le> current")
    case True
    then show ?thesis using Cons by (simp add: m)
  next
    case False
    then obtain d1 where "exec sql d = Inr d1" "migrate_loop exec fails current ms (vs @ [v], d1) = Inr (vs', d')"
      using Cons.prems by (auto simp: m split: sum.splits if_split_asm)
    then show ?thesis using Cons.IH [of "vs @ [v]" d1] False by (simp add: m)
  qed
qed simp

lemma upto_six: "k \<le> 6 \<Longrightarrow> k \<in> {0, 1, 2, 3, 4, 5, 6 :: nat}"
  by auto

lemma pending_after:
  assumes "k \<le> 6"
  shows "filter (\<lambda>m. max_version (map fst (take k migrations)) < fst m) migrations = drop k migrations"
  using upto_six [OF assms] by (auto simp: migrations_def max_version_def)

lemma New_Store_runs:
  assumes "k \<le> 6" "at_version k db" "New_Store exec fails db = (None, db')"
  shows "at_version 6 db' \<and> run_sql exec (drop k migrations) (sd_tables db) = Inr (sd_tables db')"
proof -
  let ?cur = "max_version (recorded db)"
  obtain vs d where l: "migrate_loop exec fails ?cur migrations (recorded db, sd_tables db) = Inr (vs, d)"
      and db': "db' = \<lparr>sd_versions = Some vs, sd_tables = d\<rparr>"
    using assms(3) by (auto simp: New_Store_def applyMigrations_def split: sum.splits if_split_asm)
  have p: "filter (\<lambda>m. ?cur < fst m) migrations = drop k migrations"
    using assms(2) pending_after [OF assms(1)] by (simp add: at_version_def)
  have "vs = map fst (take k migrations) @ map fst (drop k migrations)"
    using migrate_loop_runs [OF l] assms(2) by (simp add: p at_version_def)
  then have "vs = map fst migrations" by (simp flip: map_append)
  moreover have "take 6 migrations = migrations" by (simp add: migrations_def)
  moreover have "run_sql exec (drop k migrations) (sd_tables db) = Inr d"
    using migrate_loop_runs [OF l] by (simp only: p)
  ultimately show ?thesis
    by (simp add: db' at_version_def recorded_def)
qed

lemma New_Store_rolls_back: "New_Store exec fails db = (Some e, db') \<Longrightarrow> db' = db"
  by (auto simp: New_Store_def split: sum.splits if_split_asm)

lemma starts_at_six:
  assumes "at_version 6 db" "starts exec fs db = (oks, db')"
  shows "at_version 6 db' \<and> sd_tables db' = sd_tables db"
  using assms
proof (induction fs arbitrary: db oks)
  case (Cons f fs)
  obtain e db1 where n: "New_Store exec f db = (e, db1)" by fastforce
  have "at_version 6 db1 \<and> sd_tables db1 = sd_tables db"
  proof (cases e)
    case None
    then show ?thesis using New_Store_runs [of 6 db exec f db1] n Cons.prems(1) by (simp add: migrations_def)
  next
    case (Some x)
    then show ?thesis using New_Store_rolls_back [of exec f db x db1] n Cons.prems(1) by simp
  qed
  then show ?case using Cons.IH [of db1] Cons.prems(2) n by (auto split: prod.splits)
qed simp

text \<open>
  C19: However many processes start on a database at schema version k, and whatever statement fails for
  whichever of them: as soon as one start has succeeded the recorded versions are 1 to 6 and the tables are
  what running migrations k+1 to 6, each once and in order, makes of them; until then the database is as it was.
\<close>

theorem migrations_run_once:
  assumes "k \<le> 6" and "at_version k db" and "starts exec fs db = (oks, db')"
  shows "if True \<in> set oks
         then recorded db' = [1, 2, 3, 4, 5, 6] \<and> run_sql exec (drop k migrations) (sd_tables db) = Inr (sd_tables db')
         else db' = db"
proof -
  have six: "recorded d = [1, 2, 3, 4, 5, 6]" if "at_version 6 d" for d :: "'a schema_db"
    using that by (simp add: at_version_def migrations_def)
  show ?thesis
    using assms(2,3)
  proof (induction fs arbitrary: oks)
    case (Cons f fs)
    obtain e db1 where n: "New_Store exec f db = (e, db1)" by fastforce
    obtain oks1 where s: "starts exec fs db1 = (oks1, db')" "oks = (e = None) # oks1"
      using Cons.prems(2) n by (auto split: prod.splits)
    show ?case
    proof (cases e)
      case None
      then have r: "at_version 6 db1" "run_sql exec (drop k migrations) (sd_tables db) = Inr (sd_tables db1)"
        using New_Store_runs [OF assms(1) Cons.prems(1)] n by simp_all
      then show ?thesis using starts_at_six [OF r(1) s(1)] six None s(2) by simp
    next
      case (Some x)
      then have "db1 = db" using New_Store_rolls_back n by simp
      then show ?thesis using Cons.IH [OF Cons.prems(1)] s Some by simp
    qed
  qed simp
qed

text \<open>Tables that remember what ran; the first of three starts loses its connection at the third migration.\<close>

definition noted :: "string \<Rightarrow> string list \<Rightarrow> db_err + string list" where
  "noted sql d = Inr (d @ [sql])"

theorem migrations_run_once_witness:
  "snd (starts noted [\<lambda>s. s = RunSql 3, \<lambda>_. False, \<lambda>_. False] \<lparr>sd_versions = Some [1, 2], sd_tables = [''v1'', ''v2'']\<rparr>)
   = \<lparr>sd_versions = Some [1, 2, 3, 4, 5, 6],
      sd_tables = [''v1'', ''v2'', ''schemaV3'', ''schemaV4'', ''schemaV5'', ''schemaV6'']\<rparr>"
proof -
  let ?db = "\<lparr>sd_versions = Some [1, 2], sd_tables = [''v1'', ''v2'']\<rparr>"
  let ?fs = "[\<lambda>s. s = RunSql 3, \<lambda>_. False, \<lambda>_. False] :: (statement \<Rightarrow> bool) list"
  obtain oks db' where s: "starts noted ?fs ?db = (oks, db')" by fastforce
  have at: "at_version 2 ?db" by (simp add: at_version_def recorded_def migrations_def)
  have "oks = [False, True, True]"
    using s by (auto simp: New_Store_def applyMigrations_def recorded_def max_version_def migrations_def noted_def)
  then have "recorded db' = [1, 2, 3, 4, 5, 6]"
    "run_sql noted (drop 2 migrations) [''v1'', ''v2''] = Inr (sd_tables db')"
    using migrations_run_once [OF _ at s] by simp_all
  then show ?thesis
    using s by (cases db') (auto simp: recorded_def migrations_def noted_def New_Store_def split: option.splits)
qed

end
