(* ===== verification/Startup.thy ===== *)
theory Startup
  imports System Migrations
begin

section \<open>Starting a gateway or a worker\<close>

text \<open>
  \<^verbatim>\<open>cmd/gateway/main.go\<close> and \<^verbatim>\<open>cmd/worker/main.go\<close> up to the point where they listen, and the end of a worker: the
  environment with its defaults, what has to be there, the opening of secrets and registry. An
  environment variable that is not set reads as empty. Arguments: \<^verbatim>\<open>time.ParseDuration\<close>, the host name and the
  address the kernel would use, whether the exporters of telemetry can be made, and what the parts started take as theirs.
\<close>

type_synonym environ = "string \<Rightarrow> string"

definition mustEnv :: "environ \<Rightarrow> string \<Rightarrow> err + string" where
  "mustEnv e k = (if e k = '''' then Inl (EMsg (k @ '' is required'')) else Inr (e k))"

definition envOr :: "environ \<Rightarrow> string \<Rightarrow> string \<Rightarrow> string" where
  "envOr e k def = (if e k \<noteq> '''' then e k else def)"

definition envInt :: "environ \<Rightarrow> string \<Rightarrow> int \<Rightarrow> int" where
  "envInt e k def =
     (if e k \<noteq> '''' then (case parse_int64 (e k) of Some n \<Rightarrow> n | None \<Rightarrow> def) else def)"

text \<open>\<^verbatim>\<open>strconv.Atoi\<close> and \<^verbatim>\<open>strconv.ParseInt(v, 10, 64)\<close> read the same texts where an int has 64 bits.\<close>

definition envInt64 :: "environ \<Rightarrow> string \<Rightarrow> int \<Rightarrow> int" where
  "envInt64 e k def =
     (if e k \<noteq> '''' then (case parse_int64 (e k) of Some n \<Rightarrow> n | None \<Rightarrow> def) else def)"

definition envDur :: "(string \<Rightarrow> duration option) \<Rightarrow> environ \<Rightarrow> string \<Rightarrow> duration \<Rightarrow> duration" where
  "envDur parse e k def =
     (if e k \<noteq> '''' then (case parse (e k) of Some d \<Rightarrow> d | None \<Rightarrow> def) else def)"

definition hostname :: "string option \<Rightarrow> string" where
  "hostname h = (case h of None \<Rightarrow> ''worker'' | Some s \<Rightarrow> if s = '''' then ''worker'' else s)"

definition advertiseIP :: "string option \<Rightarrow> string" where
  "advertiseIP dialled = (case dialled of Some ip \<Rightarrow> ip | None \<Rightarrow> ''127.0.0.1'')"

subsection \<open>Telemetry\<close>

text \<open>
  \<^verbatim>\<open>internal/obs/obs.go\<close>: off unless configured; otherwise a resource and three exporters are made in turn, each
  of which may fail, and after each exporter its provider becomes the global one. What the OpenTelemetry
  library does with them is its own.
\<close>

datatype provider = Tracer | Meter | Logger

definition Enabled :: "environ \<Rightarrow> bool" where
  "Enabled e \<longleftrightarrow> e ''OTEL_EXPORTER_OTLP_ENDPOINT'' \<noteq> '''' \<or> e ''OTEL_ENABLED'' = ''true''"

fun install :: "(provider \<Rightarrow> err option) \<Rightarrow> provider list \<Rightarrow> provider list \<Rightarrow> err option \<times> provider list" where
  "install exporter [] done = (None, done)"
| "install exporter (p # ps) done =
     (case exporter p of Some x \<Rightarrow> (Some x, done) | None \<Rightarrow> install exporter ps (done @ [p]))"

text \<open>The answer, the providers installed, and whether the standard logger writes to both.\<close>

definition Setup :: "environ \<Rightarrow> err option \<Rightarrow> (provider \<Rightarrow> err option) \<Rightarrow> err option \<times> provider list \<times> bool" where
  "Setup e resource exporter =
     (if \<not> Enabled e then (None, [], False)
      else (case resource of
              Some x \<Rightarrow> (Some x, [], False)
            | None \<Rightarrow> (case install exporter [Tracer, Meter, Logger] [] of (x, ps) \<Rightarrow> (x, ps, x = None))))"

text \<open>Shutting down goes on after a failure and answers the first.\<close>

fun shutdown_all :: "(provider \<Rightarrow> err option) \<Rightarrow> provider list \<Rightarrow> err option \<Rightarrow> provider list \<Rightarrow> err option \<times> provider list" where
  "shutdown_all sh [] first closed = (first, closed)"
| "shutdown_all sh (p # ps) first closed = shutdown_all sh ps (if first = None then sh p else first) (closed @ [p])"

text \<open>\<^verbatim>\<open>otelLogWriter.Write\<close>: the record emitted for a log line, if any, and the length it claims to have written.\<close>

definition log_write :: "string \<Rightarrow> string option \<times> nat" where
  "log_write line =
     (let msg = rev (dropWhile (\<lambda>c. c = CHR 0x0A) (rev line))
      in (if msg = '''' then None else Some msg, length line))"

lemma shutdown_all_closes: "snd (shutdown_all sh ps x cs) = cs @ ps"
  by (induction ps arbitrary: x cs) auto

lemma shutdown_all_first: "fst (shutdown_all sh ps None cs) = (case find (\<lambda>p. sh p \<noteq> None) ps of None \<Rightarrow> None | Some p \<Rightarrow> sh p)"
proof -
  have "fst (shutdown_all sh ps (Some x) cs) = Some x" for x cs ps
    by (induction ps arbitrary: cs) auto
  then show ?thesis
    by (induction ps arbitrary: cs) (auto split: option.splits)
qed

lemma Setup_tees_iff: "Setup e r ex = (x, ps, tee) \<Longrightarrow> tee \<longleftrightarrow> Enabled e \<and> x = None"
  by (auto simp: Setup_def simp del: install.simps split: if_split_asm option.split_asm prod.split_asm)

subsection \<open>The gateway\<close>

record gateway_config =
  gc_dsn :: string
  gc_token :: string
  gc_addr :: string
  gc_uploads :: upload_store

definition configure_gateway :: "environ \<Rightarrow> err + gateway_config" where
  "configure_gateway e =
     (case mustEnv e ''DATABASE_URL'' of
        Inl x \<Rightarrow> Inl x
      | Inr dsn \<Rightarrow>
          (case mustEnv e ''API_TOKEN'' of
             Inl x \<Rightarrow> Inl x
           | Inr token \<Rightarrow>
               Inr \<lparr>gc_dsn = dsn, gc_token = token, gc_addr = envOr e ''LISTEN_ADDR'' '':8080'',
                    gc_uploads =
                      \<lparr>st_dir = envOr e ''UPLOADS_DIR'' ''/uploads'',
                       maxSingle = envInt64 e ''MAX_SINGLE_SHOT_BYTES'' (64 * 2 ^ 20),
                       maxChunk = envInt64 e ''MAX_CHUNK_BYTES'' (16 * 2 ^ 20),
                       maxTotal = envInt64 e ''MAX_UPLOAD_BYTES'' (2 * 2 ^ 30)\<rparr>\<rparr>))"

definition gateway_stale :: duration where "gateway_stale = 30 * second"

text \<open>What is served once the gateway is up: \<open>gw\<close> and \<open>fe\<close> hold what is not configured.\<close>

definition gateway_main ::
  "environ \<Rightarrow> err option \<Rightarrow> (provider \<Rightarrow> err option) \<Rightarrow> (string \<Rightarrow> registry \<Rightarrow> db_err + registry) \<Rightarrow> (statement \<Rightarrow> bool) \<Rightarrow> gateway \<Rightarrow> files_env
   \<Rightarrow> registry schema_db \<Rightarrow> (err + gateway \<times> files_env) \<times> registry schema_db" where
  "gateway_main e resource exporter exec fails gw fe db =
     (case configure_gateway e of
        Inl x \<Rightarrow> (Inl x, db)
      | Inr c \<Rightarrow>
          (case fst (Setup e resource exporter) of
             Some x \<Rightarrow> (Inl (EWrap ''obs: '' x), db)
           | None \<Rightarrow>
               (case New_Store exec fails db of
                  (Some x, db') \<Rightarrow> (Inl (EWrap ''store: '' x), db')
                | (None, db') \<Rightarrow>
                    (Inr (gw\<lparr>gw_master := gc_token c, gw_stale := gateway_stale\<rparr>, fe\<lparr>fe_store := gc_uploads c\<rparr>), db'))))"

subsection \<open>A worker\<close>

record worker_config =
  wc_dsn :: string
  wc_masterKey :: string
  wc_dataDir :: string
  wc_addr :: string
  wc_capacity :: int
  wc_uploads :: string
  wc_uploadTTL :: duration
  wc_sendTTL :: duration
  wc_id :: ident
  wc_advertise :: string

definition configure_worker ::
  "(string \<Rightarrow> duration option) \<Rightarrow> string option \<Rightarrow> string option \<Rightarrow> environ \<Rightarrow> err + worker_config" where
  "configure_worker parse host dialled e =
     (case mustEnv e ''DATABASE_URL'' of
        Inl x \<Rightarrow> Inl x
      | Inr dsn \<Rightarrow>
          (case mustEnv e ''MASTER_KEY'' of
             Inl x \<Rightarrow> Inl x
           | Inr key \<Rightarrow>
               (let addr = envOr e ''LISTEN_ADDR'' '':8080''
                in Inr \<lparr>wc_dsn = dsn, wc_masterKey = key, wc_dataDir = envOr e ''DATA_DIR'' ''/data'', wc_addr = addr,
                        wc_capacity = envInt e ''WORKER_CAPACITY'' 200, wc_uploads = envOr e ''UPLOADS_DIR'' ''/uploads'',
                        wc_uploadTTL = envDur parse e ''UPLOAD_TTL'' (2 * hour),
                        wc_sendTTL = envDur parse e ''SEND_TTL'' (7 * 24 * hour),
                        wc_id = envOr e ''WORKER_ID'' (hostname host),
                        wc_advertise = envOr e ''WORKER_ADVERTISE'' (''http://'' @ advertiseIP dialled @ addr)\<rparr>)))"

definition worker_main ::
  "environ \<Rightarrow> worker_config \<Rightarrow> err option \<Rightarrow> (provider \<Rightarrow> err option) \<Rightarrow> (string \<Rightarrow> bytes option) \<Rightarrow> (bytes \<Rightarrow> err + box)
   \<Rightarrow> (string \<Rightarrow> registry \<Rightarrow> db_err + registry) \<Rightarrow> (statement \<Rightarrow> bool) \<Rightarrow> fleet_env \<Rightarrow> time
   \<Rightarrow> registry schema_db \<Rightarrow> (err + fleet_env \<times> fleet) \<times> registry schema_db" where
  "worker_main e c resource exporter decode64 cipher exec fails fe now db =
     (case fst (Setup e resource exporter) of
        Some x \<Rightarrow> (Inl (EWrap ''obs: '' x), db)
      | None \<Rightarrow>
          (case New_Box decode64 cipher (wc_masterKey c) of
             Inl x \<Rightarrow> (Inl (EWrap ''secret: '' x), db)
           | Inr b \<Rightarrow>
               (case New_Store exec fails db of
                  (Some x, db') \<Rightarrow> (Inl (EWrap ''store: '' x), db')
                | (None, db') \<Rightarrow>
                    (let env = fe\<lparr>fe_box := b\<rparr>;
                         f = NewManager env now (wc_dataDir c) (wc_id c) (wc_advertise c) (wc_capacity c) (sd_tables db')
                     in (Inr (env, f), db'\<lparr>sd_tables := fw_reg f\<rparr>)))))"

subsection \<open>Nothing starts open\<close>

text \<open>A worker counts as alive for the gateway exactly as long as for its peers.\<close>

lemma stale_windows_agree: "gateway_stale = workerStale"
  by (simp add: gateway_stale_def workerStale_def)

lemma gateway_main_started:
  assumes "gateway_main e resource exporter exec fails gw0 fe0 db = (Inr (gw, fe), db')"
  shows "gw_master gw = e ''API_TOKEN'' \<and> e ''API_TOKEN'' \<noteq> '''' \<and> gw_stale gw = workerStale
     \<and> st_dir (fe_store fe) \<noteq> '''' \<and> New_Store exec fails db = (None, db')"
  using assms
  by (auto simp: gateway_main_def configure_gateway_def mustEnv_def envOr_def stale_windows_agree
      split: sum.splits option.splits prod.splits if_split_asm)

text \<open>No bearer, no service: an empty token in the environment cannot make the empty bearer the master's.\<close>

lemma empty_bearer_refused:
  assumes "gw_master gw \<noteq> ''''" and "header r ''Authorization'' = '''' \<or> header r ''Authorization'' = ''Bearer ''"
    and "url_path r \<noteq> ''/healthz''"
  shows "\<exists>msg. auth gw r reg = Inl (gateway_error 401 msg)"
  using assms by (auto simp: auth_def Let_def cut_prefix_def has_prefix_def)

lemma started_gateway_refuses:
  assumes "gateway_main e resource exporter exec fails gw0 fe0 db = (Inr (gw, fe), db')"
    and "header r ''Authorization'' = '''' \<or> header r ''Authorization'' = ''Bearer ''" and "url_path r \<noteq> ''/healthz''"
  shows "\<exists>msg. serve gw fe r s = (gateway_error 401 msg, s)"
  using empty_bearer_refused [OF _ assms(2,3), of gw "gs_reg s"] gateway_main_started [OF assms(1)]
  by (auto simp: serve_def)

lemma worker_main_started:
  assumes "worker_main e c resource exporter decode64 cipher exec fails fe now db = (Inr (env, f), db')"
  shows "\<exists>key. decode64 (wc_masterKey c) = Some key \<and> length key = 32
     \<and> wk_live (fw_worker f) = [] \<and> wk_capacity (fw_worker f) = wc_capacity c \<and> sd_tables db' = fw_reg f"
  using assms
  by (auto simp: worker_main_def New_Box_def NewManager_def runHeartbeat_def Let_def
      split: option.splits sum.splits prod.splits if_split_asm)

text \<open>A configured number that does not parse is not refused: the default takes its place.\<close>

lemma unreadable_capacity: "e ''WORKER_CAPACITY'' = ''500k'' \<Longrightarrow> envInt e ''WORKER_CAPACITY'' 200 = 200"
proof -
  have "parse_int64 ''500k'' = None" by code_simp
  then show "e ''WORKER_CAPACITY'' = ''500k'' \<Longrightarrow> envInt e ''WORKER_CAPACITY'' 200 = 200"
    by (simp add: envInt_def)
qed

text \<open>
  After the signal: the server drains its requests (it is done with them by then), the manager hands its sessions over,
  telemetry is flushed.
\<close>

definition worker_stop ::
  "fleet_env \<Rightarrow> time \<Rightarrow> (provider \<Rightarrow> err option) \<Rightarrow> provider list \<Rightarrow> fleet \<Rightarrow> fleet \<times> provider list" where
  "worker_stop env now sh ps f = (Shutdown env now f, snd (shutdown_all sh ps None []))"

lemma worker_stop_flushes: "snd (worker_stop env now sh ps f) = ps"
  by (simp add: worker_stop_def shutdown_all_closes)

end
