(* ===== verification/Spec2Isabelle.thy ===== *)
theory Spec2Isabelle
  imports Startup
begin

section \<open>tg-control-api-server: a verification library\<close>

text \<open>
  The program runs many Telegram accounts behind one HTTP API. A \<^bold>\<open>gateway\<close> (\<^verbatim>\<open>internal/router\<close>)
  authenticates a request, checks what its token grants and either answers from the registry or forwards the
  request to the \<^bold>\<open>worker\<close> that owns the session. A worker (\<^verbatim>\<open>internal/session\<close>, \<^verbatim>\<open>internal/api\<close>) holds the
  TDLib clients of its sessions, guards every call, logs accounts in, and queues the updates Telegram sends
  for the subscribers' webhooks. Gateway and workers meet in the \<^bold>\<open>registry\<close>, a Postgres database
  (\<^verbatim>\<open>internal/store\<close>), and in the \<^bold>\<open>uploads volume\<close> (\<^verbatim>\<open>internal/upload\<close>). The operator's rate limits have
  their policy in \<^verbatim>\<open>internal/quota\<close>.

  \<^bold>\<open>Where the code is.\<close> One theory per component, in the order of their imports; a definition has the name of
  the function, method or type it models, with the receiver's state as a last argument.

  \<^item> \<^verbatim>\<open>Prelude\<close>: times, durations, 64-bit wrap-around, the parts of \<^verbatim>\<open>strings\<close> and \<^verbatim>\<open>strconv\<close> the sources use.
    \<^verbatim>\<open>Json\<close>: \<^verbatim>\<open>encoding/json\<close>, its case folding, duplicate members and type errors included. \<^verbatim>\<open>Paths\<close>: \<^verbatim>\<open>path/filepath\<close>.
    \<^verbatim>\<open>Http\<close>: requests, replies and the mux.
  \<^item> \<^verbatim>\<open>Counters\<close> (\<^verbatim>\<open>store/limits.go\<close>) and \<^verbatim>\<open>Quota\<close> (\<^verbatim>\<open>quota/quota.go\<close>): the rules and their counters; which rules
    bear on a call, how much it counts, in which window.
  \<^item> \<^verbatim>\<open>TdJson\<close> (\<^verbatim>\<open>tdjson/raw.go\<close>): errors and the raw dispatcher over a TDLib that is a parameter.
  \<^item> \<^verbatim>\<open>Registry\<close>, \<^verbatim>\<open>Accounts\<close>, \<^verbatim>\<open>Tokens\<close>, \<^verbatim>\<open>Subscriptions\<close>, \<^verbatim>\<open>Workers\<close>, \<^verbatim>\<open>Deliveries\<close>, \<^verbatim>\<open>Sends\<close> (\<^verbatim>\<open>store/store.go\<close>): the
    tables and every statement on them, with the parts of \<^verbatim>\<open>session/subs.go\<close>, \<^verbatim>\<open>deliver.go\<close> and \<^verbatim>\<open>sends.go\<close> that belong
    to one table. \<^verbatim>\<open>Integrity\<close>: what the tables promise, kept by every statement. \<^verbatim>\<open>Migrations\<close>
    (\<^verbatim>\<open>store/migrations.go\<close>): opening the registry.
  \<^item> \<^verbatim>\<open>Guard\<close> (\<^verbatim>\<open>session/guard.go\<close>), \<^verbatim>\<open>Chats\<close>, \<^verbatim>\<open>Admission\<close> (\<^verbatim>\<open>session/limits.go\<close>, \<^verbatim>\<open>admit\<close>), \<^verbatim>\<open>Login\<close> (\<^verbatim>\<open>liveSession\<close>,
    \<^verbatim>\<open>session/authorizer.go\<close>), \<^verbatim>\<open>Upload\<close> (\<^verbatim>\<open>upload/store.go\<close>), \<^verbatim>\<open>LocalFiles\<close> (\<^verbatim>\<open>session/uploads.go\<close>), \<^verbatim>\<open>Calls\<close>
    (\<^verbatim>\<open>Manager.Call\<close>): a call from its arrival at a worker to TDLib and back.
  \<^item> \<^verbatim>\<open>Receiver\<close>, \<^verbatim>\<open>Secret\<close> (\<^verbatim>\<open>secret/secret.go\<close>), \<^verbatim>\<open>Fleet\<close>, \<^verbatim>\<open>Lifecycle\<close> (\<^verbatim>\<open>session/manager.go\<close>, \<^verbatim>\<open>downloads.go\<close>): what a
    worker holds; updates on their way to the queue; opening, claiming, shedding and handing over sessions;
    making, changing and deleting them. \<^verbatim>\<open>Api\<close> (\<^verbatim>\<open>api/server.go\<close>): the worker's HTTP interface. \<^verbatim>\<open>Webhook\<close> (\<^verbatim>\<open>post\<close> of
    \<^verbatim>\<open>session/deliver.go\<close>): the request a receiver gets and its signature.
  \<^item> \<^verbatim>\<open>Gateway\<close>, \<^verbatim>\<open>GatewayLimits\<close>, \<^verbatim>\<open>Router\<close> (\<^verbatim>\<open>router/router.go\<close>, \<^verbatim>\<open>limits.go\<close>, \<^verbatim>\<open>files.go\<close>): the gateway's handlers, its
    routes, and a request from arrival to answer or forwarding.
  \<^item> \<^verbatim>\<open>System\<close>: a request through gateway and worker together. \<^verbatim>\<open>Startup\<close> (\<^verbatim>\<open>cmd/gateway\<close>, \<^verbatim>\<open>cmd/worker\<close>,
    \<^verbatim>\<open>obs/obs.go\<close>): configuration, the start and end of the programs, telemetry.
\<close>

text \<open>
  \<^bold>\<open>State.\<close> A table of the registry is the list of its rows (\<open>registry\<close>), a worker's Go maps are lists of entries
  (\<open>worker\<close>), a session's guard and login are records (\<open>guard\<close>, \<open>liveSession\<close>), the volume is a map of files
  (\<open>volume\<close>). \<open>fleet\<close> is one worker with the registry it sees; \<open>api_state\<close> adds what its HTTP interface needs.
  Errors are the constructors of \<open>err\<close> and \<open>db_err\<close>; a fallible operation answers a sum.

  \<^bold>\<open>What is an argument.\<close> The clock, fresh ids and random bytes; which statements of the database fail
  (\<open>fe_fails\<close>, \<open>db_up\<close>) and which file operations do (\<open>io_env\<close>); the answers of TDLib, as a function of the requests
  sent so far (\<open>td_env\<close> records every request that reaches it); go-tdlib's \<^verbatim>\<open>NewClient\<close> (\<open>fe_newClient\<close>); the
  cipher; the HTTP post to a receiver (\<open>poster\<close>, of which \<open>webhook_poster\<close> is the code's); the text of a database error and of a time; what else happens while an
  operation waits (\<open>elapse\<close>). Theorems hold for all of them unless a hypothesis says otherwise.

  \<^bold>\<open>Conventions.\<close> Ids are uuids in canonical text form. A method under a mutex, an SQL statement and a
  transaction are one step each. Work on a goroutine is a job that runs in any order (\<^verbatim>\<open>Guard\<close>), a step of
  its own in a step relation (\<^verbatim>\<open>Receiver\<close>, \<^verbatim>\<open>Login\<close>) or, where the order cannot matter to the result, done in
  sequence (the deliveries of one tick). A reconcile pass happens at one time. A closed client stays
  in \<open>fw_closed\<close>, so that closing it can be stated. Eight days are eight times 24 hours.

  \<^bold>\<open>Bounds and recursion.\<close> Recursion is on the data throughout. The only depth bound is in the decoder of nested
  send results, which unfolds its own field table: it is given the depth of the JSON value it reads, which
  bounds the nesting it can meet, so that no result is cut. Machine integers are wrapped where the code's width
  shows: durations and backoffs at 64 bits, file ids and rule counters at 32.
\<close>

text \<open>
  \<^bold>\<open>What is proved.\<close>

  \<^item> \<^bold>\<open>Calls.\<close> A refused call never reaches Telegram and spends no quota; a flood wait closes its scope until it is
    over; the operator's limits refuse exactly when a documented rule in force has no room left in its
    window; writes keep their pace; a spam-limited account reaches only mutual contacts; a call is sent at
    most twice; local files stay inside the uploads volume; reserved methods never leave the worker; the
    answer to a failed call names who refused it.
  \<^item> \<^bold>\<open>Tokens and routing.\<close> Through gateway and worker together a scoped token makes TDLib receive something only for
    accounts its grants cover, whatever the path looks like; the session listing shows exactly these; a forwarded
    request always has a route at the worker; a gateway that starts has a master token, and refuses an empty one.
  \<^item> \<^bold>\<open>Login.\<close> A session hands out its client exactly when its login is complete, asks for one code at most, and a
    rejected value leaves it waiting for another.
  \<^item> \<^bold>\<open>Ownership.\<close> Claims are disjoint and never take a live worker's session; fencing, balance and
    shutdown settle who holds what.
  \<^item> \<^bold>\<open>Updates.\<close> Every update is queued or counted as dropped exactly once; routing follows the stored filters;
    a delivery is posted at most ten times and ends; claims of deliveries are fair and authorized; a post is
    signed with the secret its subscription was made with.
  \<^item> \<^bold>\<open>Sends and uploads.\<close> A send resolves to its outcome in whatever order its events are written; a completed
    upload is the client's file byte for byte; cleaning up removes what it should and nothing else.
  \<^item> \<^bold>\<open>The registry.\<close> Keys, references and checks survive every statement, cascades included; migrations run once
    each and in order.

  \<^bold>\<open>Interfaces.\<close> \<open>cooldown_keeper\<close> (a map that only lets ends grow) has two providers, the guard's memory and the registry's
    table, and the proof that the second follows the first rests on it. \<open>quota_ledger\<close> is what taking and giving back counters
    promise to admission; \<open>fixed_windows\<close> what the four units of a rule share; \<open>lease\<close> what claims promise of
    ownership; \<open>send_table\<close> what registrations and outcomes promise in any order; \<open>resumable\<close> what an append promises to an
    upload. Each is interpreted on the definitions of the component that provides it.

  \<^bold>\<open>Not modelled.\<close> The smoke check (\<^verbatim>\<open>cmd/smoke\<close>), the web console (\<^verbatim>\<open>ui\<close>), scripts and tests are not part of
    the service. The SQL text of a migration is not interpreted: the constraints it declares are in the statements
    of the registry. Tickers and goroutine loops are represented by the body of one round. Listening, signals, logging,
    TLS, compression, the byte stream of a download and the retries of the HTTP client are library code.
\<close>

end
